(* ===== verification/Kernel_Base.thy ===== *)
theory Kernel_Base
  imports Main "HOL-Library.Word"
begin

text \<open>
  Prelude of the development: the machine types, the compile-time constants of
  \<^verbatim>\<open>kernel/param.h\<close>, the names of locks and sleep channels, the result type of
  kernel operations (\<open>panic\<close>, a null dereference and going to sleep are values), the part
  of the state that every component shares, and the lemmas on lists and results that the
  component theories use.

  Every kernel operation is a function from a state to a result. The state is an extensible
  record: each component theory extends the record of the components it calls, so an
  operation of a lower component applies unchanged to the state of a higher one.
\<close>

unbundle bit_operations_syntax

section \<open>Machine types and constants\<close>

type_synonym byte = "8 word"
type_synonym u16 = "16 word"
type_synonym u32 = "32 word"
type_synonym u64 = "64 word"

text \<open>\<^verbatim>\<open>kernel/param.h\<close>: table sizes and the energy and deadlock parameters.\<close>

abbreviation (input) NPROC :: nat where "NPROC \<equiv> 64"
abbreviation (input) NCPU :: nat where "NCPU \<equiv> 8"
abbreviation (input) NOFILE :: nat where "NOFILE \<equiv> 16"
abbreviation (input) NRES :: nat where "NRES \<equiv> 16"
abbreviation (input) DEFAULT_ENERGY_BUDGET :: u64 where "DEFAULT_ENERGY_BUDGET \<equiv> 1000"
abbreviation (input) ENERGY_PER_TICK :: u64 where "ENERGY_PER_TICK \<equiv> 1"
abbreviation (input) LOW_ENERGY_THRESHOLD :: u64 where "LOW_ENERGY_THRESHOLD \<equiv> 100"
abbreviation (input) DEADLOCK_CHECK_INTERVAL :: u32 where "DEADLOCK_CHECK_INTERVAL \<equiv> 100"

text \<open>\<^verbatim>\<open>kernel/riscv.h\<close>, \<^verbatim>\<open>kernel/memlayout.h\<close>: page size and memory layout.\<close>

abbreviation (input) PGSIZE :: u64 where "PGSIZE \<equiv> 4096"
abbreviation (input) KERNBASE :: u64 where "KERNBASE \<equiv> 0x80000000"
abbreviation (input) PHYSTOP :: u64 where "PHYSTOP \<equiv> 0x88000000"
abbreviation (input) MAXVA :: u64 where "MAXVA \<equiv> 0x4000000000"
abbreviation (input) TRAMPOLINE :: u64 where "TRAMPOLINE \<equiv> 0x3FFFFFF000"
abbreviation (input) TRAPFRAME :: u64 where "TRAPFRAME \<equiv> 0x3FFFFFE000"

section \<open>Locks, sleep channels and results\<close>

text \<open>
  A \<^verbatim>\<open>struct sleeplock\<close> lives in a buffer, in an in-memory inode or in the two demo locks
  of \<^verbatim>\<open>sysproc.c\<close>. A \<^verbatim>\<open>struct spinlock\<close> is one of the kernel's named locks, the lock of a
  process table entry, or the spinlock inside a sleeplock. Distinct objects have distinct
  addresses, so names stand for the addresses.
\<close>

datatype sleeplock_id = Buf_lock nat | Inode_lock nat | Demo_lock nat

datatype lock =
    Kmem_lock | Pid_lock | Wait_lock | Ticks_lock | Bcache_lock | Itable_lock | Ftable_lock
  | Log_lock | Cons_lock | Tx_lock | Pr_lock | Vdisk_lock
  | Proc_lock nat
  | Sleep_lk sleeplock_id

text \<open>The addresses that the kernel passes to \<open>sleep\<close> and \<open>wakeup\<close>.\<close>

datatype chan =
    Chan_ticks
  | Chan_proc nat
  | Chan_sleeplock sleeplock_id
  | Chan_nread u64
  | Chan_nwrite u64
  | Chan_log
  | Chan_cons_r
  | Chan_tx
  | Chan_disk_free
  | Chan_buf nat

text \<open>
  Why an operation does not return: it called \<open>panic\<close>, it dereferenced a null pointer
  (page 0 is not mapped in the kernel page table, so the load traps and \<open>kerneltrap\<close>
  panics), it did something C leaves undefined (an array overrun, a missing variadic
  argument), the thread gave up the CPU in \<open>sched\<close>, the state being the one that \<open>swtch\<close>
  leaves to the scheduler, or it waits in a loop that only another thread can end.
\<close>

datatype 's stop = Panic string | Null_deref | Undefined | Switch 's | Spin 's

type_synonym ('s, 'a) kres = "'s stop + 'a \<times> 's"

definition ret :: "'a \<Rightarrow> 's \<Rightarrow> ('s, 'a) kres" where
  "ret x s = Inr (x, s)"

definition panic :: "string \<Rightarrow> ('s, 'a) kres" where
  "panic msg = Inl (Panic msg)"

fun bindK :: "('s, 'a) kres \<Rightarrow> ('a \<Rightarrow> 's \<Rightarrow> ('s, 'b) kres) \<Rightarrow> ('s, 'b) kres" where
  "bindK (Inl e) f = Inl e"
| "bindK (Inr (x, s)) f = f x s"

text \<open>A loop over an array, one iteration per index.\<close>

fun forK :: "'i list \<Rightarrow> ('i \<Rightarrow> 's \<Rightarrow> ('s, unit) kres) \<Rightarrow> 's \<Rightarrow> ('s, unit) kres" where
  "forK [] f s = ret () s"
| "forK (i # is) f s = bindK (f i s) (\<lambda>_ s. forK is f s)"

section \<open>The shared part of the state\<close>

text \<open>
  \<open>held\<close>: the spinlocks the running kernel thread holds, the last taken first; its length
  is \<^verbatim>\<open>mycpu()->noff\<close>. Theory \<open>Spinlock\<close> models \<^verbatim>\<open>spinlock.c\<close> on the lock words and the CPU
  structures themselves and shows that its \<open>acquire\<close> and \<open>release\<close> implement the two
  operations below. \<open>uart_out\<close>: the bytes written to the UART's transmit register.
\<close>

record mach =
  held :: "lock list"
  uart_out :: "byte list"

definition acquire :: "lock \<Rightarrow> 's mach_scheme \<Rightarrow> ('s mach_scheme, unit) kres" where
  "acquire l s =
     (if l \<in> set (held s) then panic ''acquire'' else ret () (s\<lparr>held := l # held s\<rparr>))"

definition release :: "lock \<Rightarrow> 's mach_scheme \<Rightarrow> ('s mach_scheme, unit) kres" where
  "release l s =
     (if l \<notin> set (held s) then panic ''release''
      else ret () (s\<lparr>held := remove1 l (held s)\<rparr>))"

text \<open>\<open>release\<close> through a pointer that may be null, as \<open>sleep\<close> calls it.\<close>

fun release_ptr :: "lock option \<Rightarrow> 's mach_scheme \<Rightarrow> ('s mach_scheme, unit) kres" where
  "release_ptr None s = Inl Null_deref"
| "release_ptr (Some l) s = release l s"

text \<open>Character and string literals as bytes.\<close>

definition ch :: "char \<Rightarrow> byte" where
  "ch c = of_char c"

definition bytes :: "string \<Rightarrow> byte list" where
  "bytes str = map ch str"

section \<open>Lemmas shared by the components\<close>

named_theorems kres_simps \<open>evaluation of results and of the lock operations\<close>

lemma bindK_ret [simp, kres_simps]: "bindK (ret x s) f = f x s"
  by (simp add: ret_def)

lemma bindK_panic [simp, kres_simps]: "bindK (panic m) f = panic m"
  by (simp add: panic_def)

lemma ret_eq_Inr [simp]: "ret x s = Inr (y, t) \<longleftrightarrow> x = y \<and> s = t"
  by (simp add: ret_def)

lemma ret_eq_ret [simp]: "ret x s = ret y t \<longleftrightarrow> x = y \<and> s = t"
  by (simp add: ret_def)

lemma ret_not_Inl [simp]: "ret x s \<noteq> Inl e" "Inl e \<noteq> ret x s"
  by (simp_all add: ret_def)

lemma panic_not_Inr [simp]: "panic m \<noteq> Inr r" "Inr r \<noteq> panic m"
  by (simp_all add: panic_def)

lemma panic_not_ret [simp]: "panic m \<noteq> ret x s" "ret x s \<noteq> panic m"
  by (simp_all add: panic_def ret_def)

lemma bindK_eq_Inr:
  "bindK m f = Inr r \<longleftrightarrow> (\<exists>x s. m = Inr (x, s) \<and> f x s = Inr r)"
  by (cases m) auto

lemma bindK_eq_ret:
  "bindK m f = ret y t \<longleftrightarrow> (\<exists>x s. m = ret x s \<and> f x s = ret y t)"
  by (cases m) (auto simp: ret_def)

lemma bindK_assoc: "bindK (bindK m f) g = bindK m (\<lambda>x s. bindK (f x s) g)"
  by (cases m) auto

text \<open>
  A critical section. Taking a lock that is not held succeeds; releasing the lock taken
  last gives the list of held locks back.
\<close>

lemma acquire_ok [kres_simps]:
  "l \<notin> set (held s) \<Longrightarrow> acquire l s = ret () (s\<lparr>held := l # held s\<rparr>)"
  by (simp add: acquire_def)

lemma acquire_held: "l \<in> set (held s) \<Longrightarrow> acquire l s = panic ''acquire''"
  by (simp add: acquire_def)

lemma release_ok [kres_simps]:
  "l \<in> set (held s) \<Longrightarrow> release l s = ret () (s\<lparr>held := remove1 l (held s)\<rparr>)"
  by (simp add: release_def)

lemma release_not_held: "l \<notin> set (held s) \<Longrightarrow> release l s = panic ''release''"
  by (simp add: release_def)

lemma int_length_remove1: "x \<in> set xs \<Longrightarrow> int (length (remove1 x xs)) = int (length xs) - 1"
  by (induction xs) auto

text \<open>The first index of a range that satisfies a predicate.\<close>

lemma find_upt_least:
  "find P [a..<b] = Some i \<longleftrightarrow> a \<le> i \<and> i < b \<and> P i \<and> (\<forall>j. a \<le> j \<longrightarrow> j < i \<longrightarrow> \<not> P j)"
  (is "?l \<longleftrightarrow> ?r")
proof
  assume ?l
  then obtain k where k: "k < b - a" "P (a + k)" "i = a + k" "\<forall>j<k. \<not> P (a + j)"
    by (auto simp: find_Some_iff)
  have "\<not> P j" if "a \<le> j" "j < i" for j
    using k that by (metis le_add_diff_inverse nat_add_left_cancel_less)
  with k show ?r by auto
next
  assume r: ?r
  then have "i - a < length [a..<b]" "[a..<b] ! (i - a) = i"
    by auto
  moreover have "\<not> P ([a..<b] ! j)" if "j < i - a" for j
  proof -
    have "[a..<b] ! j = a + j" using r that by (intro nth_upt) linarith
    moreover have "a + j < i" using that by linarith
    ultimately show ?thesis using r by simp
  qed
  ultimately show ?l
    using r by (auto simp: find_Some_iff intro!: exI [of _ "i - a"])
qed

text \<open>
  Framing: whatever an operation returns, the state before and the state after are related.
\<close>

definition keeps :: "('s \<Rightarrow> 's \<Rightarrow> bool) \<Rightarrow> 's \<Rightarrow> ('s, 'a) kres \<Rightarrow> bool" where
  "keeps R s m \<longleftrightarrow> (\<forall>x t. m = ret x t \<longrightarrow> R s t)"

lemma keepsD: "keeps R s m \<Longrightarrow> m = ret x t \<Longrightarrow> R s t"
  by (simp add: keeps_def)

lemma keeps_ret [simp]: "keeps R s (ret x t) \<longleftrightarrow> R s t"
  by (simp add: keeps_def)

lemma keeps_stop [simp]: "keeps R s (Inl e)" "keeps R s (panic msg)"
  by (simp_all add: keeps_def)

lemma keeps_bind:
  assumes "transp R" "keeps R s m" "\<And>x t. m = ret x t \<Longrightarrow> keeps R t (f x t)"
  shows "keeps R s (bindK m f)"
  using assms unfolding keeps_def by (auto simp: bindK_eq_ret dest: transpD)

lemma keeps_forK:
  assumes "reflp R" "transp R" "\<And>i t. i \<in> set is \<Longrightarrow> keeps R t (f i t)"
  shows "keeps R s (forK is f s)"
  using assms(3)
proof (induction "is" arbitrary: s)
  case Nil
  then show ?case using assms(1) by (simp add: reflpD)
next
  case (Cons i "is")
  then show ?case using assms(2) by (auto intro: keeps_bind)
qed

end
