(* ===== verification/Spinlock.thy ===== *)
theory Spinlock
  imports Kernel_Base
begin

text \<open>
  \<^verbatim>\<open>kernel/spinlock.c\<close> on the structures it changes: the lock word and owner of each
  \<^verbatim>\<open>struct spinlock\<close>, \<open>noff\<close> and \<open>intena\<close> of each \<^verbatim>\<open>struct cpu\<close>, and the interrupt-enable
  bit of each hart. \<open>spin_step\<close> interleaves the harts: the atomic swap of \<open>acquire\<close> is one
  step, so a hart that loses it stays in the loop. The invariant of the reachable states
  gives mutual exclusion, that a hart in a critical section has its interrupts off, and that
  \<open>noff\<close> counts the locks. The last section shows that, seen from one hart, \<open>spin_acquire\<close>
  and \<open>spin_release\<close> implement \<open>acquire\<close> and \<open>release\<close> of the prelude, which the other
  components use.
\<close>

section \<open>Definitions\<close>

text \<open>\<^verbatim>\<open>struct spinlock\<close> and the fields of \<^verbatim>\<open>struct cpu\<close> that \<^verbatim>\<open>spinlock.c\<close> uses.\<close>

record spinlock =
  locked :: u32
  lk_cpu :: "nat option"

record cpu =
  noff :: int
  intena :: bool

record hw =
  spins :: "lock \<Rightarrow> spinlock"
  cpus :: "nat \<Rightarrow> cpu"
  sie :: "nat \<Rightarrow> bool"

definition initlock :: "lock \<Rightarrow> hw \<Rightarrow> hw" where
  "initlock l s = s\<lparr>spins := (spins s)(l := \<lparr>locked = 0, lk_cpu = None\<rparr>)\<rparr>"

definition intr_get :: "nat \<Rightarrow> hw \<Rightarrow> bool" where
  "intr_get h s = sie s h"

definition intr_off :: "nat \<Rightarrow> hw \<Rightarrow> hw" where
  "intr_off h s = s\<lparr>sie := (sie s)(h := False)\<rparr>"

definition intr_on :: "nat \<Rightarrow> hw \<Rightarrow> hw" where
  "intr_on h s = s\<lparr>sie := (sie s)(h := True)\<rparr>"

definition set_cpu :: "nat \<Rightarrow> cpu \<Rightarrow> hw \<Rightarrow> hw" where
  "set_cpu h c s = s\<lparr>cpus := (cpus s)(h := c)\<rparr>"

definition push_off :: "nat \<Rightarrow> hw \<Rightarrow> hw" where
  "push_off h s =
     (let old = intr_get h s;
          s = intr_off h s;
          s = (if noff (cpus s h) = 0 then set_cpu h ((cpus s h)\<lparr>intena := old\<rparr>) s else s)
      in set_cpu h ((cpus s h)\<lparr>noff := noff (cpus s h) + 1\<rparr>) s)"

definition pop_off :: "nat \<Rightarrow> hw \<Rightarrow> (hw, unit) kres" where
  "pop_off h s =
     (if intr_get h s then panic ''pop_off - interruptible''
      else if noff (cpus s h) < 1 then panic ''pop_off''
      else let s = set_cpu h ((cpus s h)\<lparr>noff := noff (cpus s h) - 1\<rparr>) s
           in if noff (cpus s h) = 0 \<and> intena (cpus s h) then ret () (intr_on h s)
              else ret () s)"

definition spin_holding :: "nat \<Rightarrow> lock \<Rightarrow> hw \<Rightarrow> bool" where
  "spin_holding h l s \<longleftrightarrow> locked (spins s l) \<noteq> 0 \<and> lk_cpu (spins s l) = Some h"

text \<open>
  \<open>acquire\<close> up to its loop; one round of the loop, the atomic swap with the store of the
  owner after a successful one (\<open>None\<close>: the word was set, spin again).
\<close>

definition acquire_enter :: "nat \<Rightarrow> lock \<Rightarrow> hw \<Rightarrow> (hw, unit) kres" where
  "acquire_enter h l s =
     (let s = push_off h s in if spin_holding h l s then panic ''acquire'' else ret () s)"

definition acquire_swap :: "nat \<Rightarrow> lock \<Rightarrow> hw \<Rightarrow> hw option" where
  "acquire_swap h l s =
     (let old = locked (spins s l);
          s = s\<lparr>spins := (spins s)(l := (spins s l)\<lparr>locked := 1\<rparr>)\<rparr>
      in if old \<noteq> 0 then None
         else Some (s\<lparr>spins := (spins s)(l := (spins s l)\<lparr>lk_cpu := Some h\<rparr>)\<rparr>))"

definition spin_release :: "nat \<Rightarrow> lock \<Rightarrow> hw \<Rightarrow> (hw, unit) kres" where
  "spin_release h l s =
     (if \<not> spin_holding h l s then panic ''release''
      else let s = s\<lparr>spins := (spins s)(l := (spins s l)\<lparr>lk_cpu := None\<rparr>)\<rparr>;
               s = s\<lparr>spins := (spins s)(l := (spins s l)\<lparr>locked := 0\<rparr>)\<rparr>
           in pop_off h s)"

text \<open>The whole of \<open>acquire\<close> when no other hart holds the lock; \<open>None\<close> when it has to spin.\<close>

definition spin_acquire :: "nat \<Rightarrow> lock \<Rightarrow> hw \<Rightarrow> (hw, unit) kres option" where
  "spin_acquire h l s =
     (case acquire_enter h l s of
        Inl e \<Rightarrow> Some (Inl e)
      | Inr (_, s) \<Rightarrow> map_option (ret ()) (acquire_swap h l s))"

text \<open>
  The harts together: the hardware state, the lock each hart is spinning for, and the locks
  each hart has acquired and not released (the last first). The panics of \<open>acquire\<close> and
  \<open>release\<close> end the run, so they have no step.
\<close>

record smp =
  smp_hw :: hw
  spinning :: "nat \<Rightarrow> lock option"
  owns :: "nat \<Rightarrow> lock list"

definition boot_hw :: hw where
  "boot_hw = \<lparr>spins = (\<lambda>_. \<lparr>locked = 0, lk_cpu = None\<rparr>),
              cpus = (\<lambda>_. \<lparr>noff = 0, intena = False\<rparr>), sie = (\<lambda>_. False)\<rparr>"

definition boot_smp :: smp where
  "boot_smp = \<lparr>smp_hw = boot_hw, spinning = (\<lambda>_. None), owns = (\<lambda>_. [])\<rparr>"

inductive spin_step :: "smp \<Rightarrow> smp \<Rightarrow> bool" where
  enter: "spinning x h = None \<Longrightarrow> acquire_enter h l (smp_hw x) = ret () s \<Longrightarrow>
    spin_step x (x\<lparr>smp_hw := s, spinning := (spinning x)(h := Some l)\<rparr>)"
| win: "spinning x h = Some l \<Longrightarrow> acquire_swap h l (smp_hw x) = Some s \<Longrightarrow>
    spin_step x (x\<lparr>smp_hw := s, spinning := (spinning x)(h := None),
                   owns := (owns x)(h := l # owns x h)\<rparr>)"
| spin: "spinning x h = Some l \<Longrightarrow> acquire_swap h l (smp_hw x) = None \<Longrightarrow> spin_step x x"
| leave: "spinning x h = None \<Longrightarrow> spin_release h l (smp_hw x) = ret () s \<Longrightarrow>
    spin_step x (x\<lparr>smp_hw := s, owns := (owns x)(h := remove1 l (owns x h))\<rparr>)"
| enable: "spinning x h = None \<Longrightarrow> owns x h = [] \<Longrightarrow>
    spin_step x (x\<lparr>smp_hw := intr_on h (smp_hw x)\<rparr>)"

inductive spin_reach :: "smp \<Rightarrow> bool" where
  boot: "spin_reach boot_smp"
| step: "spin_reach x \<Longrightarrow> spin_step x y \<Longrightarrow> spin_reach y"

definition spin_inv :: "smp \<Rightarrow> bool" where
  "spin_inv x \<longleftrightarrow>
     (\<forall>h l. l \<in> set (owns x h) \<longleftrightarrow> spin_holding h l (smp_hw x)) \<and>
     (\<forall>h. distinct (owns x h)) \<and>
     (\<forall>l. locked (spins (smp_hw x) l) \<noteq> 0 \<longleftrightarrow> lk_cpu (spins (smp_hw x) l) \<noteq> None) \<and>
     (\<forall>h. noff (cpus (smp_hw x) h) =
            int (length (owns x h)) + (if spinning x h = None then 0 else 1)) \<and>
     (\<forall>h. 0 < noff (cpus (smp_hw x) h) \<longrightarrow> \<not> sie (smp_hw x) h)"

section \<open>Effect of the operations\<close>

lemma push_off_simps [simp]:
  "spins (push_off h s) = spins s"
  "noff (cpus (push_off h s) h') = noff (cpus s h') + (if h' = h then 1 else 0)"
  "sie (push_off h s) = (sie s)(h := False)"
  by (auto simp: push_off_def Let_def intr_off_def set_cpu_def)

lemma push_off_holding [simp]: "spin_holding h l (push_off h' s) = spin_holding h l s"
  by (simp add: spin_holding_def)

lemma acquire_enter_ret:
  "acquire_enter h l s = ret () t \<longleftrightarrow> \<not> spin_holding h l s \<and> t = push_off h s"
  by (auto simp: acquire_enter_def)

lemma acquire_swap_Some:
  "acquire_swap h l s = Some t \<longleftrightarrow>
     locked (spins s l) = 0 \<and>
     t = s\<lparr>spins := (spins s)(l := (spins s l)\<lparr>locked := 1, lk_cpu := Some h\<rparr>)\<rparr>"
  by (auto simp: acquire_swap_def Let_def)

lemma pop_off_ret:
  assumes "pop_off h s = ret () t"
  shows "\<not> sie s h \<and> 1 \<le> noff (cpus s h) \<and> spins t = spins s \<and>
         (\<forall>h'. noff (cpus t h') = noff (cpus s h') - (if h' = h then 1 else 0)) \<and>
         (\<forall>h'. h' \<noteq> h \<longrightarrow> sie t h' = sie s h') \<and>
         (1 < noff (cpus s h) \<longrightarrow> \<not> sie t h)"
  using assms
  by (auto simp: pop_off_def Let_def intr_get_def intr_on_def set_cpu_def split: if_splits)

lemma pop_off_progress: "\<not> sie s h \<Longrightarrow> 1 \<le> noff (cpus s h) \<Longrightarrow> \<exists>t. pop_off h s = ret () t"
  unfolding pop_off_def Let_def intr_get_def by (simp split: if_split)

lemma spin_release_ret:
  assumes "spin_release h l s = ret () t"
  shows "spin_holding h l s \<and> \<not> sie s h \<and> 1 \<le> noff (cpus s h) \<and>
         spins t = (spins s)(l := (spins s l)\<lparr>locked := 0, lk_cpu := None\<rparr>) \<and>
         (\<forall>h'. noff (cpus t h') = noff (cpus s h') - (if h' = h then 1 else 0)) \<and>
         (\<forall>h'. h' \<noteq> h \<longrightarrow> sie t h' = sie s h') \<and>
         (1 < noff (cpus s h) \<longrightarrow> \<not> sie t h)"
  using assms
  by (auto simp: spin_release_def Let_def split: if_splits dest!: pop_off_ret)

section \<open>The invariant of the interleaved harts\<close>

lemma spin_inv_boot: "spin_inv boot_smp"
  by (simp add: spin_inv_def boot_smp_def boot_hw_def spin_holding_def)

lemmas spin_invD =
  spin_inv_def [THEN iffD1, THEN conjunct1, rule_format]
  spin_inv_def [THEN iffD1, THEN conjunct2, THEN conjunct1, rule_format]
  spin_inv_def [THEN iffD1, THEN conjunct2, THEN conjunct2, THEN conjunct1, rule_format]
  spin_inv_def [THEN iffD1, THEN conjunct2, THEN conjunct2, THEN conjunct2, THEN conjunct1,
    rule_format]
  spin_inv_def [THEN iffD1, THEN conjunct2, THEN conjunct2, THEN conjunct2, THEN conjunct2,
    rule_format]

lemma spin_inv_enter:
  assumes "spin_inv x" "spinning x h = None" "acquire_enter h l (smp_hw x) = ret () s"
  shows "spin_inv (x\<lparr>smp_hw := s, spinning := (spinning x)(h := Some l)\<rparr>)"
  using assms unfolding spin_inv_def acquire_enter_ret by auto

lemma spin_inv_win:
  assumes "spin_inv x" "spinning x h = Some l" "acquire_swap h l (smp_hw x) = Some s"
  shows "spin_inv (x\<lparr>smp_hw := s, spinning := (spinning x)(h := None),
                     owns := (owns x)(h := l # owns x h)\<rparr>)"
proof -
  from assms(3) have l: "locked (spins (smp_hw x) l) = 0"
    and s: "s = (smp_hw x)\<lparr>spins := (spins (smp_hw x))
                 (l := (spins (smp_hw x) l)\<lparr>locked := 1, lk_cpu := Some h\<rparr>)\<rparr>"
    by (simp_all add: acquire_swap_Some)
  from l have free: "\<not> spin_holding h' l (smp_hw x)" for h'
    by (simp add: spin_holding_def)
  have hold: "spin_holding h' l' s \<longleftrightarrow> (if l' = l then h' = h else spin_holding h' l' (smp_hw x))"
    for h' l' by (auto simp: s spin_holding_def)
  show ?thesis
    using assms(1,2) free unfolding spin_inv_def s by (auto simp: hold [unfolded s])
qed

lemma spin_inv_leave:
  assumes inv: "spin_inv x" and sp: "spinning x h = None"
    and rel: "spin_release h l (smp_hw x) = ret () s"
  shows "spin_inv (x\<lparr>smp_hw := s, owns := (owns x)(h := remove1 l (owns x h))\<rparr>)"
proof -
  note r = spin_release_ret [OF rel]
  from r have own: "l \<in> set (owns x h)" using spin_invD(1) [OF inv] by blast
  have hold: "spin_holding h' l' s \<longleftrightarrow> l' \<noteq> l \<and> spin_holding h' l' (smp_hw x)" for h' l'
    using r by (auto simp: spin_holding_def)
  have other: "l \<notin> set (owns x h')" if "h' \<noteq> h" for h'
    using that r spin_invD(1) [OF inv] by (auto simp: spin_holding_def)
  have "int (length (remove1 l (owns x h))) = int (length (owns x h)) - 1"
    using own by (rule int_length_remove1)
  then show ?thesis
    using inv sp r other unfolding spin_inv_def by (auto simp: hold)
qed

lemma spin_inv_enable:
  assumes "spin_inv x" "spinning x h = None" "owns x h = []"
  shows "spin_inv (x\<lparr>smp_hw := intr_on h (smp_hw x)\<rparr>)"
proof -
  have "noff (cpus (smp_hw x) h) = 0"
    using assms(2,3) spin_invD(4) [OF assms(1), of h] by simp
  then show ?thesis
    using assms unfolding spin_inv_def by (auto simp: intr_on_def spin_holding_def)
qed

lemma spin_inv_step: "spin_step x y \<Longrightarrow> spin_inv x \<Longrightarrow> spin_inv y"
  by (induction rule: spin_step.induct)
    (blast intro: spin_inv_enter spin_inv_win spin_inv_leave spin_inv_enable)+

lemma spin_reach_inv: "spin_reach x \<Longrightarrow> spin_inv x"
  by (induction rule: spin_reach.induct) (auto intro: spin_inv_boot spin_inv_step)



section \<open>One hart's view\<close>

text \<open>
  The relation between the hardware and the \<open>held\<close> list of the prelude, for hart \<open>h\<close>
  while it is not spinning.
\<close>

definition hart_view :: "nat \<Rightarrow> hw \<Rightarrow> lock list \<Rightarrow> bool" where
  "hart_view h s hs \<longleftrightarrow>
     distinct hs \<and> (\<forall>l. l \<in> set hs \<longleftrightarrow> spin_holding h l s) \<and>
     noff (cpus s h) = int (length hs) \<and> (hs \<noteq> [] \<longrightarrow> \<not> sie s h)"

definition one_owner :: hw where
  "one_owner = boot_hw\<lparr>spins := (spins boot_hw)(Kmem_lock := \<lparr>locked = 1, lk_cpu = Some 0\<rparr>),
                        cpus := (cpus boot_hw)(0 := \<lparr>noff = 1, intena = False\<rparr>)\<rparr>"

lemma one_owner_view: "hart_view 0 one_owner [Kmem_lock]"
  by (simp add: hart_view_def one_owner_def boot_hw_def spin_holding_def)

text \<open>
  C18. \<open>spin_acquire\<close> and \<open>spin_release\<close> implement \<open>acquire\<close> and \<open>release\<close> on the list of
  held locks, panics included. The one outcome with no counterpart is spinning for a lock
  that another hart holds.
\<close>

theorem spin_acquire_refines:
  assumes view: "hart_view h s (held k)"
    and free: "\<forall>h'. h' \<noteq> h \<longrightarrow> \<not> spin_holding h' l s"
    and owned: "locked (spins s l) \<noteq> 0 \<longrightarrow> lk_cpu (spins s l) \<noteq> None"
  shows "case acquire l k of
           Inl e \<Rightarrow> spin_acquire h l s = Some (panic ''acquire'') \<and> e = Panic ''acquire''
         | Inr (_, k') \<Rightarrow> (\<exists>s'. spin_acquire h l s = Some (ret () s') \<and> hart_view h s' (held k'))"
proof (cases "l \<in> set (held k)")
  case True
  then have "spin_holding h l s" using view by (simp add: hart_view_def)
  then show ?thesis
    using True by (simp add: acquire_held spin_acquire_def acquire_enter_def panic_def)
next
  case False
  then have nh: "\<not> spin_holding h l s" using view by (simp add: hart_view_def)
  with free owned have unl: "locked (spins s l) = 0"
    by (auto simp: spin_holding_def)
  define s' where "s' = (push_off h s)\<lparr>spins := (spins s)
                          (l := (spins s l)\<lparr>locked := 1, lk_cpu := Some h\<rparr>)\<rparr>"
  have "acquire_swap h l (push_off h s) = Some s'"
    using unl by (simp add: acquire_swap_Some s'_def)
  then have "spin_acquire h l s = Some (ret () s')"
    using nh by (simp add: spin_acquire_def acquire_enter_def ret_def)
  moreover have "hart_view h s' (l # held k)"
    using view False unl by (auto simp: hart_view_def s'_def spin_holding_def)
  ultimately show ?thesis
    using False by (simp add: acquire_ok ret_def)
qed

theorem spin_acquire_refines_witness:
  "\<exists>s'. spin_acquire 0 Pid_lock one_owner = Some (ret () s') \<and> hart_view 0 s' [Pid_lock, Kmem_lock]"
  using spin_acquire_refines [of 0 one_owner "\<lparr>held = [Kmem_lock], uart_out = []\<rparr>" Pid_lock]
  by (simp add: one_owner_view acquire_def ret_def)
    (simp add: one_owner_def boot_hw_def spin_holding_def)

text \<open>
  C19. \<open>spin_release\<close> implements \<open>release\<close> on the list of held locks: it panics exactly when
  the caller does not hold the lock, and otherwise leaves the view of the remaining locks.
\<close>

theorem spin_release_refines:
  assumes view: "hart_view h s (held k)"
  shows "case release l k of
           Inl e \<Rightarrow> spin_release h l s = panic ''release'' \<and> e = Panic ''release''
         | Inr (_, k') \<Rightarrow> (\<exists>s'. spin_release h l s = ret () s' \<and> hart_view h s' (held k'))"
proof (cases "l \<in> set (held k)")
  case False
  then show ?thesis
    using view by (simp add: release_not_held spin_release_def hart_view_def panic_def)
next
  case True
  then have hold: "spin_holding h l s" and off: "\<not> sie s h" and pos: "1 \<le> noff (cpus s h)"
    using view by (auto simp: hart_view_def Suc_le_eq length_pos_if_in_set)
  then obtain s' where s': "spin_release h l s = ret () s'"
    using pop_off_progress by (fastforce simp: spin_release_def Let_def)
  note r = spin_release_ret [OF s']
  have hold': "spin_holding h l' s' \<longleftrightarrow> l' \<noteq> l \<and> spin_holding h l' s" for l'
    using r by (auto simp: spin_holding_def)
  have len: "int (length (remove1 l (held k))) = int (length (held k)) - 1"
    using True by (rule int_length_remove1)
  have "remove1 l (held k) \<noteq> [] \<longrightarrow> 1 < noff (cpus s h)"
    using view len by (cases "remove1 l (held k)") (auto simp: hart_view_def)
  then have "hart_view h s' (remove1 l (held k))"
    using view r len by (auto simp: hart_view_def hold')
  with s' True show ?thesis by (simp add: release_ok ret_def)
qed

theorem spin_release_refines_witness:
  "\<exists>s'. spin_release 0 Kmem_lock one_owner = ret () s' \<and> hart_view 0 s' []"
  using spin_release_refines [of 0 one_owner "\<lparr>held = [Kmem_lock], uart_out = []\<rparr>" Kmem_lock]
  by (simp add: one_owner_view release_def ret_def)

end
