(* ===== verification/Cstring.thy ===== *)
theory Cstring
  imports Kernel_Base
begin

text \<open>
  \<^verbatim>\<open>kernel/string.c\<close>. The routines that write through a pointer work on a byte memory
  \<open>u64 \<Rightarrow> byte\<close> and return the new memory; the string routines work on buffers, byte
  lists whose elements are the bytes from the pointer on. Reading past the end of a buffer
  gives a NUL. The lemmas state what each loop computes: \<open>memmove\<close> copies correctly when
  the two regions overlap, \<open>strncmp\<close> compares the NUL-terminated prefixes, \<open>strncpy\<close> pads,
  \<open>safestrcpy\<close> always terminates its result and never writes past its bound.
\<close>

section \<open>Definitions\<close>

type_synonym mem = "u64 \<Rightarrow> byte"

function memset_loop :: "mem \<Rightarrow> u64 \<Rightarrow> byte \<Rightarrow> nat \<Rightarrow> nat \<Rightarrow> mem" where
  "memset_loop m cdst c i n =
     (if i < n then memset_loop (m(cdst + of_nat i := c)) cdst c (i + 1) n else m)"
  by pat_completeness auto
termination
  by (relation "measure (\<lambda>(m, cdst, c, i, n). n - i)") auto

definition memset :: "mem \<Rightarrow> u64 \<Rightarrow> int \<Rightarrow> u32 \<Rightarrow> mem" where
  "memset m dst c n = memset_loop m dst (word_of_int c) 0 (unat n)"

fun memcmp_loop :: "mem \<Rightarrow> u64 \<Rightarrow> u64 \<Rightarrow> nat \<Rightarrow> int" where
  "memcmp_loop m s1 s2 0 = 0"
| "memcmp_loop m s1 s2 (Suc n) =
     (if m s1 \<noteq> m s2 then uint (m s1) - uint (m s2)
      else memcmp_loop m (s1 + 1) (s2 + 1) n)"

definition memcmp :: "mem \<Rightarrow> u64 \<Rightarrow> u64 \<Rightarrow> u32 \<Rightarrow> int" where
  "memcmp m v1 v2 n = memcmp_loop m v1 v2 (unat n)"

text \<open>The two loops of \<open>memmove\<close>: \<^verbatim>\<open>*d++ = *s++\<close> and \<^verbatim>\<open>*--d = *--s\<close>.\<close>

fun move_up :: "mem \<Rightarrow> u64 \<Rightarrow> u64 \<Rightarrow> nat \<Rightarrow> mem" where
  "move_up m d s 0 = m"
| "move_up m d s (Suc n) = move_up (m(d := m s)) (d + 1) (s + 1) n"

fun move_down :: "mem \<Rightarrow> u64 \<Rightarrow> u64 \<Rightarrow> nat \<Rightarrow> mem" where
  "move_down m d s 0 = m"
| "move_down m d s (Suc n) = move_down (m(d - 1 := m (s - 1))) (d - 1) (s - 1) n"

definition memmove :: "mem \<Rightarrow> u64 \<Rightarrow> u64 \<Rightarrow> u32 \<Rightarrow> mem" where
  "memmove m dst src n =
     (if n = 0 then m
      else if src < dst \<and> dst < src + ucast n
      then move_down m (dst + ucast n) (src + ucast n) (unat n)
      else move_up m dst src (unat n))"

definition memcpy :: "mem \<Rightarrow> u64 \<Rightarrow> u64 \<Rightarrow> u32 \<Rightarrow> mem" where
  "memcpy m dst src n = memmove m dst src n"

text \<open>\<^verbatim>\<open>*p\<close> of a buffer.\<close>

definition deref :: "byte list \<Rightarrow> byte" where
  "deref p = (case p of [] \<Rightarrow> 0 | c # _ \<Rightarrow> c)"

fun strncmp :: "byte list \<Rightarrow> byte list \<Rightarrow> nat \<Rightarrow> int" where
  "strncmp p q 0 = 0"
| "strncmp p q (Suc n) =
     (if deref p \<noteq> 0 \<and> deref p = deref q then strncmp (tl p) (tl q) n
      else uint (deref p) - uint (deref q))"

text \<open>The bytes \<open>strncpy\<close> writes: the copy loop, then the padding loop.\<close>

fun strncpy_bytes :: "byte list \<Rightarrow> nat \<Rightarrow> byte list" where
  "strncpy_bytes t 0 = []"
| "strncpy_bytes t (Suc n) =
     (if deref t \<noteq> 0 then deref t # strncpy_bytes (tl t) n else 0 # replicate n 0)"

definition strncpy :: "byte list \<Rightarrow> byte list \<Rightarrow> int \<Rightarrow> byte list" where
  "strncpy s t n = strncpy_bytes t (nat n) @ drop (nat n) s"

text \<open>
  The bytes \<open>safestrcpy\<close> writes when its loop test has \<open>n\<close> left after \<^verbatim>\<open>--n\<close>. A copied
  NUL ends the loop with the pointer after it, where the final store puts a second NUL.
\<close>

fun safestrcpy_bytes :: "byte list \<Rightarrow> nat \<Rightarrow> byte list" where
  "safestrcpy_bytes t 0 = [0]"
| "safestrcpy_bytes t (Suc n) =
     (if deref t \<noteq> 0 then deref t # safestrcpy_bytes (tl t) n else [0, 0])"

definition safestrcpy :: "byte list \<Rightarrow> byte list \<Rightarrow> int \<Rightarrow> byte list" where
  "safestrcpy s t n =
     (if n \<le> 0 then s
      else let w = safestrcpy_bytes t (nat (n - 1)) in w @ drop (length w) s)"

fun strlen :: "byte list \<Rightarrow> nat" where
  "strlen [] = 0"
| "strlen (c # s) = (if c = 0 then 0 else Suc (strlen s))"

text \<open>The string a buffer holds: the bytes before the first NUL.\<close>

definition cstr :: "byte list \<Rightarrow> byte list" where
  "cstr p = takeWhile (\<lambda>c. c \<noteq> 0) p"

section \<open>Memory routines\<close>

declare memset_loop.simps [simp del]

lemma unat_of_nat_u64: "x < 2 ^ 64 \<Longrightarrow> unat (of_nat x :: u64) = x"
  by (simp add: unat_of_nat)

lemma offset_eq_iff:
  fixes a d :: u64
  assumes "i < 2 ^ 64"
  shows "a = d + of_nat i \<longleftrightarrow> unat (a - d) = i"
proof -
  have "a = d + of_nat i \<longleftrightarrow> a - d = of_nat i"
    by (auto simp: algebra_simps)
  then show ?thesis
    using assms by (simp add: word_unat_eq_iff unat_of_nat)
qed

lemma memset_loop_eq:
  assumes "n \<le> 2 ^ 64"
  shows "memset_loop m d c i n =
           (\<lambda>a. if i \<le> unat (a - d) \<and> unat (a - d) < n then c else m a)"
  using assms
proof (induction m d c i n rule: memset_loop.induct)
  case (1 m d c i n)
  show ?case
  proof (cases "i < n")
    case True
    with "1.prems" have i: "i < 2 ^ 64" by linarith
    have "memset_loop m d c i n = memset_loop (m(d + of_nat i := c)) d c (i + 1) n"
      using True by (simp add: memset_loop.simps [of m d c i n])
    also note "1.IH" [OF True "1.prems"]
    finally show ?thesis
      using True by (auto simp: fun_eq_iff offset_eq_iff [OF i])
  next
    case False
    then show ?thesis by (auto simp: memset_loop.simps [of m d c i n] fun_eq_iff)
  qed
qed

lemma memset_eq:
  "memset m d c n = (\<lambda>a. if unat (a - d) < unat n then word_of_int c else m a)"
proof -
  have "unat n < 2 ^ LENGTH(32)" by (rule unsigned_less)
  then have "unat n \<le> 2 ^ 64" by simp
  then show ?thesis by (simp add: memset_def memset_loop_eq)
qed

text \<open>
  Each loop of \<open>memmove\<close> copies the original contents as long as no store hits a byte
  that is read later; the test on the two pointers picks the loop for which this holds.
\<close>

lemma unat_pred_less: "x \<noteq> 0 \<Longrightarrow> unat (x - 1) < n \<longleftrightarrow> unat (x::u64) < Suc n"
  by (auto simp: unat_minus_one unat_gt_0 [symmetric])

lemma move_up_eq:
  assumes "\<not> (0 < unat (d - s) \<and> unat (d - s) < n)"
  shows "move_up m d s n = (\<lambda>a. if unat (a - d) < n then m (s + (a - d)) else m a)"
  using assms
proof (induction m d s n rule: move_up.induct)
  case (1 m d s)
  then show ?case by simp
next
  case (2 m d s n)
  have "\<not> (0 < unat ((d + 1) - (s + 1)) \<and> unat ((d + 1) - (s + 1)) < n)"
    using "2.prems" by auto
  note IH = "2.IH" [OF this]
  show ?case
  proof
    fix a
    show "move_up m d s (Suc n) a =
            (if unat (a - d) < Suc n then m (s + (a - d)) else m a)"
    proof (cases "a = d")
      case True
      then show ?thesis by (simp only: move_up.simps IH) simp
    next
      case False
      then have lt: "unat (a - (d + 1)) < n \<longleftrightarrow> unat (a - d) < Suc n"
        using unat_pred_less [of "a - d" n] by (simp add: diff_diff_eq)
      have "s + (a - d) \<noteq> d" if "unat (a - d) < Suc n"
      proof
        assume "s + (a - d) = d"
        then have "a - d = d - s" by (simp add: algebra_simps)
        with that False "2.prems" show False by (auto simp: unat_gt_0)
      qed
      moreover have "s + 1 + (a - (d + 1)) = s + (a - d)" by simp
      ultimately show ?thesis
        using False by (simp only: move_up.simps IH lt) (simp add: fun_upd_def)
    qed
  qed
qed

lemma move_down_eq:
  assumes "\<not> (0 < unat (s - d) \<and> unat (s - d) < n)"
  shows "move_down m d s n = (\<lambda>a. if unat (d - 1 - a) < n then m (s - (d - a)) else m a)"
  using assms
proof (induction m d s n rule: move_down.induct)
  case (1 m d s)
  then show ?case by simp
next
  case (2 m d s n)
  have "\<not> (0 < unat ((s - 1) - (d - 1)) \<and> unat ((s - 1) - (d - 1)) < n)"
    using "2.prems" by auto
  note IH = "2.IH" [OF this]
  show ?case
  proof
    fix a
    show "move_down m d s (Suc n) a =
            (if unat (d - 1 - a) < Suc n then m (s - (d - a)) else m a)"
    proof (cases "a = d - 1")
      case True
      then show ?thesis by (simp only: move_down.simps IH) simp
    next
      case False
      then have "d - 1 - a \<noteq> 0" by auto
      then have lt: "unat (d - 1 - 1 - a) < n \<longleftrightarrow> unat (d - 1 - a) < Suc n"
        using unat_pred_less [of "d - 1 - a" n] by (simp add: algebra_simps)
      have "s - (d - a) \<noteq> d - 1" if "unat (d - 1 - a) < Suc n"
      proof
        assume "s - (d - a) = d - 1"
        then have "d - 1 - a = s - d" by (simp add: algebra_simps)
        with that \<open>d - 1 - a \<noteq> 0\<close> "2.prems" show False by (auto simp: unat_gt_0)
      qed
      moreover have "s - 1 - (d - 1 - a) = s - (d - a)" by simp
      ultimately show ?thesis
        using False by (simp only: move_down.simps IH lt) (simp add: fun_upd_def)
    qed
  qed
qed

lemma unat_ucast_u32: "unat (ucast (n::u32) :: u64) = unat n"
proof -
  have "unat n < 2 ^ LENGTH(32)" by (rule unsigned_less)
  then show ?thesis by (simp add: unsigned_ucast_eq take_bit_nat_eq_self)
qed

lemma reflect_less:
  fixes x k :: u64
  assumes "k \<noteq> 0"
  shows "unat (k - 1 - x) < unat k \<longleftrightarrow> unat x < unat k"
  using assms by unat_arith

lemma memmove_eq:
  assumes src: "unat src + unat n < 2 ^ 64" and dst: "unat dst + unat n \<le> 2 ^ 64"
  shows "memmove m dst src n =
           (\<lambda>a. if unat (a - dst) < unat n then m (src + (a - dst)) else m a)"
proof (cases "n = 0")
  case True
  then show ?thesis by (simp add: memmove_def)
next
  case False
  define k where "k = (ucast n :: u64)"
  have k: "unat k = unat n" "k \<noteq> 0"
    using False by (simp_all add: k_def unat_ucast_u32 word_unat_eq_iff [of "ucast n"]
        word_unat_eq_iff [of n])
  have sk: "unat (src + k) = unat src + unat n"
    using src k by (simp add: unat_word_ariths)
  show ?thesis
  proof (cases "src < dst \<and> dst < src + k")
    case True
    then have "unat (src - dst) = 2 ^ 64 + unat src - unat dst"
      by (simp add: unat_sub_if' word_le_nat_alt word_less_nat_alt)
    with dst have "\<not> unat ((src + k) - (dst + k)) < unat n" by simp
    then have "move_down m (dst + k) (src + k) (unat n) =
        (\<lambda>a. if unat (dst + k - 1 - a) < unat n then m (src + k - (dst + k - a)) else m a)"
      by (intro move_down_eq) simp
    moreover have *: "dst + k - 1 - a = k - 1 - (a - dst)"
        "src + k - (dst + k - a) = src + (a - dst)" for a
      by (simp_all add: algebra_simps)
    ultimately show ?thesis
      using True False k reflect_less [OF k(2)]
      by (simp add: memmove_def k_def [symmetric] fun_eq_iff *)
  next
    case other: False
    have "\<not> (0 < unat (dst - src) \<and> unat (dst - src) < unat n)"
    proof (cases "src < dst")
      case True
      with other have "src + k \<le> dst" by (simp add: not_less)
      with sk True show ?thesis
        by (simp add: unat_sub_if' word_le_nat_alt word_less_nat_alt)
    next
      case False
      with src show ?thesis
        by (auto simp: unat_sub_if' word_le_nat_alt word_less_nat_alt)
    qed
    from move_up_eq [OF this] show ?thesis
      using other False by (auto simp: memmove_def k_def [symmetric])
  qed
qed

section \<open>String routines\<close>

lemma deref_simps [simp]: "deref [] = 0" "deref (c # s) = c"
  by (simp_all add: deref_def)

lemma cstr_simps [simp]:
  "cstr [] = []" "cstr (c # s) = (if c = 0 then [] else c # cstr s)"
  by (simp_all add: cstr_def)

lemma cstr_end: "deref p = 0 \<Longrightarrow> cstr p = []"
  by (cases p) auto

lemma cstr_step: "deref p \<noteq> 0 \<Longrightarrow> cstr p = deref p # cstr (tl p)"
  by (cases p) auto

lemma cstr_replicate_zero [simp]: "cstr (replicate n 0) = []"
  by (cases n) simp_all

lemma strlen_eq: "strlen s = length (cstr s)"
  by (induction s) simp_all

lemma strncmp_zero_iff: "strncmp p q n = 0 \<longleftrightarrow> take n (cstr p) = take n (cstr q)"
proof (induction p q n rule: strncmp.induct)
  case (1 p q)
  then show ?case by simp
next
  case (2 p q n)
  show ?case
  proof (cases "deref p \<noteq> 0 \<and> deref p = deref q")
    case True
    then have "cstr p = deref q # cstr (tl p)" "cstr q = deref q # cstr (tl q)"
      using cstr_step [of p] cstr_step [of q] by auto
    with 2 True show ?thesis by auto
  next
    case False
    have "strncmp p q (Suc n) = 0 \<longleftrightarrow> deref p = deref q"
      using False unfolding strncmp.simps if_not_P [OF False] by (simp add: word_uint_eq_iff)
    then have "strncmp p q (Suc n) = 0 \<longleftrightarrow> deref p = 0 \<and> deref q = 0"
      using False by metis
    moreover have "take (Suc n) (cstr p) = take (Suc n) (cstr q) \<longleftrightarrow> deref p = 0 \<and> deref q = 0"
      using False by (cases "deref p = 0"; cases "deref q = 0")
        (auto simp: cstr_end cstr_step)
    ultimately show ?thesis by simp
  qed
qed

lemma length_strncpy_bytes [simp]: "length (strncpy_bytes t n) = n"
  by (induction t n rule: strncpy_bytes.induct) simp_all

lemma strncpy_bytes_eq:
  "strncpy_bytes t n = take n (cstr t) @ replicate (n - length (cstr t)) 0"
  by (induction t n rule: strncpy_bytes.induct) (auto simp: cstr_step cstr_end)

lemma length_safestrcpy_bytes: "length (safestrcpy_bytes t n) \<le> Suc n"
  by (induction t n rule: safestrcpy_bytes.induct) auto

lemma cstr_safestrcpy_bytes: "cstr (safestrcpy_bytes t n @ r) = take n (cstr t)"
  by (induction t n rule: safestrcpy_bytes.induct) (auto simp: cstr_step cstr_end)

lemma length_safestrcpy [simp]:
  assumes "0 < n" "nat n \<le> length s"
  shows "length (safestrcpy s t n) = length s"
  using assms length_safestrcpy_bytes [of t "nat (n - 1)"]
  by (simp add: safestrcpy_def Let_def)

lemma cstr_safestrcpy:
  "0 < n \<Longrightarrow> cstr (safestrcpy s t n) = take (nat (n - 1)) (cstr t)"
  by (simp add: safestrcpy_def Let_def cstr_safestrcpy_bytes)

text \<open>
  C17. \<open>memmove\<close> copies correctly even when the two areas overlap, in either direction: every
  byte of the destination is the byte the source had before the call, and no other byte
  changes. The areas need only not run past the end of the address space.
\<close>

theorem memmove_overlap:
  assumes "unat src + unat n < 2 ^ 64" "unat dst + unat n \<le> 2 ^ 64"
  shows "memmove m dst src n a = (if unat (a - dst) < unat n then m (src + (a - dst)) else m a)"
  using memmove_eq [OF assms] by simp

theorem memmove_overlap_witness:
  "memmove (\<lambda>a. ucast a) 0x1001 0x1000 3 0x1003 = 2"
  using memmove_overlap [where src = "0x1000" and n = 3 and dst = "0x1001" and a = "0x1003"]
  by simp

text \<open>
  C23. \<open>strncmp\<close> returns 0 exactly when the two C strings agree on their first \<open>n\<close> characters.
\<close>

theorem strncmp_exact: "strncmp p q n = 0 \<longleftrightarrow> take n (cstr p) = take n (cstr q)"
  by (rule strncmp_zero_iff)

end
