(* ===== verification/Printf.thy ===== *)
theory Printf
  imports Cstring
begin

text \<open>
  Console output: \<open>uartputc_sync\<close> of \<^verbatim>\<open>uart.c\<close>, \<open>consputc\<close> of \<^verbatim>\<open>console.c\<close> and
  \<open>printint\<close>, \<open>printptr\<close>, \<open>printf\<close> of \<^verbatim>\<open>kernel/printf.c\<close>. The digit loop of \<open>printint\<close>
  runs with the number of free slots of its 20-byte buffer and is \<open>None\<close> when a store would
  be past its end; the lemmas show that this cannot happen for the two bases \<open>printf\<close>
  uses and that the digits printed denote the number.
\<close>

section \<open>Definitions\<close>

text \<open>
  \<open>uartputc_sync\<close> waits for the transmit register to be empty and stores the byte; the
  device drains it, so the bytes stored are the output.
\<close>

definition uartputc_sync :: "u32 \<Rightarrow> 's mach_scheme \<Rightarrow> 's mach_scheme" where
  "uartputc_sync c s = s\<lparr>uart_out := uart_out s @ [ucast c]\<rparr>"

definition BACKSPACE :: u32 where "BACKSPACE = 0x100"

definition consputc :: "u32 \<Rightarrow> 's mach_scheme \<Rightarrow> 's mach_scheme" where
  "consputc c s =
     (if c = BACKSPACE
      then uartputc_sync 8 (uartputc_sync 32 (uartputc_sync 8 s))
      else uartputc_sync c s)"

definition consputs :: "byte list \<Rightarrow> 's mach_scheme \<Rightarrow> 's mach_scheme" where
  "consputs cs s = fold (\<lambda>c. consputc (ucast c)) cs s"

definition digits :: "byte list" where
  "digits = bytes ''0123456789abcdef''"

text \<open>The digit loop; the first argument is the room left in \<^verbatim>\<open>buf[20]\<close>.\<close>

fun printint_loop :: "nat \<Rightarrow> u64 \<Rightarrow> u64 \<Rightarrow> byte list option" where
  "printint_loop 0 base x = None"
| "printint_loop (Suc room) base x =
     (let c = digits ! unat (x mod base); x = x div base
      in if x \<noteq> 0 then map_option ((#) c) (printint_loop room base x) else Some [c])"

text \<open>\<open>printint\<close>: the contents of \<open>buf\<close>, least significant digit first, the sign last.\<close>

definition printint_buf :: "u64 \<Rightarrow> u64 \<Rightarrow> bool \<Rightarrow> byte list option" where
  "printint_buf xx base sign =
     (let neg = sign \<and> sint xx < 0;
          x = (if neg then - xx else xx)
      in case printint_loop 20 base x of
           None \<Rightarrow> None
         | Some buf \<Rightarrow> if neg then (if length buf < 20 then Some (buf @ [ch CHR ''-'']) else None)
                       else Some buf)"

definition printint :: "u64 \<Rightarrow> u64 \<Rightarrow> bool \<Rightarrow> byte list option" where
  "printint xx base sign = map_option rev (printint_buf xx base sign)"

fun printptr_loop :: "nat \<Rightarrow> u64 \<Rightarrow> byte list" where
  "printptr_loop 0 x = []"
| "printptr_loop (Suc n) x = digits ! unat (drop_bit 60 x) # printptr_loop n (push_bit 4 x)"

definition printptr :: "u64 \<Rightarrow> byte list" where
  "printptr x = ch CHR ''0'' # ch CHR ''x'' # printptr_loop 16 x"

text \<open>
  Variadic arguments: a 64-bit register, or a pointer to a NUL-terminated string (\<open>None\<close>
  is the null pointer). Reading an argument that is missing or has the wrong type is
  undefined.
\<close>

datatype va = VNum u64 | VStr "byte list option"

definition va_int :: "u64 \<Rightarrow> u64" where
  "va_int w = scast (ucast w :: u32)"

definition va_uint32 :: "u64 \<Rightarrow> u64" where
  "va_uint32 w = ucast (ucast w :: u32)"

fun va_num :: "va list \<Rightarrow> (u64 \<times> va list) option" where
  "va_num (VNum w # ap) = Some (w, ap)"
| "va_num _ = None"

fun va_str :: "va list \<Rightarrow> (byte list option \<times> va list) option" where
  "va_str (VStr p # ap) = Some (p, ap)"
| "va_str _ = None"

text \<open>
  One conversion: \<open>fmt\<close> points after the percent sign. The result is the output of the
  conversion, the rest of the format and the remaining arguments; \<open>None\<close> as the rest ends
  the loop (the \<^verbatim>\<open>break\<close> on a percent sign at the end).
\<close>

definition print_num :: "(u64 \<Rightarrow> u64) \<Rightarrow> u64 \<Rightarrow> bool \<Rightarrow> nat \<Rightarrow> byte list \<Rightarrow> va list \<Rightarrow>
    (byte list \<times> byte list option \<times> va list) option" where
  "print_num conv base sign k fmt ap =
     (case va_num ap of
        None \<Rightarrow> None
      | Some (w, ap) \<Rightarrow>
          map_option (\<lambda>out. (out, Some (drop k fmt), ap)) (printint (conv w) base sign))"

definition printf_conv :: "byte list \<Rightarrow> va list \<Rightarrow>
    (byte list \<times> byte list option \<times> va list) option" where
  "printf_conv fmt ap =
     (let c0 = deref fmt;
          c1 = (if c0 \<noteq> 0 then deref (tl fmt) else 0);
          c2 = (if c1 \<noteq> 0 then deref (tl (tl fmt)) else 0)
      in if c0 = ch CHR ''d'' then print_num va_int 10 True 1 fmt ap
         else if c0 = ch CHR ''l'' \<and> c1 = ch CHR ''d'' then print_num id 10 True 2 fmt ap
         else if c0 = ch CHR ''l'' \<and> c1 = ch CHR ''l'' \<and> c2 = ch CHR ''d''
         then print_num id 10 True 3 fmt ap
         else if c0 = ch CHR ''u'' then print_num va_uint32 10 False 1 fmt ap
         else if c0 = ch CHR ''l'' \<and> c1 = ch CHR ''u'' then print_num id 10 False 2 fmt ap
         else if c0 = ch CHR ''l'' \<and> c1 = ch CHR ''l'' \<and> c2 = ch CHR ''u''
         then print_num id 10 False 3 fmt ap
         else if c0 = ch CHR ''x'' then print_num va_uint32 16 False 1 fmt ap
         else if c0 = ch CHR ''l'' \<and> c1 = ch CHR ''x'' then print_num id 16 False 2 fmt ap
         else if c0 = ch CHR ''l'' \<and> c1 = ch CHR ''l'' \<and> c2 = ch CHR ''x''
         then print_num id 16 False 3 fmt ap
         else if c0 = ch CHR ''p'' then
           (case va_num ap of None \<Rightarrow> None
            | Some (w, ap) \<Rightarrow> Some (printptr w, Some (drop 1 fmt), ap))
         else if c0 = ch CHR ''c'' then
           (case va_num ap of None \<Rightarrow> None
            | Some (w, ap) \<Rightarrow>
                Some (if (ucast w :: u32) = BACKSPACE then [8, 32, 8] else [ucast w],
                      Some (drop 1 fmt), ap))
         else if c0 = ch CHR ''s'' then
           (case va_str ap of None \<Rightarrow> None
            | Some (p, ap) \<Rightarrow>
                Some (case p of None \<Rightarrow> bytes ''(null)'' | Some str \<Rightarrow> cstr str,
                      Some (drop 1 fmt), ap))
         else if c0 = ch CHR ''%'' then Some ([ch CHR ''%''], Some (drop 1 fmt), ap)
         else if c0 = 0 then Some ([], None, ap)
         else Some ([ch CHR ''%'', c0], Some (drop 1 fmt), ap))"

text \<open>The loop of \<open>printf\<close> over the format; the fuel is its length.\<close>

fun printf_loop :: "nat \<Rightarrow> byte list \<Rightarrow> va list \<Rightarrow> byte list option" where
  "printf_loop 0 fmt ap = Some []"
| "printf_loop (Suc n) fmt ap =
     (let cx = deref fmt
      in if cx = 0 then Some []
         else if cx \<noteq> ch CHR ''%'' then map_option ((#) cx) (printf_loop n (tl fmt) ap)
         else case printf_conv (tl fmt) ap of
                None \<Rightarrow> None
              | Some (out, None, ap) \<Rightarrow> Some out
              | Some (out, Some fmt, ap) \<Rightarrow> map_option ((@) out) (printf_loop n fmt ap))"

definition format :: "string \<Rightarrow> va list \<Rightarrow> byte list option" where
  "format fmt ap = printf_loop (Suc (length fmt)) (bytes fmt) ap"

definition printf :: "string \<Rightarrow> va list \<Rightarrow> 's mach_scheme \<Rightarrow> ('s mach_scheme, unit) kres" where
  "printf fmt ap s =
     bindK (acquire Pr_lock s) (\<lambda>_ s.
       case format fmt ap of
         None \<Rightarrow> Inl Undefined
       | Some out \<Rightarrow> release Pr_lock (s\<lparr>uart_out := uart_out s @ out\<rparr>))"

section \<open>Numbers are printed within the buffer and read back\<close>

text \<open>The value of a digit, and of a digit string with the least significant digit first.\<close>

definition digit_of :: "byte \<Rightarrow> nat" where
  "digit_of c = (if unat c < 97 then unat c - 48 else unat c - 87)"

fun digits_value :: "nat \<Rightarrow> byte list \<Rightarrow> nat" where
  "digits_value base [] = 0"
| "digits_value base (c # cs) = digit_of c + base * digits_value base cs"

lemma digit_of_digits: "k < 16 \<Longrightarrow> digit_of (digits ! k) = k"
proof -
  have "list_all (\<lambda>k. digit_of (digits ! k) = k) [0..<16]" by code_simp
  then show "k < 16 \<Longrightarrow> digit_of (digits ! k) = k" by (simp add: list_all_iff)
qed

lemma printint_loop_fits:
  assumes "2 \<le> unat base" "unat base \<le> 16" "0 < k" "k \<le> room" "unat x < unat base ^ k"
  shows "\<exists>buf. printint_loop room base x = Some buf \<and> length buf \<le> k \<and>
               digits_value (unat base) buf = unat x"
  using assms(3-5)
proof (induction room arbitrary: k x)
  case 0
  then show ?case by simp
next
  case (Suc room)
  have pos: "unat (x mod base) < 16"
    using assms(1,2) mod_less_divisor [of "unat base" "unat x"]
    by (simp add: unat_mod del: mod_less_divisor)
  note val = digit_of_digits [OF pos]
  have dm: "unat (x mod base) + unat base * unat (x div base) = unat x"
    by (simp add: unat_mod unat_div)
  show ?case
  proof (cases "x div base = 0")
    case True
    then have "unat (x mod base) = unat x" using dm by simp
    with True Suc.prems val show ?thesis by (simp add: Let_def)
  next
    case False
    then obtain k' where k: "k = Suc k'" "0 < k'"
    proof (cases k)
      case (Suc k'')
      have "unat (x div base) < unat base ^ k''"
        using Suc.prems(3) Suc assms(1) by (simp add: unat_div less_mult_imp_div_less mult.commute)
      moreover have "0 < unat (x div base)" using False unat_gt_0 by blast
      ultimately have "k'' \<noteq> 0" by (cases k'') auto
      with Suc that show ?thesis by simp
    qed (use Suc.prems in simp)
    have "unat (x div base) < unat base ^ k'"
      using Suc.prems(3) k by (simp add: unat_div less_mult_imp_div_less mult.commute)
    from Suc.IH [OF k(2) _ this] Suc.prems(2) k obtain buf
      where "printint_loop room base (x div base) = Some buf" "length buf \<le> k'"
        "digits_value (unat base) buf = unat (x div base)" by auto
    with False k val dm show ?thesis by (simp add: Let_def)
  qed
qed

lemma printint_buf_unsigned:
  assumes "2 \<le> unat base" "unat base \<le> 16" "unat x < unat base ^ 20"
  shows "\<exists>buf. printint_buf x base False = Some buf \<and> length buf \<le> 20 \<and>
               digits_value (unat base) buf = unat x"
  using printint_loop_fits [OF assms(1,2) _ _ assms(3), of 20] by (auto simp: printint_buf_def)

lemma unat_word_of_int: "0 \<le> k \<Longrightarrow> k < 2 ^ 64 \<Longrightarrow> int (unat (word_of_int k :: u64)) = k"
  by (simp add: uint_word_of_int)


section \<open>What a call prints\<close>

lemma printf_ok:
  "Pr_lock \<notin> set (held s) \<Longrightarrow> format fmt ap = Some out \<Longrightarrow>
   printf fmt ap s = ret () (s\<lparr>uart_out := uart_out s @ out\<rparr>)"
  by (simp add: printf_def kres_simps)

lemma consputs_eq [simp]: "consputs cs s = s\<lparr>uart_out := uart_out s @ cs\<rparr>"
proof (induction cs arbitrary: s)
  case Nil
  then show ?case by (simp add: consputs_def)
next
  case (Cons c cs)
  have "(ucast c :: u32) \<noteq> BACKSPACE"
  proof
    assume "(ucast c :: u32) = BACKSPACE"
    then have "unat (ucast c :: u32) = 256" by (simp add: BACKSPACE_def)
    moreover have "unat (ucast c :: u32) = unat c"
      by (simp add: unsigned_ucast_eq take_bit_nat_eq_self less_trans [OF unsigned_less])
    moreover have "unat c < 2 ^ LENGTH(8)" by (rule unsigned_less)
    ultimately show False by simp
  qed
  moreover have "ucast (ucast c :: u32) = c"
    by (rule bit_word_eqI) (auto simp: bit_simps)
  ultimately show ?case
    using Cons by (simp add: consputs_def consputc_def uartputc_sync_def)
qed

text \<open>
  Whether a call is defined depends only on the kinds of its arguments: every number fits
  the digit buffer.
\<close>

fun is_num :: "va \<Rightarrow> bool" where
  "is_num (VNum w) = True"
| "is_num (VStr p) = False"

lemma printint_total:
  "printint x 10 True \<noteq> None" "printint x 10 False \<noteq> None" "printint x 16 False \<noteq> None"
proof -
  have "unat x < 2 ^ LENGTH(64)" by (rule unsigned_less)
  then have x: "unat x < unat (10 :: u64) ^ 20" "unat x < unat (16 :: u64) ^ 20" by simp_all
  have ex: "\<exists>buf. printint_buf x 10 False = Some buf" "\<exists>buf. printint_buf x 16 False = Some buf"
    using printint_buf_unsigned [OF _ _ x(1)] printint_buf_unsigned [OF _ _ x(2)] by auto
  then show "printint x 10 False \<noteq> None" "printint x 16 False \<noteq> None"
    by (auto simp: printint_def)
  show "printint x 10 True \<noteq> None"
  proof (cases "sint x < 0")
    case False
    then show ?thesis using ex(1) by (auto simp: printint_def printint_buf_def Let_def)
  next
    case True
    have "int (unat (- x)) = - sint x"
      using unat_word_of_int [of "- sint x"] True sint_greater_eq [of x] by simp
    moreover have "- sint x \<le> 9223372036854775808" using sint_greater_eq [of x] by simp
    ultimately have "unat (- x) < 10000000000000000000" by linarith
    then have "unat (- x) < unat (10 :: u64) ^ 19" by simp
    from printint_loop_fits [OF _ _ _ _ this, of 20] obtain buf
      where "printint_loop 20 10 (- x) = Some buf" "length buf \<le> 19" by auto
    with True show ?thesis by (simp add: printint_def printint_buf_def)
  qed
qed

text \<open>Two results of a conversion that agree on everything but the output.\<close>

fun same_rest :: "(byte list \<times> byte list option \<times> va list) option \<Rightarrow>
    (byte list \<times> byte list option \<times> va list) option \<Rightarrow> bool" where
  "same_rest None None = True"
| "same_rest (Some (_, f, ap)) (Some (_, f', ap')) = (f = f' \<and> map is_num ap = map is_num ap')"
| "same_rest _ _ = False"

lemma same_rest_if:
  "same_rest a a' \<Longrightarrow> same_rest b b' \<Longrightarrow> same_rest (if c then a else b) (if c then a' else b')"
  by simp

lemma same_kind_cases:
  assumes "map is_num ap = map is_num ap'"
  obtains (empty) "ap = []" "ap' = []"
  | (num) w r w' r' where "ap = VNum w # r" "ap' = VNum w' # r'" "map is_num r = map is_num r'"
  | (str) p r p' r' where "ap = VStr p # r" "ap' = VStr p' # r'" "map is_num r = map is_num r'"
proof (cases ap)
  case Nil
  then show ?thesis using assms that(1) by simp
next
  case (Cons a r)
  then obtain a' r' where "ap' = a' # r'" "is_num a = is_num a'" "map is_num r = map is_num r'"
    using assms by (cases ap') auto
  with Cons that(2,3) show ?thesis by (cases a; cases a') auto
qed

lemma print_num_same:
  assumes "map is_num ap = map is_num ap'" "\<And>x. printint x base sign \<noteq> None"
  shows "same_rest (print_num conv base sign k fmt ap) (print_num conv base sign k fmt ap')"
  using assms(1)
proof (cases rule: same_kind_cases)
  case (num w r w' r')
  obtain o1 o2 where "printint (conv w) base sign = Some o1" "printint (conv w') base sign = Some o2"
    using assms(2) [of "conv w"] assms(2) [of "conv w'"] by auto
  with num show ?thesis by (simp add: print_num_def)
qed (simp_all add: print_num_def)

lemma printf_conv_same:
  assumes "map is_num ap = map is_num ap'"
  shows "same_rest (printf_conv fmt ap) (printf_conv fmt ap')"
proof -
  note num = print_num_same [OF assms printint_total(1)] print_num_same [OF assms printint_total(2)]
    print_num_same [OF assms printint_total(3)]
  have cps: "same_rest (case va_num ap of None \<Rightarrow> None | Some (w, ap) \<Rightarrow> Some (f w, rest, ap))
      (case va_num ap' of None \<Rightarrow> None | Some (w, ap) \<Rightarrow> Some (f w, rest, ap))"
    "same_rest (case va_str ap of None \<Rightarrow> None | Some (p, ap) \<Rightarrow> Some (g p, rest, ap))
      (case va_str ap' of None \<Rightarrow> None | Some (p, ap) \<Rightarrow> Some (g p, rest, ap))" for f g rest
    using assms by (cases rule: same_kind_cases; simp)+
  show ?thesis
    unfolding printf_conv_def Let_def by (intro same_rest_if num cps) (simp_all add: assms)
qed

lemma printf_loop_same:
  "map is_num ap = map is_num ap' \<Longrightarrow>
   (printf_loop n fmt ap = None) = (printf_loop n fmt ap' = None)"
proof (induction n arbitrary: fmt ap ap')
  case (Suc n)
  have tl: "(printf_loop n (tl fmt) ap = None) = (printf_loop n (tl fmt) ap' = None)"
    using Suc.IH Suc.prems by blast
  note conv = printf_conv_same [OF Suc.prems, of "tl fmt"]
  show ?case
  proof (cases "printf_conv (tl fmt) ap")
    case None
    then have "printf_conv (tl fmt) ap' = None"
      using conv by (cases "printf_conv (tl fmt) ap'") simp_all
    with None tl show ?thesis by (simp add: Let_def)
  next
    case (Some r)
    then obtain out f ap1 where r: "printf_conv (tl fmt) ap = Some (out, f, ap1)"
      by (cases r) auto
    then obtain out' ap2 where r': "printf_conv (tl fmt) ap' = Some (out', f, ap2)"
      "map is_num ap1 = map is_num ap2"
      using conv by (cases "printf_conv (tl fmt) ap'") auto
    have "(printf_loop n g ap1 = None) = (printf_loop n g ap2 = None)" for g
      using Suc.IH r'(2) by blast
    with r r' tl show ?thesis by (cases f) (simp_all add: Let_def)
  qed
qed simp

lemma printf_total:
  assumes "Pr_lock \<notin> set (held s)" "map is_num ap = map is_num ap'" "format fmt ap' \<noteq> None"
  shows "\<exists>out. printf fmt ap s = ret () (s\<lparr>uart_out := uart_out s @ out\<rparr>)"
proof -
  have "format fmt ap \<noteq> None"
    using assms(3) unfolding format_def by (simp only: printf_loop_same [OF assms(2)] not_False_eq_True)
  then obtain out where "format fmt ap = Some out" by blast
  then show ?thesis using printf_ok [OF assms(1)] by blast
qed

lemma forK_out:
  assumes "\<And>i t. i \<in> set is \<Longrightarrow> t = s\<lparr>uart_out := uart_out t\<rparr> \<Longrightarrow>
             \<exists>out. body i t = ret () (t\<lparr>uart_out := uart_out t @ out\<rparr>)"
  shows "\<exists>out. forK is body s = ret () (s\<lparr>uart_out := uart_out s @ out\<rparr>)"
  using assms
proof (induction "is" arbitrary: s)
  case Nil
  then show ?case by (auto intro!: exI [of _ "[]"])
next
  case (Cons i "is")
  obtain o1 where o1: "body i s = ret () (s\<lparr>uart_out := uart_out s @ o1\<rparr>)"
    using Cons.prems [of i s] by auto
  let ?s = "s\<lparr>uart_out := uart_out s @ o1\<rparr>"
  have "\<exists>out. forK is body ?s = ret () (?s\<lparr>uart_out := uart_out ?s @ out\<rparr>)"
  proof (rule Cons.IH)
    fix j t assume "j \<in> set is" "t = ?s\<lparr>uart_out := uart_out t\<rparr>"
    then show "\<exists>out. body j t = ret () (t\<lparr>uart_out := uart_out t @ out\<rparr>)"
      using Cons.prems [of j t] by simp
  qed
  then show ?case using o1 by auto
qed

end
