(* ===== verification/Kalloc.thy ===== *)
theory Kalloc
  imports Cstring
begin

text \<open>
  \<^verbatim>\<open>kernel/kalloc.c\<close>: the physical page allocator. The free list is threaded through the
  free pages themselves, so the model keeps the bytes of RAM and reads and writes the
  \<open>next\<close> pointers there, junk fill included. \<open>free_list\<close> relates a state to the list of its
  free pages; the interface \<open>page_allocator\<close> states what the rest of the kernel relies on
  (a page is handed out at most once until it is freed), its consequences are proved from
  the laws, and the interpretation shows that \<open>kalloc\<close> and \<open>kfree\<close> satisfy them.
\<close>

section \<open>Definitions\<close>

text \<open>
  \<open>kend\<close> is the linker's symbol \<open>end\<close>, the first address after the kernel image; nothing
  changes it.
\<close>

record kmem = mach +
  kend :: u64
  ram :: mem
  freelist :: u64

text \<open>A 64-bit load and store, little endian.\<close>

fun load_le :: "nat \<Rightarrow> mem \<Rightarrow> u64 \<Rightarrow> u64" where
  "load_le 0 m a = 0"
| "load_le (Suc n) m a = ucast (m a) OR push_bit 8 (load_le n m (a + 1))"

definition load64 :: "mem \<Rightarrow> u64 \<Rightarrow> u64" where
  "load64 m a = load_le 8 m a"

definition store64 :: "mem \<Rightarrow> u64 \<Rightarrow> u64 \<Rightarrow> mem" where
  "store64 m a v =
     (\<lambda>x. if unat (x - a) < 8 then ucast (drop_bit (8 * unat (x - a)) v) else m x)"

definition PGROUNDUP :: "u64 \<Rightarrow> u64" where
  "PGROUNDUP sz = (sz + PGSIZE - 1) AND NOT (PGSIZE - 1)"

definition kfree :: "u64 \<Rightarrow> 's kmem_scheme \<Rightarrow> ('s kmem_scheme, unit) kres" where
  "kfree pa s =
     (if pa mod PGSIZE \<noteq> 0 \<or> pa < kend s \<or> PHYSTOP \<le> pa then panic ''kfree''
      else let s = s\<lparr>ram := memset (ram s) pa 1 4096\<rparr>
           in bindK (acquire Kmem_lock s) (\<lambda>_ s.
                release Kmem_lock
                  (s\<lparr>ram := store64 (ram s) pa (freelist s), freelist := pa\<rparr>)))"

definition kalloc :: "'s kmem_scheme \<Rightarrow> ('s kmem_scheme, u64) kres" where
  "kalloc s =
     bindK (acquire Kmem_lock s) (\<lambda>_ s.
       let r = freelist s;
           s = (if r \<noteq> 0 then s\<lparr>freelist := load64 (ram s) r\<rparr> else s)
       in bindK (release Kmem_lock s) (\<lambda>_ s.
            ret r (if r \<noteq> 0 then s\<lparr>ram := memset (ram s) r 5 4096\<rparr> else s)))"

text \<open>The loop of \<open>freerange\<close> with fuel; \<open>None\<close> is running out of it.\<close>

fun freerange_loop ::
  "nat \<Rightarrow> u64 \<Rightarrow> u64 \<Rightarrow> 's kmem_scheme \<Rightarrow> ('s kmem_scheme, unit) kres option" where
  "freerange_loop 0 p pa_end s = None"
| "freerange_loop (Suc fuel) p pa_end s =
     (if p + PGSIZE \<le> pa_end
      then case kfree p s of
             Inl e \<Rightarrow> Some (Inl e)
           | Inr (_, s) \<Rightarrow> freerange_loop fuel (p + PGSIZE) pa_end s
      else Some (ret () s))"

definition freerange ::
  "u64 \<Rightarrow> u64 \<Rightarrow> 's kmem_scheme \<Rightarrow> ('s kmem_scheme, unit) kres option" where
  "freerange pa_start pa_end s =
     freerange_loop (Suc (unat pa_end div 4096)) (PGROUNDUP pa_start) pa_end s"

text \<open>\<open>initlock\<close> leaves the lock free, which \<open>held\<close> says already.\<close>

definition kinit :: "'s kmem_scheme \<Rightarrow> ('s kmem_scheme, unit) kres option" where
  "kinit s = freerange (kend s) PHYSTOP s"

section \<open>Words and pages in memory\<close>

lemma bit_load_le:
  "bit (load_le k m a) n \<longleftrightarrow>
     n < 64 \<and> n div 8 < k \<and> bit (m (a + of_nat (n div 8))) (n mod 8)"
proof (induction k arbitrary: a n)
  case 0
  then show ?case by simp
next
  case (Suc k)
  show ?case
  proof (cases "n < 8")
    case True
    then show ?thesis by (simp add: bit_simps)
  next
    case False
    then have "n div 8 = Suc ((n - 8) div 8)" "(n - 8) mod 8 = n mod 8"
      by (simp_all add: div_if [of 8 n] mod_if [of n 8])
    moreover have "\<not> bit (m a) n" using False bit_imp_le_length [of "m a" n] by auto
    ultimately show ?thesis
      using False by (auto simp: Suc.IH bit_simps algebra_simps)
  qed
qed

lemma load64_store64: "load64 (store64 m a v) a = v"
proof (rule bit_word_eqI)
  fix n
  assume n: "n < LENGTH(64)"
  then have "unat (of_nat (n div 8) :: u64) = n div 8"
    by (intro unat_of_nat_u64) simp
  then show "bit (load64 (store64 m a v) a) n = bit v n"
    using n by (auto simp: load64_def bit_load_le store64_def bit_simps)
qed

lemma load_le_cong:
  "(\<And>i. i < k \<Longrightarrow> m (a + of_nat i) = m' (a + of_nat i)) \<Longrightarrow> load_le k m a = load_le k m' a"
  by (rule bit_word_eqI) (auto simp: bit_load_le)

lemma load64_cong:
  "(\<And>i. i < 8 \<Longrightarrow> m (a + of_nat i) = m' (a + of_nat i)) \<Longrightarrow> load64 m a = load64 m' a"
  unfolding load64_def by (rule load_le_cong)

text \<open>\<open>x\<close> lies in the page that starts at \<open>p\<close>.\<close>

definition in_page :: "u64 \<Rightarrow> u64 \<Rightarrow> bool" where
  "in_page p x \<longleftrightarrow> unat (x - p) < 4096"

lemma aligned_in_page:
  assumes "p mod PGSIZE = 0"
  shows "in_page p x \<longleftrightarrow> unat x div 4096 = unat p div 4096"
proof -
  have "unat p mod 4096 = 0"
    using arg_cong [OF assms, of unat] by (simp add: unat_mod)
  then obtain q where q: "unat p = 4096 * q" by (metis mult_div_mod_eq add.right_neutral)
  have "unat p < 2 ^ LENGTH(64)" "unat x < 2 ^ LENGTH(64)" by (rule unsigned_less)+
  then show ?thesis
    using q by (auto simp: in_page_def unat_sub_if')
qed

lemma in_page_disjoint:
  assumes "p mod PGSIZE = 0" "q mod PGSIZE = 0" "p \<noteq> q" "in_page p x"
  shows "\<not> in_page q x"
proof
  assume "in_page q x"
  with assms have "unat p div 4096 = unat q div 4096"
    by (simp add: aligned_in_page)
  moreover have "unat p mod 4096 = 0" "unat q mod 4096 = 0"
    using arg_cong [OF assms(1), of unat] arg_cong [OF assms(2), of unat]
    by (simp_all add: unat_mod)
  ultimately have "unat p = unat q" by (metis mult_div_mod_eq)
  with assms(3) show False by (simp add: word_unat_eq_iff)
qed

lemma in_page_offset: "i < 8 \<Longrightarrow> in_page p (p + of_nat i)"
  by (simp add: in_page_def unat_of_nat)

section \<open>The free list\<close>

text \<open>The \<open>next\<close> pointers lead from \<open>a\<close> through the pages \<open>ps\<close> to the null pointer.\<close>

fun chain :: "mem \<Rightarrow> u64 \<Rightarrow> u64 list \<Rightarrow> bool" where
  "chain m a [] \<longleftrightarrow> a = 0"
| "chain m a (p # ps) \<longleftrightarrow> a = p \<and> p \<noteq> 0 \<and> chain m (load64 m p) ps"

definition ram_page :: "'s kmem_scheme \<Rightarrow> u64 \<Rightarrow> bool" where
  "ram_page s p \<longleftrightarrow> p mod PGSIZE = 0 \<and> kend s \<le> p \<and> p < PHYSTOP"

definition free_list :: "'s kmem_scheme \<Rightarrow> u64 list \<Rightarrow> bool" where
  "free_list s ps \<longleftrightarrow>
     Kmem_lock \<notin> set (held s) \<and> 0 < kend s \<and> chain (ram s) (freelist s) ps \<and>
     distinct ps \<and> (\<forall>p\<in>set ps. ram_page s p)"

lemma chain_cong:
  "(\<And>p x. p \<in> set ps \<Longrightarrow> in_page p x \<Longrightarrow> m x = m' x) \<Longrightarrow> chain m a ps = chain m' a ps"
proof (induction ps arbitrary: a)
  case Nil
  then show ?case by simp
next
  case (Cons p ps)
  have "load64 m p = load64 m' p"
    by (rule load64_cong) (auto intro: Cons.prems in_page_offset)
  moreover have "chain m (load64 m' p) ps = chain m' (load64 m' p) ps"
    by (rule Cons.IH) (auto intro: Cons.prems)
  ultimately show ?case by simp
qed

lemma memset_page: "memset m p c 4096 = (\<lambda>x. if in_page p x then word_of_int c else m x)"
  by (simp add: memset_eq in_page_def)

lemma chain_other_page:
  assumes "\<forall>q\<in>set ps. q mod PGSIZE = 0" "p mod PGSIZE = 0" "p \<notin> set ps"
    and "\<And>x. \<not> in_page p x \<Longrightarrow> m' x = m x"
  shows "chain m' a ps = chain m a ps"
proof (rule chain_cong)
  fix q x
  assume "q \<in> set ps" "in_page q x"
  with assms(1-3) have "\<not> in_page p x" by (metis in_page_disjoint)
  then show "m' x = m x" by (rule assms(4))
qed

lemma kalloc_eq:
  assumes "Kmem_lock \<notin> set (held s)"
  shows "kalloc s = ret (freelist s)
           (if freelist s \<noteq> 0
            then s\<lparr>freelist := load64 (ram s) (freelist s),
                    ram := memset (ram s) (freelist s) 5 4096\<rparr> else s)"
  using assms by (simp add: kalloc_def kres_simps Let_def)

lemma kfree_eq:
  assumes "Kmem_lock \<notin> set (held s)" "ram_page s pa"
  shows "kfree pa s = ret ()
           (s\<lparr>ram := store64 (memset (ram s) pa 1 4096) pa (freelist s), freelist := pa\<rparr>)"
  using assms by (simp add: kfree_def ram_page_def kres_simps Let_def not_less not_le)

lemma kalloc_empty: "free_list s [] \<Longrightarrow> kalloc s = ret 0 s"
  by (simp add: free_list_def kalloc_eq)

lemma kalloc_page:
  assumes "free_list s (p # ps)"
  shows "\<exists>s'. kalloc s = ret p s' \<and> free_list s' ps \<and> ram_page s' p \<and> p \<notin> set ps"
proof -
  from assms have lock: "Kmem_lock \<notin> set (held s)" and p: "freelist s = p" "p \<noteq> 0"
    and ps: "p \<notin> set ps" "distinct ps" "ram_page s p" "\<forall>q\<in>set ps. ram_page s q"
    and ch: "chain (ram s) (load64 (ram s) p) ps"
    by (auto simp: free_list_def)
  let ?s = "s\<lparr>freelist := load64 (ram s) p, ram := memset (ram s) p 5 4096\<rparr>"
  have "chain (memset (ram s) p 5 4096) (load64 (ram s) p) ps"
    using ch ps by (subst chain_other_page [where p = p and m = "ram s"])
      (auto simp: ram_page_def memset_page)
  then have "free_list ?s ps"
    using assms ps by (simp add: free_list_def ram_page_def)
  moreover have "kalloc s = ret p ?s"
    using lock p by (simp add: kalloc_eq)
  ultimately show ?thesis
    using ps by (auto simp: ram_page_def)
qed

lemma store64_outside: "\<not> in_page p x \<Longrightarrow> store64 m p v x = m x"
  by (simp add: store64_def in_page_def)

lemma kfree_page:
  assumes "free_list s ps" "ram_page s p" "p \<notin> set ps"
  shows "\<exists>s'. kfree p s = ret () s' \<and> free_list s' (p # ps)"
proof -
  from assms(1) have lock: "Kmem_lock \<notin> set (held s)" and ch: "chain (ram s) (freelist s) ps"
    and ps: "distinct ps" "\<forall>q\<in>set ps. ram_page s q" and pos: "0 < kend s"
    by (auto simp: free_list_def)
  let ?m = "store64 (memset (ram s) p 1 4096) p (freelist s)"
  let ?s = "s\<lparr>ram := ?m, freelist := p\<rparr>"
  have "p \<noteq> 0" using assms(2) pos by (auto simp: ram_page_def)
  moreover have "chain ?m (freelist s) ps"
    using ch ps assms(2,3) by (subst chain_other_page [where p = p and m = "ram s"])
      (auto simp: ram_page_def memset_page store64_outside)
  ultimately have "free_list ?s (p # ps)"
    using assms pos lock ps by (simp add: free_list_def ram_page_def load64_store64)
  moreover have "kfree p s = ret () ?s"
    using lock assms(2) by (rule kfree_eq)
  ultimately show ?thesis by blast
qed

section \<open>What an operation on memory leaves alone\<close>

definition mem_only :: "'s kmem_scheme \<Rightarrow> 's kmem_scheme \<Rightarrow> bool" where
  "mem_only s t \<longleftrightarrow> (\<exists>m f. t = s\<lparr>ram := m, freelist := f\<rparr>)"

lemma mem_only_refl [simp]: "mem_only s s"
  unfolding mem_only_def by (cases s) auto

lemma mem_only_trans: "mem_only s t \<Longrightarrow> mem_only t v \<Longrightarrow> mem_only s v"
  unfolding mem_only_def by (cases s) auto

lemma mem_only_rel: "reflp mem_only" "transp mem_only"
  by (auto intro: reflpI transpI mem_only_trans)

lemma mem_only_ram [simp]: "mem_only s (s\<lparr>ram := m\<rparr>)"
  unfolding mem_only_def by (cases s) auto

lemma mem_only_both [simp]: "mem_only s (s\<lparr>freelist := f, ram := m\<rparr>)" "mem_only s (s\<lparr>ram := m, freelist := f\<rparr>)"
  unfolding mem_only_def by (cases s; auto)+

lemma mem_only_upd: "mem_only s t \<Longrightarrow> mem_only s (t\<lparr>ram := m\<rparr>)"
  by (rule mem_only_trans [OF _ mem_only_ram])

lemma mem_only_same:
  assumes "mem_only s t"
  shows "held t = held s" "uart_out t = uart_out s" "kend t = kend s" "kmem.more t = kmem.more s"
  using assms by (auto simp: mem_only_def)

lemma kalloc_mem_only: "keeps mem_only s (kalloc s)"
proof (cases "Kmem_lock \<in> set (held s)")
  case True
  then show ?thesis by (simp add: kalloc_def acquire_held)
next
  case False
  then show ?thesis by (simp add: kalloc_eq)
qed

lemma kfree_mem_only: "keeps mem_only s (kfree pa s)"
proof (cases "Kmem_lock \<in> set (held s)")
  case True
  then show ?thesis by (simp add: kfree_def acquire_held Let_def)
next
  case False
  then show ?thesis by (simp add: kfree_def kres_simps Let_def)
qed

lemmas mem_bind = keeps_bind [OF mem_only_rel(2)]
lemmas mem_forK = keeps_forK [OF mem_only_rel]

section \<open>The allocator interface\<close>

text \<open>
  What the rest of the kernel relies on: \<open>pages s ps\<close> says that \<open>ps\<close> are the free pages,
  \<open>page\<close> which addresses may be freed. Allocation takes a free page and makes it not free;
  only the empty list makes it fail.
\<close>

locale page_allocator =
  fixes alloc :: "'s \<Rightarrow> ('s, u64) kres"
    and dealloc :: "u64 \<Rightarrow> 's \<Rightarrow> ('s, unit) kres"
    and pages :: "'s \<Rightarrow> u64 list \<Rightarrow> bool"
    and page :: "'s \<Rightarrow> u64 \<Rightarrow> bool"
  assumes alloc_none: "pages s [] \<Longrightarrow> alloc s = ret 0 s"
    and alloc_some: "pages s (p # ps) \<Longrightarrow>
      \<exists>s'. alloc s = ret p s' \<and> pages s' ps \<and> page s' p \<and> p \<notin> set ps"
    and dealloc_page: "pages s ps \<Longrightarrow> page s p \<Longrightarrow> p \<notin> set ps \<Longrightarrow>
      \<exists>s'. dealloc p s = ret () s' \<and> pages s' (p # ps)"
    and pages_nonzero: "pages s ps \<Longrightarrow> 0 \<notin> set ps"
    and pages_distinct: "pages s ps \<Longrightarrow> distinct ps"
begin

text \<open>Allocating \<open>n\<close> pages in a row, stopping at the first failure.\<close>

fun alloc_n :: "nat \<Rightarrow> 's \<Rightarrow> ('s, u64 list) kres" where
  "alloc_n 0 s = ret [] s"
| "alloc_n (Suc n) s =
     bindK (alloc s) (\<lambda>p s. if p = 0 then ret [] s
                            else bindK (alloc_n n s) (\<lambda>ps s. ret (p # ps) s))"

lemma alloc_n_takes:
  "pages s ps \<Longrightarrow> \<exists>s'. alloc_n n s = ret (take n ps) s' \<and> pages s' (drop n ps)"
proof (induction n arbitrary: s ps)
  case 0
  then show ?case by simp
next
  case (Suc n)
  show ?case
  proof (cases ps)
    case Nil
    with Suc.prems show ?thesis by (simp add: alloc_none)
  next
    case (Cons p qs)
    with Suc.prems alloc_some obtain s1 where s1: "alloc s = ret p s1" "pages s1 qs" by blast
    from Suc.IH [OF s1(2)] obtain s2
      where "alloc_n n s1 = ret (take n qs) s2" "pages s2 (drop n qs)" by blast
    moreover have "p \<noteq> 0" using pages_nonzero [OF Suc.prems] Cons by auto
    ultimately show ?thesis using s1 Cons by simp
  qed
qed

lemma alloc_n_distinct:
  assumes "pages s ps" "alloc_n n s = ret rs s'"
  shows "distinct rs \<and> set rs \<subseteq> set ps \<and> length rs = min n (length ps)"
  using alloc_n_takes [OF assms(1), of n] assms pages_distinct [OF assms(1)]
  by (auto dest: in_set_takeD)

lemma free_then_alloc:
  assumes "pages s ps" "page s p" "p \<notin> set ps"
  shows "\<exists>s1 s2. dealloc p s = ret () s1 \<and> alloc s1 = ret p s2 \<and> pages s2 ps"
  using dealloc_page [OF assms] alloc_some by blast

end

lemma free_list_nonzero: "free_list s ps \<Longrightarrow> 0 \<notin> set ps"
  by (auto simp: free_list_def ram_page_def)

interpretation kmem_pages: page_allocator kalloc kfree free_list ram_page
  by unfold_locales
    (auto simp: kalloc_empty kalloc_page kfree_page free_list_nonzero, simp add: free_list_def)

section \<open>Initialisation\<close>

lemma and_not_page_mask: "(x::u64) AND NOT 4095 = 4096 * (x div 4096)"
proof -
  have m: "(4095::u64) = mask 12" by (simp add: mask_eq_exp_minus_1)
  have "x AND NOT (mask 12) = push_bit 12 (drop_bit 12 x)"
    by (rule bit_word_eqI) (auto simp: bit_simps)
  then show ?thesis
    unfolding m by (simp add: push_bit_eq_mult drop_bit_eq_div mult.commute)
qed

lemma unat_PGROUNDUP:
  assumes "unat x + 4095 < 2 ^ 64"
  shows "unat (PGROUNDUP x) = 4096 * ((unat x + 4095) div 4096)"
proof -
  have "unat (x + 4095) = unat x + 4095"
    using assms by (simp add: unat_word_ariths)
  moreover have "4096 * (unat (x + 4095) div 4096) < 2 ^ LENGTH(64)"
    using unsigned_less [of "x + 4095", where ?'a = nat] by (meson le_less_trans times_div_less_eq_dividend)
  moreover have "PGROUNDUP x = 4096 * ((x + 4095) div 4096)"
    using and_not_page_mask [of "x + 4095"] by (simp add: PGROUNDUP_def add.commute)
  ultimately show ?thesis
    by (simp add: unat_word_ariths unat_div)
qed

declare freerange_loop.simps [simp del]

lemma aligned_mult:
  assumes "(p::u64) mod PGSIZE = 0"
  shows "\<exists>k. unat p = 4096 * k"
proof -
  have "unat p mod 4096 = 0" using arg_cong [OF assms, of unat] by (simp add: unat_mod)
  then show ?thesis by (metis add.right_neutral mult_div_mod_eq)
qed

lemma freerange_loop_pages:
  assumes "free_list s ps" "p mod PGSIZE = 0" "kend s \<le> p" "\<forall>q\<in>set ps. q < p"
    and "pa_end \<le> PHYSTOP" "unat p \<le> 0x88001000" "unat pa_end div 4096 < unat p div 4096 + fuel"
    and "0 < fuel"
  shows "\<exists>s' qs. freerange_loop fuel p pa_end s = Some (ret () s') \<and> free_list s' qs \<and>
           kend s' = kend s \<and> held s' = held s \<and>
           set qs = set ps \<union> {q. q mod PGSIZE = 0 \<and> p \<le> q \<and> unat q + 4096 \<le> unat pa_end}"
  using assms
proof (induction fuel arbitrary: p ps s)
  case 0
  then show ?case by simp
next
  case (Suc fuel)
  have np: "unat (p + 4096) = unat p + 4096"
    using Suc.prems(6) by (simp add: unat_word_ariths)
  have al: "unat p mod 4096 = 0"
    using arg_cong [OF Suc.prems(2), of unat] by (simp add: unat_mod)
  show ?case
  proof (cases "p + PGSIZE \<le> pa_end")
    case False
    then have "\<not> (p \<le> q \<and> unat q + 4096 \<le> unat pa_end)" for q
      using np by (auto simp: word_le_nat_alt)
    with False Suc.prems(1) show ?thesis by (auto simp: freerange_loop.simps)
  next
    case True
    then have le: "unat p + 4096 \<le> unat pa_end" using np by (simp add: word_le_nat_alt)
    have "unat pa_end \<le> 0x88000000" using Suc.prems(5) by (simp add: word_le_nat_alt)
    with le have "p < PHYSTOP" by (simp add: word_less_nat_alt)
    with Suc.prems have "ram_page s p" "p \<notin> set ps" by (auto simp: ram_page_def)
    with kfree_page [OF Suc.prems(1)] obtain s1
      where s1: "kfree p s = ret () s1" "free_list s1 (p # ps)" by blast
    have same: "kend s1 = kend s" "held s1 = held s"
      using s1(1) kfree_eq [of s p] \<open>ram_page s p\<close> Suc.prems(1)
      by (auto simp: free_list_def)
    have h: "(p + 4096) mod PGSIZE = 0" "kend s1 \<le> p + 4096" "\<forall>q\<in>set (p # ps). q < p + 4096"
      "unat (p + 4096) \<le> 0x88001000" "unat pa_end div 4096 < unat (p + 4096) div 4096 + fuel"
      using al np same Suc.prems(3,4,7) le \<open>unat pa_end \<le> 0x88000000\<close>
      by (auto simp: word_unat_eq_iff unat_mod word_le_nat_alt word_less_nat_alt)
    have "0 < fuel"
      using Suc.prems(7) div_le_mono [OF le, of 4096] by (cases fuel) auto
    from Suc.IH [OF s1(2) h(1-3) Suc.prems(5) h(4,5) this] obtain s' qs where IH:
      "freerange_loop fuel (p + 4096) pa_end s1 = Some (ret () s')" "free_list s' qs"
      "kend s' = kend s1" "held s' = held s1"
      "set qs = set (p # ps) \<union>
         {q. q mod PGSIZE = 0 \<and> p + 4096 \<le> q \<and> unat q + 4096 \<le> unat pa_end}"
      by blast
    have next_page: "p \<le> q \<longleftrightarrow> q = p \<or> p + 4096 \<le> q" if q: "q mod PGSIZE = 0" for q
    proof -
      obtain k j where "unat q = 4096 * k" "unat p = 4096 * j"
        using aligned_mult [OF q] aligned_mult [OF Suc.prems(2)] by blast
      then show ?thesis unfolding word_le_nat_alt word_unat_eq_iff np by auto
    qed
    have "set qs = set ps \<union> {q. q mod PGSIZE = 0 \<and> p \<le> q \<and> unat q + 4096 \<le> unat pa_end}"
      unfolding IH(5) list.set
      by (rule set_eqI) (use le Suc.prems(2) next_page in \<open>simp only: Un_iff insert_iff mem_Collect_eq, metis\<close>)
    with IH same s1(1) True show ?thesis by (auto simp: ret_def freerange_loop.simps)
  qed
qed

text \<open>
  C10. \<open>kinit\<close> terminates without a panic and frees every whole page between the end of the
  kernel image and the end of RAM, each of them once.
\<close>

theorem kinit_frees_all:
  assumes "Kmem_lock \<notin> set (held s)" "freelist s = 0" "0 < kend s" "kend s \<le> PHYSTOP"
  shows "\<exists>s' ps. kinit s = Some (ret () s') \<and> free_list s' ps \<and> kend s' = kend s \<and>
           set ps = {p. p mod PGSIZE = 0 \<and> kend s \<le> p \<and> unat p + 4096 \<le> unat PHYSTOP}"
proof -
  let ?p = "PGROUNDUP (kend s)"
  have k: "unat (kend s) \<le> 0x88000000" using assms(4) by (simp add: word_le_nat_alt)
  then have p: "unat ?p = 4096 * ((unat (kend s) + 4095) div 4096)"
    by (intro unat_PGROUNDUP) simp
  have "free_list s []" using assms by (simp add: free_list_def)
  moreover have "?p mod PGSIZE = 0" using p by (simp add: word_unat_eq_iff unat_mod)
  moreover have le: "kend s \<le> ?p" unfolding word_le_nat_alt p by simp
  moreover have "unat ?p \<le> 0x88001000" using p k by simp
  ultimately obtain s' ps where r: "kinit s = Some (ret () s')" "free_list s' ps"
    "kend s' = kend s"
    "set ps = {q. q mod PGSIZE = 0 \<and> ?p \<le> q \<and> unat q + 4096 \<le> unat PHYSTOP}"
    using freerange_loop_pages [of s "[]" ?p PHYSTOP "Suc (unat PHYSTOP div 4096)"]
    by (auto simp: kinit_def freerange_def)
  have "?p \<le> q \<longleftrightarrow> kend s \<le> q" if q: "q mod PGSIZE = 0" for q
  proof -
    obtain k where "unat q = 4096 * k" using aligned_mult [OF q] by blast
    then show ?thesis unfolding word_le_nat_alt p by auto
  qed
  then have "set ps = {q. q mod PGSIZE = 0 \<and> kend s \<le> q \<and> unat q + 4096 \<le> unat PHYSTOP}"
    unfolding r(4) by (intro Collect_cong conj_cong) simp_all
  with r(1-3) show ?thesis by blast
qed

definition boot_kmem :: kmem where
  "boot_kmem = \<lparr>held = [], uart_out = [], kend = 0x80022000, ram = (\<lambda>_. 0), freelist = 0\<rparr>"

theorem kinit_frees_all_witness:
  "\<exists>s' ps. kinit boot_kmem = Some (ret () s') \<and> free_list s' ps \<and>
     set ps = {p. p mod PGSIZE = 0 \<and> 0x80022000 \<le> p \<and> unat p + 4096 \<le> unat PHYSTOP}"
proof -
  have k: "kend boot_kmem = 0x80022000" "Kmem_lock \<notin> set (held boot_kmem)" "freelist boot_kmem = 0"
    by (simp_all add: boot_kmem_def)
  show ?thesis using kinit_frees_all [OF k(2,3)] unfolding k(1) by simp blast
qed

text \<open>
  C20. A page that is freed is handed out by the next allocation, and the pair leaves the
  free list as it was. Neither call panics.
\<close>

theorem kfree_kalloc_roundtrip:
  assumes "free_list s ps" "ram_page s p" "p \<notin> set ps"
  shows "\<exists>s1 s2. kfree p s = ret () s1 \<and> free_list s1 (p # ps) \<and>
           kalloc s1 = ret p s2 \<and> free_list s2 ps"
  using kmem_pages.dealloc_page [OF assms] kmem_pages.alloc_some by blast

theorem kfree_kalloc_roundtrip_witness:
  "\<exists>s1 s2. kfree 0x80023000 boot_kmem = ret () s1 \<and> free_list s1 [0x80023000] \<and>
     kalloc s1 = ret 0x80023000 s2 \<and> free_list s2 []"
proof -
  have "free_list boot_kmem []" by (simp add: boot_kmem_def free_list_def)
  moreover have "ram_page boot_kmem 0x80023000" by (simp add: boot_kmem_def ram_page_def)
  ultimately show ?thesis using kfree_kalloc_roundtrip [of boot_kmem "[]"] by simp
qed

end
