(* ===== verification/Proc_Table.thy ===== *)
theory Proc_Table
  imports Printf Kalloc
begin

text \<open>
  The process table of \<^verbatim>\<open>kernel/proc.h\<close> and the operations of \<^verbatim>\<open>kernel/proc.c\<close> that work on
  it alone: initialisation, pid allocation, \<open>sched\<close>, \<open>yield\<close>, \<open>sleep\<close>, \<open>wakeup\<close>, \<open>kkill\<close>,
  \<open>setkilled\<close>, \<open>killed\<close>, \<open>reparent\<close> and the two listings. A call that switches to the
  scheduler ends with \<open>Switch\<close>; what the code does after \<open>swtch\<close> comes back is the
  operation with suffix \<open>_return\<close>.
\<close>

section \<open>Definitions\<close>

datatype procstate = UNUSED | USED | SLEEPING | RUNNABLE | RUNNING | ZOMBIE

text \<open>Callee-saved registers of a kernel thread: \<open>ra\<close>, \<open>sp\<close> and \<open>s0\<close> to \<open>s11\<close>.\<close>

record kcontext =
  ctx_ra :: u64
  ctx_sp :: u64
  ctx_s :: "u64 list"

text \<open>
  \<^verbatim>\<open>struct proc\<close>. Pointers to table entries are indices, a null pointer is \<open>None\<close>;
  \<open>p_pagetable\<close> and \<open>p_trapframe\<close> are addresses in RAM, 0 when there is none. The lock of
  entry \<open>i\<close> is \<open>Proc_lock i\<close>.
\<close>

record proc =
  p_state :: procstate
  p_chan :: "chan option"
  p_killed :: int
  p_xstate :: int
  p_pid :: int
  p_parent :: "nat option"
  p_kstack :: u64
  p_sz :: u64
  p_pagetable :: u64
  p_trapframe :: u64
  p_context :: kcontext
  p_ofile :: "nat option list"
  p_cwd :: "nat option"
  p_name :: "byte list"
  p_waiting_tick :: int
  p_energy_budget :: u64
  p_energy_consumed :: u64
  p_last_scheduled_tick :: u64
  p_waiting_for_lock :: "sleeplock_id option"
  p_deadlock_reports :: u64
  p_in_deadlock :: int
  p_holding_res :: "int list"
  p_waiting_res :: int

text \<open>
  The globals of \<^verbatim>\<open>proc.c\<close> and \<^verbatim>\<open>trap.c\<close>. \<open>curproc\<close> is \<^verbatim>\<open>mycpu()->proc\<close> and \<open>hartid\<close> the
  \<open>tp\<close> register of the hart that runs; \<open>rtime\<close>, \<open>stimecmp\<close> and \<open>satp\<close> are its time,
  timer-compare and address-translation registers. \<open>etext\<close>, \<open>trampoline\<close> and the address of
  \<open>forkret\<close> are symbols of the kernel image, like \<open>kend\<close>.
\<close>

record ptable = kmem +
  procs :: "proc list"
  nextpid :: int
  initproc :: "nat option"
  curproc :: "nat option"
  hartid :: nat
  ticks :: u32
  timer_interval :: u64
  stimecmp :: u64
  rtime :: u64
  kernel_pagetable :: u64
  satp :: u64
  etext :: u64
  trampoline :: u64
  forkret_addr :: u64

abbreviation proc_at :: "'s ptable_scheme \<Rightarrow> nat \<Rightarrow> proc" where
  "proc_at s i \<equiv> procs s ! i"

definition upd_proc :: "nat \<Rightarrow> (proc \<Rightarrow> proc) \<Rightarrow> 's ptable_scheme \<Rightarrow> 's ptable_scheme" where
  "upd_proc i f s = s\<lparr>procs := (procs s)[i := f (procs s ! i)]\<rparr>"

text \<open>\<^verbatim>\<open>acquire(&p->lock); ...; release(&p->lock)\<close> around an update of the entry.\<close>

definition locked_upd ::
  "nat \<Rightarrow> (proc \<Rightarrow> proc) \<Rightarrow> 's ptable_scheme \<Rightarrow> ('s ptable_scheme, unit) kres" where
  "locked_upd i f s =
     bindK (acquire (Proc_lock i) s) (\<lambda>_ s. release (Proc_lock i) (upd_proc i f s))"

definition KSTACK :: "nat \<Rightarrow> u64" where
  "KSTACK p = TRAMPOLINE - (of_nat p + 1) * 2 * PGSIZE"

definition procinit :: "'s ptable_scheme \<Rightarrow> 's ptable_scheme" where
  "procinit s =
     fold (\<lambda>i. upd_proc i (\<lambda>p. p\<lparr>p_state := UNUSED, p_kstack := KSTACK i\<rparr>)) [0..<NPROC] s"

definition myproc :: "'s ptable_scheme \<Rightarrow> nat option" where
  "myproc s = curproc s"

definition allocpid :: "'s ptable_scheme \<Rightarrow> ('s ptable_scheme, int) kres" where
  "allocpid s =
     bindK (acquire Pid_lock s) (\<lambda>_ s.
       let pid = nextpid s; s = s\<lparr>nextpid := nextpid s + 1\<rparr>
       in bindK (release Pid_lock s) (\<lambda>_ s. ret pid s))"

text \<open>\<open>sched\<close> up to \<open>swtch\<close>. While a spinlock is held, interrupts are off.\<close>

definition sched :: "'s ptable_scheme \<Rightarrow> ('s ptable_scheme, 'a) kres" where
  "sched s =
     (case myproc s of
        None \<Rightarrow> Inl Null_deref
      | Some p \<Rightarrow>
          if Proc_lock p \<notin> set (held s) then panic ''sched p->lock''
          else if length (held s) \<noteq> 1 then panic ''sched locks''
          else if p_state (proc_at s p) = RUNNING then panic ''sched RUNNING''
          else Inl (Switch s))"

definition yield :: "'s ptable_scheme \<Rightarrow> ('s ptable_scheme, 'a) kres" where
  "yield s =
     (case myproc s of
        None \<Rightarrow> Inl Null_deref
      | Some p \<Rightarrow>
          bindK (acquire (Proc_lock p) s) (\<lambda>_ s.
            sched (upd_proc p (\<lambda>q. q\<lparr>p_state := RUNNABLE\<rparr>) s)))"

definition yield_return :: "nat \<Rightarrow> 's ptable_scheme \<Rightarrow> ('s ptable_scheme, unit) kres" where
  "yield_return p s = release (Proc_lock p) s"

text \<open>\<open>sleep\<close>; the condition lock is a pointer and may be null.\<close>

definition sleep :: "chan \<Rightarrow> lock option \<Rightarrow> 's ptable_scheme \<Rightarrow> ('s ptable_scheme, 'a) kres" where
  "sleep chn lk s =
     (case myproc s of
        None \<Rightarrow> Inl Null_deref
      | Some p \<Rightarrow>
          bindK (acquire (Proc_lock p) s) (\<lambda>_ s.
          bindK (release_ptr lk s) (\<lambda>_ s.
            sched (upd_proc p (\<lambda>q. q\<lparr>p_chan := Some chn, p_state := SLEEPING\<rparr>) s))))"

definition sleep_return :: "nat \<Rightarrow> lock \<Rightarrow> 's ptable_scheme \<Rightarrow> ('s ptable_scheme, unit) kres" where
  "sleep_return p lk s =
     (let s = upd_proc p (\<lambda>q. q\<lparr>p_chan := None\<rparr>) s
      in bindK (release (Proc_lock p) s) (\<lambda>_ s. acquire lk s))"

text \<open>The test and update of \<open>wakeup\<close> on one entry.\<close>

definition wake :: "chan option \<Rightarrow> proc \<Rightarrow> proc" where
  "wake chn q =
     (if p_state q = SLEEPING \<and> p_chan q = chn then q\<lparr>p_state := RUNNABLE\<rparr> else q)"

definition wakeup :: "chan option \<Rightarrow> 's ptable_scheme \<Rightarrow> ('s ptable_scheme, unit) kres" where
  "wakeup chn s =
     forK [0..<NPROC]
       (\<lambda>p s. if Some p \<noteq> myproc s then locked_upd p (wake chn) s else ret () s) s"

text \<open>What \<open>kkill\<close> does to the entry it finds.\<close>

definition mark_killed :: "proc \<Rightarrow> proc" where
  "mark_killed q =
     (let q = q\<lparr>p_killed := 1\<rparr>
      in if p_state q = SLEEPING then q\<lparr>p_state := RUNNABLE\<rparr> else q)"

fun kkill_loop :: "nat list \<Rightarrow> int \<Rightarrow> 's ptable_scheme \<Rightarrow> ('s ptable_scheme, int) kres" where
  "kkill_loop [] pid s = ret (- 1) s"
| "kkill_loop (p # ps) pid s =
     bindK (acquire (Proc_lock p) s) (\<lambda>_ s.
       if p_pid (proc_at s p) = pid
       then bindK (release (Proc_lock p) (upd_proc p mark_killed s)) (\<lambda>_ s. ret 0 s)
       else bindK (release (Proc_lock p) s) (\<lambda>_ s. kkill_loop ps pid s))"

definition kkill :: "int \<Rightarrow> 's ptable_scheme \<Rightarrow> ('s ptable_scheme, int) kres" where
  "kkill pid s = kkill_loop [0..<NPROC] pid s"

definition setkilled :: "nat \<Rightarrow> 's ptable_scheme \<Rightarrow> ('s ptable_scheme, unit) kres" where
  "setkilled p s = locked_upd p (\<lambda>q. q\<lparr>p_killed := 1\<rparr>) s"

definition killed :: "nat \<Rightarrow> 's ptable_scheme \<Rightarrow> ('s ptable_scheme, int) kres" where
  "killed p s =
     bindK (acquire (Proc_lock p) s) (\<lambda>_ s.
       let k = p_killed (proc_at s p)
       in bindK (release (Proc_lock p) s) (\<lambda>_ s. ret k s))"

definition reparent :: "nat \<Rightarrow> 's ptable_scheme \<Rightarrow> ('s ptable_scheme, unit) kres" where
  "reparent p s =
     forK [0..<NPROC]
       (\<lambda>pp s. if p_parent (proc_at s pp) = Some p
               then let s = upd_proc pp (\<lambda>q. q\<lparr>p_parent := initproc s\<rparr>) s
                    in wakeup (map_option Chan_proc (initproc s)) s
               else ret () s) s"

text \<open>The state names that \<open>procdump\<close> and \<open>kps\<close> print.\<close>

fun procdump_state :: "procstate \<Rightarrow> string" where
  "procdump_state UNUSED = ''unused''"
| "procdump_state USED = ''used''"
| "procdump_state SLEEPING = ''sleep ''"
| "procdump_state RUNNABLE = ''runble''"
| "procdump_state RUNNING = ''run   ''"
| "procdump_state ZOMBIE = ''zombie''"

fun kps_state :: "procstate \<Rightarrow> string" where
  "kps_state UNUSED = ''UNUSED''"
| "kps_state USED = ''USED''"
| "kps_state SLEEPING = ''SLEEPING''"
| "kps_state RUNNABLE = ''RUNNABLE''"
| "kps_state RUNNING = ''RUNNING''"
| "kps_state ZOMBIE = ''ZOMBIE''"

abbreviation (input) nl :: string where "nl \<equiv> [CHR 0x0A]"

abbreviation (input) lit :: "string \<Rightarrow> va" where "lit str \<equiv> VStr (Some (bytes str))"

abbreviation (input) vint :: "int \<Rightarrow> va" where "vint k \<equiv> VNum (word_of_int k)"

definition procdump :: "'s ptable_scheme \<Rightarrow> ('s ptable_scheme, unit) kres" where
  "procdump s =
     bindK (printf nl [] s) (\<lambda>_ s.
       forK [0..<NPROC]
         (\<lambda>i s. let p = proc_at s i
                in if p_state p = UNUSED then ret () s
                   else bindK (printf ''%d %s %s''
                          [vint (p_pid p), lit (procdump_state (p_state p)), VStr (Some (p_name p))] s)
                        (\<lambda>_ s. printf nl [] s)) s)"

definition kps :: "byte list \<Rightarrow> 's ptable_scheme \<Rightarrow> ('s ptable_scheme, int) kres" where
  "kps arguments s =
     (if strncmp arguments (bytes ''-o'') 4 = 0
      then bindK (forK [0..<NPROC]
             (\<lambda>i s. let p = proc_at s i
                    in if strncmp (p_name p) [] 4 = 0 then ret () s
                       else printf ''%s   '' [VStr (Some (p_name p))] s) s)
           (\<lambda>_ s. bindK (printf nl [] s) (\<lambda>_ s. ret 0 s))
      else if strncmp arguments (bytes ''-l'') 4 = 0
      then bindK (printf (''%s   %s       %s'' @ nl) [lit ''PID'', lit ''STATE'', lit ''NAME''] s) (\<lambda>_ s.
           bindK (printf (''-------------------------'' @ nl) [] s) (\<lambda>_ s.
           bindK (forK [0..<NPROC]
             (\<lambda>i s. let p = proc_at s i
                    in if p_state p = UNUSED then ret () s
                       else printf (''%d     %s    %s'' @ nl)
                              [vint (p_pid p), lit (kps_state (p_state p)), VStr (Some (p_name p))] s) s)
           (\<lambda>_ s. ret 0 s)))
      else bindK (printf (''Usage: ps [-o | -l]'' @ nl) [] s) (\<lambda>_ s. ret 0 s))"

text \<open>
  The zeroed \<^verbatim>\<open>.bss\<close> entry of the table and the state of the globals at boot, before
  \<open>procinit\<close>; \<open>boot_ptable\<close> is the start of the concrete runs below.
\<close>

definition no_proc :: proc where
  "no_proc = \<lparr>p_state = UNUSED, p_chan = None, p_killed = 0, p_xstate = 0, p_pid = 0,
     p_parent = None, p_kstack = 0, p_sz = 0, p_pagetable = 0, p_trapframe = 0,
     p_context = \<lparr>ctx_ra = 0, ctx_sp = 0, ctx_s = replicate 12 0\<rparr>,
     p_ofile = replicate NOFILE None, p_cwd = None, p_name = replicate 16 0,
     p_waiting_tick = 0, p_energy_budget = 0, p_energy_consumed = 0,
     p_last_scheduled_tick = 0, p_waiting_for_lock = None, p_deadlock_reports = 0,
     p_in_deadlock = 0, p_holding_res = replicate NRES 0, p_waiting_res = 0\<rparr>"

definition boot_ptable :: ptable where
  "boot_ptable = \<lparr>held = [], uart_out = [], kend = 0x80022000, ram = (\<lambda>_. 0), freelist = 0,
     procs = replicate NPROC no_proc, nextpid = 1, initproc = None, curproc = None, hartid = 0,
     ticks = 0, timer_interval = 1000000, stimecmp = 0, rtime = 0,
     kernel_pagetable = 0, satp = 0, etext = 0x80008000, trampoline = 0x80007000,
     forkret_addr = 0x80001A00\<rparr>"

section \<open>Updates of table entries\<close>

lemma upd_proc_simps [simp]:
  "held (upd_proc i f s) = held s" "uart_out (upd_proc i f s) = uart_out s"
  "kend (upd_proc i f s) = kend s" "ram (upd_proc i f s) = ram s"
  "freelist (upd_proc i f s) = freelist s" "nextpid (upd_proc i f s) = nextpid s"
  "initproc (upd_proc i f s) = initproc s" "curproc (upd_proc i f s) = curproc s"
  "hartid (upd_proc i f s) = hartid s" "ticks (upd_proc i f s) = ticks s"
  "timer_interval (upd_proc i f s) = timer_interval s"
  "stimecmp (upd_proc i f s) = stimecmp s" "rtime (upd_proc i f s) = rtime s"
  "kernel_pagetable (upd_proc i f s) = kernel_pagetable s" "satp (upd_proc i f s) = satp s"
  "etext (upd_proc i f s) = etext s" "trampoline (upd_proc i f s) = trampoline s"
  "forkret_addr (upd_proc i f s) = forkret_addr s"
  "ptable.more (upd_proc i f s) = ptable.more s"
  "procs (upd_proc i f s) = (procs s)[i := f (procs s ! i)]"
  by (simp_all add: upd_proc_def)

lemma upd_proc_held_update: "upd_proc i f (s\<lparr>held := hs\<rparr>) = (upd_proc i f s)\<lparr>held := hs\<rparr>"
  by (simp add: upd_proc_def)

lemma locked_upd_ok [kres_simps]:
  "Proc_lock i \<notin> set (held s) \<Longrightarrow> locked_upd i f s = ret () (upd_proc i f s)"
  by (simp add: locked_upd_def kres_simps upd_proc_held_update)

text \<open>A list of entries, each changed by its own function.\<close>

definition upd_all :: "(nat \<Rightarrow> proc \<Rightarrow> proc) \<Rightarrow> 's ptable_scheme \<Rightarrow> 's ptable_scheme" where
  "upd_all g s = s\<lparr>procs := map (\<lambda>i. g i (procs s ! i)) [0..<length (procs s)]\<rparr>"

lemma upd_all_simps [simp]:
  "held (upd_all g s) = held s" "uart_out (upd_all g s) = uart_out s"
  "kend (upd_all g s) = kend s" "ram (upd_all g s) = ram s"
  "freelist (upd_all g s) = freelist s" "nextpid (upd_all g s) = nextpid s"
  "initproc (upd_all g s) = initproc s" "curproc (upd_all g s) = curproc s"
  "hartid (upd_all g s) = hartid s" "ticks (upd_all g s) = ticks s"
  "timer_interval (upd_all g s) = timer_interval s"
  "stimecmp (upd_all g s) = stimecmp s" "rtime (upd_all g s) = rtime s"
  "kernel_pagetable (upd_all g s) = kernel_pagetable s" "satp (upd_all g s) = satp s"
  "etext (upd_all g s) = etext s" "trampoline (upd_all g s) = trampoline s"
  "forkret_addr (upd_all g s) = forkret_addr s"
  "ptable.more (upd_all g s) = ptable.more s"
  "length (procs (upd_all g s)) = length (procs s)"
  by (simp_all add: upd_all_def)

lemma upd_all_nth [simp]: "i < length (procs s) \<Longrightarrow> procs (upd_all g s) ! i = g i (procs s ! i)"
  by (simp add: upd_all_def)

lemma ptable_eqI:
  fixes s t :: "'s ptable_scheme"
  assumes "t = s\<lparr>procs := procs t\<rparr>" "length (procs t) = length (procs s)"
    and "\<And>i. i < length (procs s) \<Longrightarrow> procs t ! i = g i (procs s ! i)"
  shows "t = upd_all g s"
proof -
  have "procs t = map (\<lambda>i. g i (procs s ! i)) [0..<length (procs s)]"
    using assms(2,3) by (intro nth_equalityI) simp_all
  with assms(1) show ?thesis by (metis upd_all_def)
qed

text \<open>
  A loop whose iterations change only their own entry under its lock is one simultaneous
  update.
\<close>

lemma forK_locked_upd:
  assumes "\<And>i. i \<in> set is \<Longrightarrow> Proc_lock i \<notin> set (held s)" "distinct is"
    and "\<And>i t. i \<in> set is \<Longrightarrow> held t = held s \<Longrightarrow> curproc t = curproc s \<Longrightarrow>
           body i t = ret () (upd_proc i (g i) t)"
  shows "\<exists>t. forK is body s = ret () t \<and> t = s\<lparr>procs := procs t\<rparr> \<and>
           length (procs t) = length (procs s) \<and>
           (\<forall>i < length (procs s). procs t ! i =
              (if i \<in> set is then g i (procs s ! i) else procs s ! i))"
  using assms
proof (induction "is" arbitrary: s)
  case Nil
  then show ?case by simp
next
  case (Cons i "is")
  let ?s = "upd_proc i (g i) s"
  have "body i s = ret () ?s" using Cons.prems(3) by simp
  moreover have "\<exists>t. forK is body ?s = ret () t \<and> t = ?s\<lparr>procs := procs t\<rparr> \<and>
      length (procs t) = length (procs ?s) \<and>
      (\<forall>j < length (procs ?s). procs t ! j =
         (if j \<in> set is then g j (procs ?s ! j) else procs ?s ! j))"
    using Cons.prems by (intro Cons.IH) auto
  ultimately obtain t where t: "forK (i # is) body s = ret () t" "t = ?s\<lparr>procs := procs t\<rparr>"
    "length (procs t) = length (procs s)"
    "\<forall>j < length (procs s). procs t ! j =
       (if j \<in> set is then g j (procs ?s ! j) else procs ?s ! j)"
    by auto
  have "t = s\<lparr>procs := procs t\<rparr>" by (subst t(2)) (simp add: upd_proc_def)
  moreover have "procs t ! j =
      (if j \<in> set (i # is) then g j (procs s ! j) else procs s ! j)" if "j < length (procs s)" for j
    using t(4) that Cons.prems(2) by (cases "j = i") auto
  ultimately show ?case using t(1,3) by blast
qed

lemma forK_locked_upd_all:
  assumes "\<And>i. Proc_lock i \<notin> set (held s)" "length (procs s) = NPROC"
    and "\<And>i t. i < NPROC \<Longrightarrow> held t = held s \<Longrightarrow> curproc t = curproc s \<Longrightarrow>
           body i t = ret () (upd_proc i (g i) t)"
  shows "forK [0..<NPROC] body s = ret () (upd_all g s)"
proof -
  obtain t where t: "forK [0..<NPROC] body s = ret () t" "t = s\<lparr>procs := procs t\<rparr>"
    "length (procs t) = length (procs s)"
    "\<forall>i < length (procs s). procs t ! i = (if i \<in> set [0..<NPROC] then g i (procs s ! i) else procs s ! i)"
    using forK_locked_upd [of "[0..<NPROC]" s body g] assms by auto
  have "t = upd_all g s"
    using t(2-4) assms(2) by (intro ptable_eqI) auto
  with t(1) show ?thesis by simp
qed

section \<open>Sleeping and waking\<close>

lemma upd_proc_id: "upd_proc i (\<lambda>q. q) s = s"
  by (simp add: upd_proc_def)

lemma wakeup_eq:
  assumes "\<And>i. Proc_lock i \<notin> set (held s)" "length (procs s) = NPROC"
  shows "wakeup chn s =
           ret () (upd_all (\<lambda>i. if curproc s = Some i then (\<lambda>q. q) else wake chn) s)"
  unfolding wakeup_def
  by (rule forK_locked_upd_all) (use assms in \<open>auto simp: myproc_def kres_simps upd_proc_id\<close>)

lemma sleep_eq:
  assumes "curproc s = Some p" "held s = [lk]" "lk \<noteq> Proc_lock p" "p < length (procs s)"
  shows "sleep chn (Some lk) s =
           Inl (Switch ((upd_proc p (\<lambda>q. q\<lparr>p_chan := Some chn, p_state := SLEEPING\<rparr>) s)
                         \<lparr>held := [Proc_lock p]\<rparr>))"
  using assms
  by (simp add: sleep_def myproc_def kres_simps sched_def upd_proc_held_update)

lemma sleep_null: "curproc s = Some p \<Longrightarrow> Proc_lock p \<notin> set (held s) \<Longrightarrow> sleep chn None s = Inl Null_deref"
  by (simp add: sleep_def myproc_def kres_simps)

lemma sleep_two_locks:
  assumes "curproc s = Some p" "held s = lk # l # ls" "Proc_lock p \<notin> set (held s)"
  shows "sleep chn (Some lk) s = panic ''sched locks''"
  using assms by (auto simp: sleep_def myproc_def kres_simps sched_def upd_proc_held_update)

text \<open>Operations that change only the process table and the list of held locks.\<close>

definition tab_only :: "'s ptable_scheme \<Rightarrow> 's ptable_scheme \<Rightarrow> bool" where
  "tab_only s t \<longleftrightarrow> (\<exists>h ps. t = s\<lparr>held := h, procs := ps\<rparr>)"

lemma tab_only_refl [simp]: "tab_only s s"
  unfolding tab_only_def by (cases s) auto

lemma tab_only_trans: "tab_only s t \<Longrightarrow> tab_only t v \<Longrightarrow> tab_only s v"
  unfolding tab_only_def by (cases s) auto

lemma tab_only_rel: "reflp tab_only" "transp tab_only"
  by (auto intro: reflpI transpI tab_only_trans)

lemmas tab_bind = keeps_bind [OF tab_only_rel(2)]

lemma tab_only_upd [simp]:
  "tab_only s (s\<lparr>held := h\<rparr>)" "tab_only s (upd_proc i f s)" "tab_only s (s\<lparr>procs := ps\<rparr>)"
  unfolding tab_only_def upd_proc_def by (cases s; auto)+

lemma tab_after: "keeps tab_only t m \<Longrightarrow> tab_only s t \<Longrightarrow> keeps tab_only s m"
  by (auto simp: keeps_def intro: tab_only_trans)

lemma lock_tab: "keeps tab_only s (acquire l s)" "keeps tab_only s (release l s)"
  by (auto simp: acquire_def release_def)

lemma locked_upd_tab: "keeps tab_only s (locked_upd i f s)"
  unfolding locked_upd_def by (auto intro!: tab_bind lock_tab tab_after [OF lock_tab(2)])

lemma wakeup_tab: "keeps tab_only s (wakeup c s)"
  unfolding wakeup_def by (auto intro!: keeps_forK tab_only_rel locked_upd_tab)

lemma killed_tab: "keeps tab_only s (killed p s)"
  unfolding killed_def by (auto simp: Let_def intro!: tab_bind lock_tab)


definition two_procs :: ptable where
  "two_procs = boot_ptable\<lparr>held := [Ticks_lock], curproc := Some 0, procs := (replicate NPROC no_proc)
     [0 := no_proc\<lparr>p_state := RUNNING, p_pid := 1\<rparr>, 1 := no_proc\<lparr>p_state := RUNNABLE, p_pid := 2\<rparr>]\<rparr>"

lemma two_procs_simps:
  "curproc two_procs = Some 0" "held two_procs = [Ticks_lock]" "length (procs two_procs) = NPROC"
  by (simp_all add: two_procs_def boot_ptable_def)


section \<open>Killing\<close>

lemma kkill_loop_eq:
  assumes "\<And>i. Proc_lock i \<notin> set (held s)"
  shows "kkill_loop ps pid s =
           (case find (\<lambda>i. p_pid (proc_at s i) = pid) ps of
              None \<Rightarrow> ret (- 1) s
            | Some i \<Rightarrow> ret 0 (upd_proc i mark_killed s))"
  using assms
  by (induction ps) (auto simp: kres_simps upd_proc_held_update)


lemma killed_eq: "Proc_lock p \<notin> set (held s) \<Longrightarrow> killed p s = ret (p_killed (proc_at s p)) s"
  by (simp add: killed_def kres_simps Let_def)


end
