(* ===== verification/Wait_Graph.thy ===== *)
theory Wait_Graph
  imports Kernel_Base
begin

text \<open>
  Wait-for graphs in which every process waits for at most one other. The two deadlock
  detectors of the kernel, \<open>check_deadlock\<close> in \<^verbatim>\<open>proc.c\<close> and \<open>would_create_deadlock\<close> in
  \<^verbatim>\<open>sleeplock.c\<close>, both walk such a graph for a bounded number of hops; the locale below
  holds what they share: a bounded walk sees everything that is reachable.
\<close>

primrec hops :: "('a \<Rightarrow> 'a option) \<Rightarrow> nat \<Rightarrow> 'a \<Rightarrow> 'a option" where
  "hops f 0 p = Some p"
| "hops f (Suc n) p = Option.bind (hops f n p) f"

definition on_cycle :: "('a \<Rightarrow> 'a option) \<Rightarrow> 'a \<Rightarrow> bool" where
  "on_cycle f p \<longleftrightarrow> (\<exists>n > 0. hops f n p = Some p)"

text \<open>A list of processes that wait for one another in a circle.\<close>

definition cycle :: "('a \<Rightarrow> 'a option) \<Rightarrow> 'a list \<Rightarrow> bool" where
  "cycle f ds \<longleftrightarrow> ds \<noteq> [] \<and> distinct ds \<and>
     (\<forall>j < length ds. f (ds ! j) = Some (ds ! ((j + 1) mod length ds)))"

lemma hops_Suc_left: "hops f (Suc n) p = Option.bind (f p) (hops f n)"
  by (induction n) (auto split: Option.bind_splits)

lemma hops_add: "hops f (m + n) p = Option.bind (hops f m p) (hops f n)"
  by (induction n) (auto split: Option.bind_splits)

lemma hops_le: "hops f n p \<noteq> None \<Longrightarrow> m \<le> n \<Longrightarrow> hops f m p \<noteq> None"
  using hops_add [of f m "n - m" p] by (auto split: Option.bind_splits)

lemma hops_mult: "hops f n p = Some p \<Longrightarrow> hops f (k * n) p = Some p"
  by (induction k) (auto simp: hops_add)

lemma on_cycle_forever:
  assumes "on_cycle f p"
  shows "hops f n p \<noteq> None"
proof -
  obtain m where m: "m > 0" "hops f m p = Some p" using assms by (auto simp: on_cycle_def)
  have "n \<le> n * m" using m(1) by simp
  with hops_mult [OF m(2), of n] show ?thesis by (metis hops_le option.distinct(1))
qed

lemma cycle_hops:
  assumes "cycle f ds" "j < length ds"
  shows "hops f n (ds ! j) = Some (ds ! ((j + n) mod length ds))"
proof (induction n)
  case 0
  then show ?case using assms(2) by simp
next
  case (Suc n)
  have "(j + n) mod length ds < length ds" using assms(2) by (intro mod_less_divisor) auto
  then have "f (ds ! ((j + n) mod length ds)) = Some (ds ! (((j + n) mod length ds + 1) mod length ds))"
    using assms(1) by (simp add: cycle_def)
  then show ?case using Suc by (simp add: mod_Suc_eq)
qed

lemma cycle_on_cycle:
  assumes "cycle f ds" "p \<in> set ds"
  shows "on_cycle f p"
proof -
  obtain j where j: "j < length ds" "p = ds ! j" using assms(2) by (auto simp: in_set_conv_nth)
  then have "hops f (length ds) p = Some p" using cycle_hops [OF assms(1) j(1)] by simp
  then show ?thesis using j(1) by (auto simp: on_cycle_def intro!: exI [of _ "length ds"])
qed

locale wait_graph =
  fixes waits :: "'a \<Rightarrow> 'a option" and nodes :: "'a set"
  assumes finite_nodes: "finite nodes"
    and waits_nodes: "waits p = Some q \<Longrightarrow> q \<in> nodes"
begin

lemma hops_nodes: "p \<in> nodes \<Longrightarrow> hops waits n p = Some q \<Longrightarrow> q \<in> nodes"
  by (cases n) (auto dest: waits_nodes split: Option.bind_splits)

text \<open>A walk of as many steps as there are processes meets a process twice.\<close>

lemma walk_repeats:
  assumes "p \<in> nodes" "hops waits (card nodes) p \<noteq> None"
  shows "\<exists>i j. i < j \<and> j \<le> card nodes \<and> hops waits i p = hops waits j p"
proof (rule ccontr)
  assume no: "\<not> ?thesis"
  have "inj_on (\<lambda>i. the (hops waits i p)) {..card nodes}"
  proof (rule linorder_inj_onI)
    fix i j assume ij: "i < j" "i \<in> {..card nodes}" "j \<in> {..card nodes}"
    then have "hops waits i p \<noteq> None" "hops waits j p \<noteq> None"
      using hops_le [OF assms(2)] by auto
    moreover have "hops waits i p \<noteq> hops waits j p" using no ij by auto
    ultimately show "the (hops waits i p) \<noteq> the (hops waits j p)" by auto
  qed auto
  moreover have "the (hops waits i p) \<in> nodes" if "i \<le> card nodes" for i
    using hops_le [OF assms(2) that] hops_nodes [OF assms(1), of i] by auto
  ultimately have "card {..card nodes} \<le> card nodes"
    using finite_nodes by (intro card_inj_on_le [of "\<lambda>i. the (hops waits i p)"]) auto
  then show False by simp
qed

lemma short_walk:
  assumes "p \<in> nodes" "hops waits n p = Some q"
  shows "\<exists>m < card nodes. hops waits m p = Some q"
  using assms(2)
proof (induction n rule: less_induct)
  case (less n)
  show ?case
  proof (cases "n < card nodes")
    case True
    then show ?thesis using less.prems by blast
  next
    case False
    have "hops waits (card nodes) p \<noteq> None"
      by (rule hops_le [of waits n]) (use less.prems False in simp_all)
    then obtain i j where ij: "i < j" "j \<le> card nodes" "hops waits i p = hops waits j p"
      using walk_repeats [OF assms(1)] by blast
    have "hops waits (i + (n - j)) p = hops waits (j + (n - j)) p"
      by (simp only: hops_add ij(3))
    then have "hops waits (i + (n - j)) p = Some q" using ij False less.prems by simp
    moreover have "i + (n - j) < n" using ij False by linarith
    ultimately show ?thesis using less.IH by blast
  qed
qed

lemma on_cycle_iff:
  assumes "p \<in> nodes"
  shows "on_cycle waits p \<longleftrightarrow> (\<exists>n > 0. n \<le> card nodes \<and> hops waits n p = Some p)"
proof
  assume "on_cycle waits p"
  then obtain n where n: "hops waits (Suc n) p = Some p"
    by (metis on_cycle_def gr0_conv_Suc)
  then obtain q where q: "waits p = Some q" "hops waits n q = Some p"
    by (auto simp only: hops_Suc_left split: Option.bind_splits)
  obtain m where m: "m < card nodes" "hops waits m q = Some p"
    using short_walk [OF waits_nodes [OF q(1)] q(2)] by blast
  then have "hops waits (Suc m) p = Some p" by (simp only: hops_Suc_left q(1) bind.bind_lunit)
  then show "\<exists>n > 0. n \<le> card nodes \<and> hops waits n p = Some p"
    using m(1) by (intro exI [of _ "Suc m"]) simp
qed (auto simp: on_cycle_def)

end

end
