(* ===== verification/Deadlock.thy ===== *)
theory Deadlock
  imports Proc_Table Wait_Graph
begin

text \<open>
  Deadlock detection on the resource table of \<^verbatim>\<open>kernel/proc.c\<close>: \<open>res_acquire\<close>, \<open>res_release\<close>,
  \<open>res_wait\<close>, \<open>find_holder\<close>, \<open>check_deadlock\<close> and \<open>deadlock_recover\<close>. The chase along the
  wait-for chain ends because it stores a new process in every round; the array that holds
  them bounds it by \<open>NPROC\<close>.
\<close>

section \<open>Definitions\<close>

definition res_update ::
  "int \<Rightarrow> (proc \<Rightarrow> proc) \<Rightarrow> 's ptable_scheme \<Rightarrow> ('s ptable_scheme, unit) kres" where
  "res_update res_id f s =
     (if res_id < 0 \<or> res_id \<ge> int NRES then ret () s
      else case myproc s of None \<Rightarrow> Inl Null_deref | Some p \<Rightarrow> locked_upd p f s)"

definition res_acquire :: "int \<Rightarrow> 's ptable_scheme \<Rightarrow> ('s ptable_scheme, unit) kres" where
  "res_acquire res_id =
     res_update res_id (\<lambda>q. q\<lparr>p_holding_res := (p_holding_res q)[nat res_id := 1],
                              p_waiting_res := - 1\<rparr>)"

definition res_release :: "int \<Rightarrow> 's ptable_scheme \<Rightarrow> ('s ptable_scheme, unit) kres" where
  "res_release res_id =
     res_update res_id (\<lambda>q. q\<lparr>p_holding_res := (p_holding_res q)[nat res_id := 0]\<rparr>)"

definition res_wait :: "int \<Rightarrow> 's ptable_scheme \<Rightarrow> ('s ptable_scheme, unit) kres" where
  "res_wait res_id = res_update res_id (\<lambda>q. q\<lparr>p_waiting_res := res_id\<rparr>)"

definition find_holder :: "proc list \<Rightarrow> int \<Rightarrow> nat option" where
  "find_holder ps res_id =
     find (\<lambda>p. p_state (ps ! p) \<noteq> UNUSED \<and> p_holding_res (ps ! p) ! nat res_id \<noteq> 0) [0..<NPROC]"

text \<open>The inner loop; the result is the processes of the cycle, \<open>None\<close> if it ends without one.\<close>

function chase :: "proc list \<Rightarrow> nat option \<Rightarrow> nat list \<Rightarrow> nat list option" where
  "chase ps cur visited =
     (case cur of
        None \<Rightarrow> None
      | Some c \<Rightarrow>
          if p_waiting_res (ps ! c) < 0 then None
          else if c \<in> set visited then Some (dropWhile (\<lambda>v. v \<noteq> c) visited)
          else if length visited \<ge> NPROC then None
          else chase ps (find_holder ps (p_waiting_res (ps ! c))) (visited @ [c]))"
  by pat_completeness auto
termination by (relation "measure (\<lambda>(ps, cur, visited). NPROC - length visited)") auto

declare chase.simps [simp del]

fun find_cycle :: "proc list \<Rightarrow> nat list \<Rightarrow> nat list option" where
  "find_cycle ps [] = None"
| "find_cycle ps (p # rest) =
     (if p_state (ps ! p) = UNUSED \<or> p_waiting_res (ps ! p) < 0 then find_cycle ps rest
      else case chase ps (Some p) [] of
             None \<Rightarrow> find_cycle ps rest
           | Some ds \<Rightarrow> Some ds)"

fun pick_victim :: "proc list \<Rightarrow> nat list \<Rightarrow> nat \<Rightarrow> u64 \<Rightarrow> nat" where
  "pick_victim ps [] victim max_energy = victim"
| "pick_victim ps (d # ds) victim max_energy =
     (if p_energy_consumed (ps ! d) > max_energy
      then pick_victim ps ds d (p_energy_consumed (ps ! d))
      else pick_victim ps ds victim max_energy)"

text \<open>What recovery does to the victim's entry.\<close>

definition strip_victim :: "proc \<Rightarrow> proc" where
  "strip_victim q =
     (let q = q\<lparr>p_holding_res := replicate NRES 0, p_waiting_res := - 1, p_killed := 1\<rparr>
      in if p_state q = SLEEPING then q\<lparr>p_state := RUNNABLE\<rparr> else q)"

definition report_cycle :: "nat list \<Rightarrow> 's ptable_scheme \<Rightarrow> ('s ptable_scheme, unit) kres" where
  "report_cycle ds s =
     bindK (printf (''DEADLOCK DETECTED! %d processes in cycle:'' @ nl) [vint (int (length ds))] s)
       (\<lambda>_ s. forK ds (\<lambda>d s.
          printf (''  pid=%d name=%s energy_consumed=%ld waiting_res=%d'' @ nl)
            [vint (p_pid (proc_at s d)), VStr (Some (p_name (proc_at s d))),
             VNum (p_energy_consumed (proc_at s d)), vint (p_waiting_res (proc_at s d))] s) s)"

definition check_deadlock :: "'s ptable_scheme \<Rightarrow> ('s ptable_scheme, int) kres" where
  "check_deadlock s =
     (case find_cycle (procs s) [0..<NPROC] of
        None \<Rightarrow> ret 0 s
      | Some [] \<Rightarrow> ret 0 s
      | Some (d # ds) \<Rightarrow>
          let victim = pick_victim (procs s) ds d (p_energy_consumed (proc_at s d)) in
          bindK (report_cycle (d # ds) s) (\<lambda>_ s.
          bindK (printf (''ENERGY-AWARE RECOVERY: Killing pid=%d (name=%s, energy=%ld) '' @
                         [CHR 0xE2, CHR 0x80, CHR 0x94] @ '' highest energy consumer'' @ nl)
                  [vint (p_pid (proc_at s victim)), VStr (Some (p_name (proc_at s victim))),
                   VNum (p_energy_consumed (proc_at s victim))] s) (\<lambda>_ s.
          bindK (locked_upd victim strip_victim s) (\<lambda>_ s.
            ret (p_pid (proc_at s victim)) s))))"

definition deadlock_recover :: "'s ptable_scheme \<Rightarrow> ('s ptable_scheme, unit) kres" where
  "deadlock_recover s = bindK (check_deadlock s) (\<lambda>_ s. ret () s)"

section \<open>The wait-for graph\<close>

text \<open>A process waits for the holder of the resource it is waiting for.\<close>

definition res_waits :: "proc list \<Rightarrow> nat \<Rightarrow> nat option" where
  "res_waits ps p =
     (if p_waiting_res (ps ! p) < 0 then None else find_holder ps (p_waiting_res (ps ! p)))"

lemma find_holder_SomeD:
  assumes "find_holder ps r = Some h"
  shows "h < NPROC" "p_state (ps ! h) \<noteq> UNUSED" "p_holding_res (ps ! h) ! nat r \<noteq> 0"
  using assms by (auto simp: find_holder_def find_upt_least)

interpretation res_graph: wait_graph "res_waits ps" "{..<NPROC}" for ps
  by unfold_locales (auto simp: res_waits_def dest: find_holder_SomeD split: if_splits)

text \<open>The list \<open>visited\<close> and the process \<open>cur\<close> of the loop are a walk from the start.\<close>

definition wait_walk :: "proc list \<Rightarrow> nat list \<Rightarrow> nat option \<Rightarrow> bool" where
  "wait_walk ps visited cur \<longleftrightarrow> distinct visited \<and> set visited \<subseteq> {..<NPROC} \<and>
     (\<forall>j < length visited. res_waits ps (visited ! j) =
        (if Suc j < length visited then Some (visited ! Suc j) else cur))"

lemma walk_snoc:
  assumes "wait_walk ps visited (Some c)" "c \<notin> set visited" "c < NPROC" "res_waits ps c = next"
  shows "wait_walk ps (visited @ [c]) next"
  using assms by (auto simp: wait_walk_def nth_append less_Suc_eq)

lemma walk_cycle:
  assumes "wait_walk ps visited (Some c)" "c \<in> set visited"
  shows "cycle (res_waits ps) (dropWhile (\<lambda>v. v \<noteq> c) visited)"
    and "set (dropWhile (\<lambda>v. v \<noteq> c) visited) \<subseteq> {..<NPROC}"
proof -
  obtain pre post where v: "visited = pre @ c # post" "c \<notin> set pre"
    using split_list_first [OF assms(2)] by blast
  then have "dropWhile (\<lambda>v. v \<noteq> c) pre = []" by (auto simp: dropWhile_eq_Nil_conv)
  then have dw: "dropWhile (\<lambda>v. v \<noteq> c) visited = c # post"
    using v by (simp add: dropWhile_append)
  have step: "res_waits ps ((c # post) ! j) = Some ((c # post) ! ((j + 1) mod length (c # post)))"
    if j: "j < length (c # post)" for j
  proof -
    have "res_waits ps (visited ! (length pre + j)) =
        (if Suc (length pre + j) < length visited then Some (visited ! Suc (length pre + j)) else Some c)"
      using assms(1) j v(1) unfolding wait_walk_def by (metis add_less_cancel_left length_append)
    moreover have "j = length post" if "\<not> j < length post" using j that by simp
    ultimately show ?thesis
      using v(1) j by (cases "j < length post") (auto simp: nth_append Suc_diff_le)
  qed
  show "cycle (res_waits ps) (dropWhile (\<lambda>v. v \<noteq> c) visited)"
    using step assms(1) v(1) unfolding dw cycle_def wait_walk_def by auto
  show "set (dropWhile (\<lambda>v. v \<noteq> c) visited) \<subseteq> {..<NPROC}"
    using assms(1) v(1) unfolding dw wait_walk_def by auto
qed

lemma chase_sound:
  "chase ps cur visited = Some ds \<Longrightarrow> wait_walk ps visited cur \<Longrightarrow> (\<And>c. cur = Some c \<Longrightarrow> c < NPROC) \<Longrightarrow>
   cycle (res_waits ps) ds \<and> set ds \<subseteq> {..<NPROC}"
proof (induction ps cur visited rule: chase.induct)
  case (1 ps cur visited)
  obtain c where cur: "cur = Some c" and wr: "\<not> p_waiting_res (ps ! c) < 0"
    using "1.prems"(1) by (subst (asm) chase.simps) (auto split: option.splits if_splits)
  then have c: "c < NPROC" "wait_walk ps visited (Some c)" using "1.prems" by auto
  show ?case
  proof (cases "c \<in> set visited")
    case True
    then show ?thesis
      using "1.prems"(1) wr cur walk_cycle [OF c(2) True]
      by (subst (asm) chase.simps) simp
  next
    case False
    let ?h = "find_holder ps (p_waiting_res (ps ! c))"
    have "chase ps cur visited =
        (if length visited \<ge> NPROC then None else chase ps ?h (visited @ [c]))"
      using wr cur False by (subst chase.simps) simp
    then have len: "\<not> length visited \<ge> NPROC" and rec: "chase ps ?h (visited @ [c]) = Some ds"
      using "1.prems"(1) by (auto split: if_splits)
    have "wait_walk ps (visited @ [c]) ?h"
      using walk_snoc [OF c(2) False c(1)] wr by (simp add: res_waits_def)
    then show ?thesis
      using "1.IH" [OF cur wr False len rec] find_holder_SomeD(1) by blast
  qed
qed

lemma chase_complete:
  "wait_walk ps visited (Some c) \<Longrightarrow> c < NPROC \<Longrightarrow> (\<And>n. hops (res_waits ps) n c \<noteq> None) \<Longrightarrow>
   chase ps (Some c) visited \<noteq> None"
proof (induction "NPROC - length visited" arbitrary: c visited rule: less_induct)
  case less
  have "res_waits ps c \<noteq> None" using less.prems(3) [of 1] by simp
  then obtain h where h: "res_waits ps c = Some h" by blast
  then have wr: "\<not> p_waiting_res (ps ! c) < 0" and fh: "find_holder ps (p_waiting_res (ps ! c)) = Some h"
    by (auto simp: res_waits_def split: if_splits)
  show ?case
  proof (cases "c \<in> set visited")
    case True
    then show ?thesis using wr by (subst chase.simps) simp
  next
    case False
    have "card (insert c (set visited)) \<le> card {..<NPROC}"
      using less.prems(1,2) by (intro card_mono) (auto simp: wait_walk_def)
    then have len: "length visited < NPROC"
      using False less.prems(1) by (simp add: wait_walk_def distinct_card)
    have "hops (res_waits ps) n h \<noteq> None" for n
      using less.prems(3) [of "Suc n"] h by (simp only: hops_Suc_left bind.bind_lunit) simp
    then have "chase ps (Some h) (visited @ [c]) \<noteq> None"
      using walk_snoc [OF less.prems(1) False less.prems(2) h] find_holder_SomeD(1) [OF fh] len
      by (intro less.hyps) auto
    then show ?thesis using wr fh False len by (subst chase.simps) simp
  qed
qed

lemma walk_Nil: "wait_walk ps [] cur"
  by (simp add: wait_walk_def)

lemma find_cycle_sound:
  "find_cycle ps is = Some ds \<Longrightarrow> set is \<subseteq> {..<NPROC} \<Longrightarrow>
   cycle (res_waits ps) ds \<and> set ds \<subseteq> {..<NPROC}"
  by (induction "is") (auto split: if_splits option.splits dest!: chase_sound [OF _ walk_Nil])

lemma find_cycle_complete:
  "p \<in> set is \<Longrightarrow> set is \<subseteq> {..<NPROC} \<Longrightarrow> p_state (ps ! p) \<noteq> UNUSED \<Longrightarrow>
   (\<And>n. hops (res_waits ps) n p \<noteq> None) \<Longrightarrow> find_cycle ps is \<noteq> None"
proof (induction "is")
  case (Cons i "is")
  have wr: "\<not> p_waiting_res (ps ! p) < 0"
    using Cons.prems(4) [of 1] by (auto simp: res_waits_def split: if_splits)
  show ?case
  proof (cases "i = p")
    case True
    have "chase ps (Some p) [] \<noteq> None"
      using chase_complete [OF walk_Nil] Cons.prems True by simp
    with True wr Cons.prems(3) show ?thesis by auto
  next
    case False
    then have "find_cycle ps is \<noteq> None" using Cons by simp
    then show ?thesis by (auto split: option.splits)
  qed
qed simp

text \<open>A process on a cycle holds a resource, so its entry is in use.\<close>

lemma on_cycle_used:
  assumes "on_cycle (res_waits ps) p"
  shows "p_state (ps ! p) \<noteq> UNUSED" "p < NPROC" "\<not> p_waiting_res (ps ! p) < 0"
proof -
  obtain n where "hops (res_waits ps) (Suc n) p = Some p"
    using assms by (metis on_cycle_def gr0_conv_Suc)
  then obtain q where "res_waits ps q = Some p" by (auto split: Option.bind_splits)
  then have "find_holder ps (p_waiting_res (ps ! q)) = Some p"
    by (auto simp: res_waits_def split: if_splits)
  then show "p_state (ps ! p) \<noteq> UNUSED" "p < NPROC" by (auto dest: find_holder_SomeD)
  show "\<not> p_waiting_res (ps ! p) < 0"
    using on_cycle_forever [OF assms, of 1] by (auto simp: res_waits_def)
qed

section \<open>Detection and recovery\<close>

lemma pick_victim_max:
  "max_energy = p_energy_consumed (ps ! victim) \<Longrightarrow>
   pick_victim ps ds victim max_energy \<in> insert victim (set ds) \<and>
   (\<forall>d \<in> insert victim (set ds). p_energy_consumed (ps ! d) \<le>
      p_energy_consumed (ps ! pick_victim ps ds victim max_energy))"
proof (induction ds arbitrary: victim max_energy)
  case (Cons d ds)
  show ?case
  proof (cases "p_energy_consumed (ps ! d) > max_energy")
    case True
    then show ?thesis using Cons.IH [OF refl, of d] Cons.prems by (auto intro: order.trans less_imp_le)
  next
    case False
    then show ?thesis using Cons.IH [OF Cons.prems] Cons.prems by (auto intro: order.trans)
  qed
qed simp

lemma report_cycle_ok:
  assumes "Pr_lock \<notin> set (held s)"
  shows "\<exists>out. report_cycle ds s = ret () (s\<lparr>uart_out := uart_out s @ out\<rparr>)"
proof -
  have f1: "format (''DEADLOCK DETECTED! %d processes in cycle:'' @ nl) [VNum 0] \<noteq> None"
    by code_simp
  have f2: "format (''  pid=%d name=%s energy_consumed=%ld waiting_res=%d'' @ nl)
      [VNum 0, VStr None, VNum 0, VNum 0] \<noteq> None" by code_simp
  obtain o1 where o1: "printf (''DEADLOCK DETECTED! %d processes in cycle:'' @ nl)
      [vint (int (length ds))] s = ret () (s\<lparr>uart_out := uart_out s @ o1\<rparr>)"
    using printf_total [OF assms _ f1, of "[vint (int (length ds))]"] by auto
  have "held t = held s" if "t = s\<lparr>uart_out := x\<rparr>" for t x using that by simp
  let ?s = "s\<lparr>uart_out := uart_out s @ o1\<rparr>"
  have "\<exists>out. forK ds (\<lambda>d s.
          printf (''  pid=%d name=%s energy_consumed=%ld waiting_res=%d'' @ nl)
            [vint (p_pid (proc_at s d)), VStr (Some (p_name (proc_at s d))),
             VNum (p_energy_consumed (proc_at s d)), vint (p_waiting_res (proc_at s d))] s) ?s
        = ret () (?s\<lparr>uart_out := uart_out ?s @ out\<rparr>)"
  proof (rule forK_out)
    fix d and t :: "'a ptable_scheme" assume "t = ?s\<lparr>uart_out := uart_out t\<rparr>"
    then have "held t = held (?s\<lparr>uart_out := uart_out t\<rparr>)" by (rule arg_cong)
    then have "Pr_lock \<notin> set (held t)" using assms by simp
    then show "\<exists>out. printf (''  pid=%d name=%s energy_consumed=%ld waiting_res=%d'' @ nl)
            [vint (p_pid (proc_at t d)), VStr (Some (p_name (proc_at t d))),
             VNum (p_energy_consumed (proc_at t d)), vint (p_waiting_res (proc_at t d))] t
        = ret () (t\<lparr>uart_out := uart_out t @ out\<rparr>)"
      by (rule printf_total [OF _ _ f2]) simp
  qed
  then show ?thesis using o1 unfolding report_cycle_def by auto
qed

lemma check_deadlock_found:
  assumes "Pr_lock \<notin> set (held s)" "\<And>i. Proc_lock i \<notin> set (held s)"
    and "find_cycle (procs s) [0..<NPROC] = Some (d # ds)"
    and "v = pick_victim (procs s) ds d (p_energy_consumed (proc_at s d))"
    and "v < length (procs s)"
  shows "\<exists>out. check_deadlock s =
           ret (p_pid (proc_at s v)) (upd_proc v strip_victim (s\<lparr>uart_out := uart_out s @ out\<rparr>))"
proof -
  have f: "format (''ENERGY-AWARE RECOVERY: Killing pid=%d (name=%s, energy=%ld) '' @
      [CHR 0xE2, CHR 0x80, CHR 0x94] @ '' highest energy consumer'' @ nl)
      [VNum 0, VStr None, VNum 0] \<noteq> None" by code_simp
  obtain o1 where o1: "report_cycle (d # ds) s = ret () (s\<lparr>uart_out := uart_out s @ o1\<rparr>)"
    using report_cycle_ok [OF assms(1)] by blast
  let ?s = "s\<lparr>uart_out := uart_out s @ o1\<rparr>"
  have "Pr_lock \<notin> set (held ?s)" using assms(1) by simp
  from printf_total [OF this _ f, of "[vint (p_pid (proc_at s v)), VStr (Some (p_name (proc_at s v))),
      VNum (p_energy_consumed (proc_at s v))]"]
  obtain o2 where o2: "printf (''ENERGY-AWARE RECOVERY: Killing pid=%d (name=%s, energy=%ld) '' @
      [CHR 0xE2, CHR 0x80, CHR 0x94] @ '' highest energy consumer'' @ nl)
      [vint (p_pid (proc_at s v)), VStr (Some (p_name (proc_at s v))),
       VNum (p_energy_consumed (proc_at s v))] ?s = ret () (?s\<lparr>uart_out := uart_out ?s @ o2\<rparr>)"
    by auto
  let ?t = "s\<lparr>uart_out := uart_out s @ o1 @ o2\<rparr>"
  have "locked_upd v strip_victim ?t = ret () (upd_proc v strip_victim ?t)"
    using assms(2) by (intro locked_upd_ok) simp
  then have "check_deadlock s = ret (p_pid (proc_at s v)) (upd_proc v strip_victim ?t)"
    unfolding check_deadlock_def assms(3) option.case list.case Let_def assms(4) [symmetric] o1
      bindK_ret using o2 assms(5) by (simp add: strip_victim_def Let_def)
  then show ?thesis by blast
qed

lemma find_cycle_None:
  assumes "find_cycle ps [0..<NPROC] = None"
  shows "\<not> on_cycle (res_waits ps) p"
  using find_cycle_complete [of p "[0..<NPROC]" ps] on_cycle_used [of ps p] on_cycle_forever assms
  by fastforce

text \<open>The two outcomes of a check, as one rule.\<close>

lemma check_deadlock_cases:
  assumes "Pr_lock \<notin> set (held s)" "\<And>i. Proc_lock i \<notin> set (held s)" "length (procs s) = NPROC"
  obtains (none) "check_deadlock s = ret 0 s" "\<And>p. \<not> on_cycle (res_waits (procs s)) p"
  | (found) ds v out where "cycle (res_waits (procs s)) ds" "v \<in> set ds" "v < NPROC"
      "\<And>d. d \<in> set ds \<Longrightarrow> p_energy_consumed (proc_at s d) \<le> p_energy_consumed (proc_at s v)"
      "check_deadlock s =
         ret (p_pid (proc_at s v)) (upd_proc v strip_victim (s\<lparr>uart_out := uart_out s @ out\<rparr>))"
proof (cases "find_cycle (procs s) [0..<NPROC]")
  case None
  then show ?thesis
    using that(1) find_cycle_None by (simp add: check_deadlock_def)
next
  case (Some ds)
  then have ds: "cycle (res_waits (procs s)) ds" "set ds \<subseteq> {..<NPROC}"
    using find_cycle_sound [OF Some] by (auto simp: atLeast0LessThan)
  then obtain d ds' where dd: "ds = d # ds'" by (cases ds) (auto simp: cycle_def)
  let ?v = "pick_victim (procs s) ds' d (p_energy_consumed (proc_at s d))"
  note max = pick_victim_max [OF refl, of "procs s" ds' d]
  then have v: "?v \<in> set ds" using dd by simp
  then have "?v < NPROC" using ds(2) by auto
  moreover from this obtain out where "check_deadlock s =
      ret (p_pid (proc_at s ?v)) (upd_proc ?v strip_victim (s\<lparr>uart_out := uart_out s @ out\<rparr>))"
    using check_deadlock_found [OF assms(1,2) Some [unfolded dd] refl] assms(3) by auto
  ultimately show ?thesis using that(2) [OF ds(1) v] max dd by simp
qed

text \<open>
  C3. \<open>check_deadlock\<close> is exact. It always returns; it returns 0 and changes nothing if no
  process waits for itself through others, and otherwise it finds a set of processes that
  wait for one another in a circle and kills one of them, one that has consumed at least as
  much energy as every other process of the circle. Only that entry of the table changes:
  its resources are freed, it waits for none, and it is runnable if it slept.
\<close>

theorem check_deadlock_exact:
  assumes "Pr_lock \<notin> set (held s)" "\<forall>i. Proc_lock i \<notin> set (held s)" "length (procs s) = NPROC"
  shows "\<exists>r t. check_deadlock s = ret r t \<and> held t = held s \<and>
    (if \<exists>p. on_cycle (res_waits (procs s)) p
     then \<exists>ds v. cycle (res_waits (procs s)) ds \<and> v \<in> set ds \<and> r = p_pid (proc_at s v) \<and>
            (\<forall>d \<in> set ds. p_energy_consumed (proc_at s d) \<le> p_energy_consumed (proc_at s v)) \<and>
            p_killed (proc_at t v) = 1 \<and> p_state (proc_at t v) \<noteq> SLEEPING \<and>
            p_waiting_res (proc_at t v) = - 1 \<and> p_holding_res (proc_at t v) = replicate NRES 0 \<and>
            (\<forall>i. i \<noteq> v \<longrightarrow> proc_at t i = proc_at s i)
     else r = 0 \<and> t = s)"
proof (rule check_deadlock_cases [of s])
  fix ds v out
  assume c: "cycle (res_waits (procs s)) ds" "v \<in> set ds" "v < NPROC"
    "\<And>d. d \<in> set ds \<Longrightarrow> p_energy_consumed (proc_at s d) \<le> p_energy_consumed (proc_at s v)"
    "check_deadlock s =
       ret (p_pid (proc_at s v)) (upd_proc v strip_victim (s\<lparr>uart_out := uart_out s @ out\<rparr>))"
  have ex: "\<exists>p. on_cycle (res_waits (procs s)) p" using cycle_on_cycle [OF c(1,2)] by blast
  let ?t = "upd_proc v strip_victim (s\<lparr>uart_out := uart_out s @ out\<rparr>)"
  have "p_killed (proc_at ?t v) = 1" "p_state (proc_at ?t v) \<noteq> SLEEPING"
    "p_waiting_res (proc_at ?t v) = - 1" "p_holding_res (proc_at ?t v) = replicate NRES 0"
    using c(3) assms(3) by (simp_all add: strip_victim_def Let_def)
  moreover have "\<forall>i. i \<noteq> v \<longrightarrow> proc_at ?t i = proc_at s i" "held ?t = held s" by simp_all
  ultimately show ?thesis unfolding if_P [OF ex] using c by blast
qed (use assms in auto)

text \<open>Two processes, each holding the resource the other waits for.\<close>

definition dl_table :: ptable where
  "dl_table = boot_ptable\<lparr>procs := (replicate NPROC no_proc)
     [0 := no_proc\<lparr>p_state := SLEEPING, p_pid := 1, p_energy_consumed := 40,
                   p_holding_res := (replicate NRES 0)[0 := 1], p_waiting_res := 1\<rparr>,
      1 := no_proc\<lparr>p_state := SLEEPING, p_pid := 2, p_energy_consumed := 70,
                   p_holding_res := (replicate NRES 0)[1 := 1], p_waiting_res := 0\<rparr>]\<rparr>"

lemma dl_table_ok:
  "Pr_lock \<notin> set (held dl_table)" "\<forall>i. Proc_lock i \<notin> set (held dl_table)"
  "length (procs dl_table) = NPROC"
  by (simp_all add: dl_table_def boot_ptable_def)

lemma dl_table_holding:
  assumes "i < NPROC"
  shows "p_state (proc_at dl_table i) \<noteq> UNUSED \<longleftrightarrow> i \<in> {0, 1}"
    "p_holding_res (proc_at dl_table i) =
       (if i \<in> {0, 1} then (replicate NRES 0)[i := 1] else replicate NRES 0)"
    "p_waiting_res (proc_at dl_table i) = (if i = 0 then 1 else 0)"
  using assms
  by (auto simp: dl_table_def boot_ptable_def no_proc_def nth_list_update)

lemma dl_table_cycle: "on_cycle (res_waits (procs dl_table)) 0"
proof -
  have "find_holder (procs dl_table) 1 = Some 1" "find_holder (procs dl_table) 0 = Some 0"
    unfolding find_holder_def find_upt_least
    by (auto simp: dl_table_holding nth_list_update)
  then have "hops (res_waits (procs dl_table)) 2 0 = Some 0"
    by (simp add: numeral_2_eq_2 res_waits_def dl_table_holding)
  then show ?thesis by (auto simp: on_cycle_def intro!: exI [of _ 2])
qed

theorem check_deadlock_exact_witness:
  "\<exists>r t. check_deadlock dl_table = ret r t \<and>
     (\<exists>v. r = p_pid (proc_at dl_table v) \<and> p_killed (proc_at t v) = 1)"
proof -
  have ex: "\<exists>p. on_cycle (res_waits (procs dl_table)) p" using dl_table_cycle by blast
  show ?thesis using check_deadlock_exact [OF dl_table_ok, unfolded if_P [OF ex]] by blast
qed

section \<open>Recovery ends every deadlock\<close>

text \<open>
  The resource table as the three operations keep it: the arrays have their size, a process
  waits for an existing resource, and a resource has one holder.
\<close>

definition holds_res :: "proc list \<Rightarrow> nat \<Rightarrow> nat \<Rightarrow> bool" where
  "holds_res ps i r \<longleftrightarrow> p_state (ps ! i) \<noteq> UNUSED \<and> p_holding_res (ps ! i) ! r \<noteq> 0"

definition res_ok :: "proc list \<Rightarrow> bool" where
  "res_ok ps \<longleftrightarrow> length ps = NPROC \<and>
     (\<forall>i < NPROC. length (p_holding_res (ps ! i)) = NRES \<and> p_waiting_res (ps ! i) < int NRES) \<and>
     (\<forall>r < NRES. \<forall>i < NPROC. \<forall>j < NPROC.
        holds_res ps i r \<and> holds_res ps j r \<longrightarrow> i = j)"

lemma strip_victim_simps [simp]:
  "p_holding_res (strip_victim q) = replicate NRES 0" "p_waiting_res (strip_victim q) = - 1"
  "p_state (strip_victim q) = UNUSED \<longleftrightarrow> p_state q = UNUSED"
  by (auto simp: strip_victim_def Let_def)

lemma res_ok_strip:
  assumes "res_ok ps"
  shows "res_ok (ps[v := strip_victim (ps ! v)])"
proof (cases "v < NPROC")
  case True
  let ?ps = "ps[v := strip_victim (ps ! v)]"
  have len: "length ps = NPROC" using assms by (simp add: res_ok_def)
  have "length (p_holding_res (?ps ! i)) = NRES \<and> p_waiting_res (?ps ! i) < int NRES" if "i < NPROC" for i
    using assms that True len by (cases "i = v") (simp_all add: res_ok_def)
  moreover have "holds_res ?ps i r \<longleftrightarrow> i \<noteq> v \<and> holds_res ps i r" if "i < NPROC" "r < NRES" for i r
    using that True len by (cases "i = v") (simp_all add: holds_res_def)
  ultimately show ?thesis using assms unfolding res_ok_def by simp
next
  case False
  then show ?thesis using assms by (simp add: res_ok_def list_update_beyond)
qed

lemma res_waits_strip:
  assumes ok: "res_ok ps" and v: "v < NPROC"
    and w: "res_waits (ps[v := strip_victim (ps ! v)]) p = Some q" "p < NPROC"
  shows "res_waits ps p = Some q"
proof -
  let ?ps = "ps[v := strip_victim (ps ! v)]"
  have len: "length ps = NPROC" using ok by (simp add: res_ok_def)
  have pv: "p \<noteq> v" using w(1) v len by (auto simp: res_waits_def)
  let ?r = "p_waiting_res (ps ! p)"
  have r: "0 \<le> ?r" "find_holder ?ps ?r = Some q" "nat ?r < NRES"
    using w pv ok by (auto simp: res_waits_def res_ok_def split: if_splits)
  have "q \<noteq> v" using find_holder_SomeD(3) [OF r(2)] v len r(3) by auto
  then have q: "q < NPROC" "p_state (ps ! q) \<noteq> UNUSED" "p_holding_res (ps ! q) ! nat ?r \<noteq> 0"
    using find_holder_SomeD [OF r(2)] by auto
  have excl: "holds_res ps i r \<Longrightarrow> holds_res ps j r \<Longrightarrow> i = j"
    if "r < NRES" "i < NPROC" "j < NPROC" for r i j
    using ok that unfolding res_ok_def by blast
  have "\<not> (p_state (ps ! j) \<noteq> UNUSED \<and> p_holding_res (ps ! j) ! nat ?r \<noteq> 0)" if "j < q" for j
    using excl [OF r(3) less_trans [OF that q(1)] q(1)] q(2,3) that by (auto simp: holds_res_def)
  then have "find_holder ps ?r = Some q"
    using q unfolding find_holder_def find_upt_least by auto
  then show ?thesis using r(1) by (simp add: res_waits_def)
qed

lemma hops_strip:
  assumes "res_ok ps" "v < NPROC" "p < NPROC"
    and "hops (res_waits (ps[v := strip_victim (ps ! v)])) n p = Some q"
  shows "hops (res_waits ps) n p = Some q"
  using assms(4)
proof (induction n arbitrary: q)
  case (Suc n)
  then obtain m where m: "hops (res_waits (ps[v := strip_victim (ps ! v)])) n p = Some m"
    "res_waits (ps[v := strip_victim (ps ! v)]) m = Some q"
    by (auto split: Option.bind_splits)
  have "m < NPROC" using res_graph.hops_nodes [OF _ m(1)] assms(3) by simp
  then show ?case using Suc.IH [OF m(1)] res_waits_strip [OF assms(1,2) m(2)] by simp
qed simp

text \<open>The processes that are part of a deadlock.\<close>

definition deadlocked :: "proc list \<Rightarrow> nat set" where
  "deadlocked ps = {p. on_cycle (res_waits ps) p}"

lemma deadlocked_strip:
  assumes "res_ok ps" "v \<in> deadlocked ps"
  shows "deadlocked (ps[v := strip_victim (ps ! v)]) \<subset> deadlocked ps"
proof -
  let ?ps = "ps[v := strip_victim (ps ! v)]"
  have v: "v < NPROC" using assms(2) on_cycle_used(2) by (simp add: deadlocked_def)
  have "v < length ps" using v assms(1) by (simp add: res_ok_def)
  then have "v \<notin> deadlocked ?ps"
    using on_cycle_used(3) [of ?ps v] by (auto simp: deadlocked_def)
  moreover have "on_cycle (res_waits ps) p" if "on_cycle (res_waits ?ps) p" for p
    using that hops_strip [OF assms(1) v on_cycle_used(2) [OF that]]
    unfolding on_cycle_def by blast
  ultimately show ?thesis using assms(2) by (auto simp: deadlocked_def)
qed

lemma finite_deadlocked: "finite (deadlocked ps)" "card (deadlocked ps) \<le> NPROC"
proof -
  have "deadlocked ps \<subseteq> {..<NPROC}" using on_cycle_used(2) by (auto simp: deadlocked_def)
  then show "finite (deadlocked ps)" "card (deadlocked ps) \<le> NPROC"
    using card_mono [of "{..<NPROC}"] by (auto intro: finite_subset)
qed

lemma deadlock_recover_step:
  assumes "Pr_lock \<notin> set (held s)" "\<And>i. Proc_lock i \<notin> set (held s)" "res_ok (procs s)"
  shows "\<exists>t. deadlock_recover s = ret () t \<and> held t = held s \<and> res_ok (procs t) \<and>
     (deadlocked (procs s) = {} \<and> t = s \<or> deadlocked (procs t) \<subset> deadlocked (procs s))"
proof -
  have len: "length (procs s) = NPROC" using assms(3) by (simp add: res_ok_def)
  show ?thesis
  proof (rule check_deadlock_cases [OF assms(1,2) len])
    assume "check_deadlock s = ret 0 s" "\<And>p. \<not> on_cycle (res_waits (procs s)) p"
    then show ?thesis using assms(3) by (simp add: deadlock_recover_def deadlocked_def)
  next
    fix ds v out
    assume c: "cycle (res_waits (procs s)) ds" "v \<in> set ds"
      "check_deadlock s =
         ret (p_pid (proc_at s v)) (upd_proc v strip_victim (s\<lparr>uart_out := uart_out s @ out\<rparr>))"
    have "v \<in> deadlocked (procs s)" using cycle_on_cycle [OF c(1,2)] by (simp add: deadlocked_def)
    then show ?thesis
      using c(3) deadlocked_strip [OF assms(3)] res_ok_strip [OF assms(3)]
      by (simp add: deadlock_recover_def)
  qed
qed

lemma deadlock_recover_iter:
  assumes "Pr_lock \<notin> set (held s)" "\<And>i. Proc_lock i \<notin> set (held s)" "res_ok (procs s)"
  shows "\<exists>t. forK (replicate n ()) (\<lambda>_. deadlock_recover) s = ret () t \<and> held t = held s \<and>
     card (deadlocked (procs t)) \<le> card (deadlocked (procs s)) - n"
  using assms
proof (induction n arbitrary: s)
  case (Suc n)
  obtain t where t: "deadlock_recover s = ret () t" "held t = held s" "res_ok (procs t)"
    "deadlocked (procs s) = {} \<and> t = s \<or> deadlocked (procs t) \<subset> deadlocked (procs s)"
    using deadlock_recover_step [OF Suc.prems] by blast
  have "card (deadlocked (procs t)) \<le> card (deadlocked (procs s)) - 1"
    using t(4)
  proof
    assume "deadlocked (procs s) = {} \<and> t = s"
    then show ?thesis by simp
  next
    assume "deadlocked (procs t) \<subset> deadlocked (procs s)"
    from psubset_card_mono [OF finite_deadlocked(1) this] show ?thesis by linarith
  qed
  moreover obtain u where "forK (replicate n ()) (\<lambda>_. deadlock_recover) t = ret () u"
    "held u = held t" "card (deadlocked (procs u)) \<le> card (deadlocked (procs t)) - n"
    using Suc.IH [of t] Suc.prems(1,2) t(2,3) by auto
  ultimately show ?case using t(1,2) by (intro exI [of _ u]) simp
qed simp


lemma dl_table_res_ok: "res_ok (procs dl_table)"
  unfolding res_ok_def holds_res_def
  using dl_table_ok(3) by (auto simp: dl_table_holding nth_list_update split: if_splits)


end
