(* ===== verification/Scheduler.thy ===== *)
theory Scheduler
  imports Proc_Table
begin

text \<open>
  The energy-aware scheduler of \<^verbatim>\<open>kernel/proc.c\<close>. One pass through the endless loop of
  \<open>scheduler\<close> is cut at \<open>swtch\<close>: \<open>scheduler_round\<close> goes from \<open>intr_on\<close> to the switch (or to
  \<open>wfi\<close>) and \<open>scheduler_resume\<close> from the switch back to the end of the pass. The three
  scans keep the lock of the candidate they have, as the code does.
\<close>

section \<open>Definitions\<close>

text \<open>The test of the scans: a runnable child of a process named \<open>schedtest\<close>.\<close>

definition sched_child :: "'s ptable_scheme \<Rightarrow> nat \<Rightarrow> bool" where
  "sched_child s p \<longleftrightarrow>
     p_state (proc_at s p) = RUNNABLE \<and>
     (case p_parent (proc_at s p) of
        None \<Rightarrow> False
      | Some q \<Rightarrow> strncmp (p_name (proc_at s q)) (bytes ''schedtest'') 16 = 0)"

definition high_energy :: "'s ptable_scheme \<Rightarrow> nat \<Rightarrow> bool" where
  "high_energy s p \<longleftrightarrow>
     sched_child s p \<and> p_energy_budget (proc_at s p) > LOW_ENERGY_THRESHOLD"

fun release_chosen :: "nat option \<Rightarrow> 's ptable_scheme \<Rightarrow> ('s ptable_scheme, unit) kres" where
  "release_chosen None s = ret () s"
| "release_chosen (Some c) s = release (Proc_lock c) s"

fun scan_min ::
  "('s ptable_scheme \<Rightarrow> nat \<Rightarrow> bool) \<Rightarrow> nat list \<Rightarrow> nat option \<Rightarrow> 's ptable_scheme
     \<Rightarrow> ('s ptable_scheme, nat option) kres" where
  "scan_min ok [] chosen s = ret chosen s"
| "scan_min ok (p # ps) chosen s =
     bindK (acquire (Proc_lock p) s) (\<lambda>_ s.
       if ok s p \<and>
          (case chosen of None \<Rightarrow> True | Some c \<Rightarrow> p_pid (proc_at s p) < p_pid (proc_at s c))
       then bindK (release_chosen chosen s) (\<lambda>_ s. scan_min ok ps (Some p) s)
       else bindK (release (Proc_lock p) s) (\<lambda>_ s. scan_min ok ps chosen s))"

fun scan_first :: "nat list \<Rightarrow> 's ptable_scheme \<Rightarrow> ('s ptable_scheme, nat option) kres" where
  "scan_first [] s = ret None s"
| "scan_first (p # ps) s =
     bindK (acquire (Proc_lock p) s) (\<lambda>_ s.
       if p_state (proc_at s p) = RUNNABLE then ret (Some p) s
       else bindK (release (Proc_lock p) s) (\<lambda>_ s. scan_first ps s))"

definition choose_proc :: "'s ptable_scheme \<Rightarrow> ('s ptable_scheme, nat option) kres" where
  "choose_proc s =
     bindK (scan_min high_energy [0..<NPROC] None s) (\<lambda>chosen s.
     bindK (if chosen = None then scan_min sched_child [0..<NPROC] None s else ret chosen s)
       (\<lambda>chosen s. if chosen = None then scan_first [0..<NPROC] s else ret chosen s))"

definition age_waiting :: "nat \<Rightarrow> 's ptable_scheme \<Rightarrow> ('s ptable_scheme, unit) kres" where
  "age_waiting chosen s =
     forK [0..<NPROC]
       (\<lambda>p s. if p = chosen then ret () s
              else bindK (acquire (Proc_lock p) s) (\<lambda>_ s.
                release (Proc_lock p)
                  (if sched_child s p
                   then upd_proc p (\<lambda>q. q\<lparr>p_waiting_tick := p_waiting_tick q + 1\<rparr>) s
                   else s))) s"

definition set_interval :: "u64 \<Rightarrow> 's ptable_scheme \<Rightarrow> 's ptable_scheme" where
  "set_interval t s = s\<lparr>timer_interval := t, stimecmp := rtime s + t\<rparr>"

definition dispatch :: "nat \<Rightarrow> 's ptable_scheme \<Rightarrow> ('s ptable_scheme, nat option) kres" where
  "dispatch chosen s =
     bindK (age_waiting chosen s) (\<lambda>_ s.
       let s = (if timer_interval s \<noteq> 1000000 then set_interval 1000000 s else s);
           s = upd_proc chosen (\<lambda>q. q\<lparr>p_state := RUNNING, p_last_scheduled_tick := 0\<rparr>) s
       in ret (Some chosen) (s\<lparr>curproc := Some chosen\<rparr>))"

definition idle :: "'s ptable_scheme \<Rightarrow> ('s ptable_scheme, nat option) kres" where
  "idle s = ret None (if timer_interval s = 1000000 then set_interval 10000000 s else s)"

text \<open>The value is the process switched to, \<open>None\<close> for \<open>wfi\<close>.\<close>

definition scheduler_round :: "'s ptable_scheme \<Rightarrow> ('s ptable_scheme, nat option) kres" where
  "scheduler_round s =
     bindK (choose_proc s) (\<lambda>chosen s.
       case chosen of Some c \<Rightarrow> dispatch c s | None \<Rightarrow> idle s)"

definition scheduler_resume :: "nat \<Rightarrow> 's ptable_scheme \<Rightarrow> ('s ptable_scheme, unit) kres" where
  "scheduler_resume chosen s = release (Proc_lock chosen) (s\<lparr>curproc := None\<rparr>)"

section \<open>Which process is chosen\<close>

text \<open>
  The promise of the scheduler: among the high-energy children of \<open>schedtest\<close> the one with
  the lowest pid; if there is none, the child of \<open>schedtest\<close> with the lowest pid; if there
  is none, the first runnable entry of the table.
\<close>

definition min_pid :: "'s ptable_scheme \<Rightarrow> (nat \<Rightarrow> bool) \<Rightarrow> nat \<Rightarrow> bool" where
  "min_pid s P c \<longleftrightarrow>
     c < NPROC \<and> P c \<and> (\<forall>i < NPROC. P i \<longrightarrow> p_pid (proc_at s c) \<le> p_pid (proc_at s i))"

definition choice :: "'s ptable_scheme \<Rightarrow> nat \<Rightarrow> bool" where
  "choice s c \<longleftrightarrow>
     (if \<exists>i < NPROC. high_energy s i then min_pid s (high_energy s) c
      else if \<exists>i < NPROC. sched_child s i then min_pid s (sched_child s) c
      else c < NPROC \<and> p_state (proc_at s c) = RUNNABLE \<and>
           (\<forall>i < c. p_state (proc_at s i) \<noteq> RUNNABLE))"

lemma sched_child_cong: "procs s = procs t \<Longrightarrow> sched_child s p = sched_child t p"
  by (simp add: sched_child_def cong: option.case_cong)

lemma high_energy_cong: "procs s = procs t \<Longrightarrow> high_energy s p = high_energy t p"
  by (simp add: high_energy_def sched_child_def cong: option.case_cong)

lemma sched_child_held [simp]: "sched_child (s\<lparr>held := hs\<rparr>) = sched_child s"
  by (rule ext) (simp add: sched_child_def cong: option.case_cong)

lemma high_energy_held [simp]: "high_energy (s\<lparr>held := hs\<rparr>) = high_energy s"
  by (rule ext) (simp add: high_energy_def)

text \<open>The lock list a scan leaves: the one it had, and the candidate's lock.\<close>

definition cand_held :: "nat option \<Rightarrow> lock list \<Rightarrow> lock list" where
  "cand_held c hs = (case c of None \<Rightarrow> hs | Some i \<Rightarrow> Proc_lock i # hs)"

lemma cand_held_simps [simp]: "cand_held None hs = hs" "cand_held (Some i) hs = Proc_lock i # hs"
  by (simp_all add: cand_held_def)

lemma scan_min_ok:
  assumes ok: "\<And>t. procs t = procs s \<Longrightarrow> ok t = P"
    and "distinct ps" "\<And>i. chosen = Some i \<Longrightarrow> i \<notin> set ps"
    and "\<And>i. Proc_lock i \<notin> set hs" "held s = cand_held chosen hs"
  shows "\<exists>c. scan_min ok ps chosen s = ret c (s\<lparr>held := cand_held c hs\<rparr>) \<and>
    (case c of
       None \<Rightarrow> chosen = None \<and> (\<forall>i \<in> set ps. \<not> P i)
     | Some k \<Rightarrow> (chosen = Some k \<or> k \<in> set ps \<and> P k) \<and>
         (\<forall>j. chosen = Some j \<longrightarrow> p_pid (proc_at s k) \<le> p_pid (proc_at s j)) \<and>
         (\<forall>i \<in> set ps. P i \<longrightarrow> p_pid (proc_at s k) \<le> p_pid (proc_at s i)))"
  using assms
proof (induction ps arbitrary: chosen s)
  case Nil
  then show ?case by (cases chosen) (auto intro!: exI [of _ chosen])
next
  case (Cons p ps)
  have free: "Proc_lock p \<notin> set (held s)"
    using Cons.prems(3-5) by (cases chosen) auto
  show ?case
  proof (cases "P p \<and> (case chosen of None \<Rightarrow> True | Some c \<Rightarrow> p_pid (proc_at s p) < p_pid (proc_at s c))")
    case True
    let ?s = "s\<lparr>held := Proc_lock p # hs\<rparr>"
    have "bindK (release_chosen chosen (s\<lparr>held := Proc_lock p # held s\<rparr>)) (\<lambda>_. scan_min ok ps (Some p))
        = scan_min ok ps (Some p) ?s"
      using Cons.prems(3,5) by (cases chosen) (auto simp: kres_simps)
    then have step: "scan_min ok (p # ps) chosen s = scan_min ok ps (Some p) ?s"
      using True free Cons.prems(1) by (simp add: kres_simps cong: option.case_cong)
    obtain c where c: "scan_min ok ps (Some p) ?s = ret c (?s\<lparr>held := cand_held c hs\<rparr>)"
      "case c of None \<Rightarrow> False
       | Some k \<Rightarrow> (p = k \<or> k \<in> set ps \<and> P k) \<and> p_pid (proc_at s k) \<le> p_pid (proc_at s p) \<and>
           (\<forall>i \<in> set ps. P i \<longrightarrow> p_pid (proc_at s k) \<le> p_pid (proc_at s i))"
      using Cons.IH [of ?s "Some p"] Cons.prems(1,2,4)
      by (auto cong: option.case_cong)
    then obtain k where k: "c = Some k" by (cases c) auto
    have "p_pid (proc_at s k) \<le> p_pid (proc_at s j)" if "chosen = Some j" for j
      using c(2) k True that by simp
    then show ?thesis
      using step c k True by (intro exI [of _ c]) auto
  next
    case False
    then have step: "scan_min ok (p # ps) chosen s = scan_min ok ps chosen s"
      using free Cons.prems(1) by (auto simp: kres_simps cong: option.case_cong)
    obtain c where c: "scan_min ok ps chosen s = ret c (s\<lparr>held := cand_held c hs\<rparr>)"
      "case c of None \<Rightarrow> chosen = None \<and> (\<forall>i \<in> set ps. \<not> P i)
       | Some k \<Rightarrow> (chosen = Some k \<or> k \<in> set ps \<and> P k) \<and>
           (\<forall>j. chosen = Some j \<longrightarrow> p_pid (proc_at s k) \<le> p_pid (proc_at s j)) \<and>
           (\<forall>i \<in> set ps. P i \<longrightarrow> p_pid (proc_at s k) \<le> p_pid (proc_at s i))"
      using Cons.IH [of s chosen] Cons.prems by auto
    show ?thesis
    proof (cases c)
      case None
      with c False step show ?thesis by (intro exI [of _ c]) auto
    next
      case (Some k)
      then have "P p \<Longrightarrow> p_pid (proc_at s k) \<le> p_pid (proc_at s p)"
        using c(2) False by (cases chosen) auto
      with Some c step show ?thesis by (intro exI [of _ c]) auto
    qed
  qed
qed

lemma scan_first_ok:
  assumes "\<And>i. Proc_lock i \<notin> set (held s)"
  shows "scan_first ps s =
           (let c = find (\<lambda>i. p_state (proc_at s i) = RUNNABLE) ps
            in ret c (s\<lparr>held := cand_held c (held s)\<rparr>))"
  using assms by (induction ps) (auto simp: kres_simps Let_def)

lemma choose_proc_ok:
  assumes "\<And>i. Proc_lock i \<notin> set (held s)"
  shows "\<exists>c. choose_proc s = ret c (s\<lparr>held := cand_held c (held s)\<rparr>) \<and>
    (case c of None \<Rightarrow> \<forall>i < NPROC. p_state (proc_at s i) \<noteq> RUNNABLE | Some k \<Rightarrow> choice s k)"
proof -
  have tests: "high_energy t = high_energy s" "sched_child t = sched_child s"
    if "procs t = procs s" for t
    using high_energy_cong [OF that] sched_child_cong [OF that] by auto
  note scan = scan_min_ok [where P = "high_energy s" and ok = high_energy and s = s and hs = "held s"]
    scan_min_ok [where P = "sched_child s" and ok = sched_child and s = s and hs = "held s"]
  obtain c1 where c1: "scan_min high_energy [0..<NPROC] None s = ret c1 (s\<lparr>held := cand_held c1 (held s)\<rparr>)"
    "case c1 of None \<Rightarrow> \<forall>i < NPROC. \<not> high_energy s i | Some k \<Rightarrow> min_pid s (high_energy s) k"
    using scan(1) [OF tests(1), of "[0..<NPROC]" None] assms
    by (auto simp: min_pid_def split: option.splits)
  show ?thesis
  proof (cases c1)
    case (Some k)
    then show ?thesis
      using c1 by (auto simp: choose_proc_def choice_def min_pid_def intro!: exI [of _ c1])
  next
    case None
    then have none1: "\<not> (\<exists>i < NPROC. high_energy s i)" using c1(2) by simp
    obtain c2 where c2: "scan_min sched_child [0..<NPROC] None s = ret c2 (s\<lparr>held := cand_held c2 (held s)\<rparr>)"
      "case c2 of None \<Rightarrow> \<forall>i < NPROC. \<not> sched_child s i | Some k \<Rightarrow> min_pid s (sched_child s) k"
      using scan(2) [OF tests(2), of "[0..<NPROC]" None] assms
      by (auto simp: min_pid_def split: option.splits)
    show ?thesis
    proof (cases c2)
      case (Some k)
      then have "\<exists>i < NPROC. sched_child s i" using c2(2) by (auto simp: min_pid_def)
      with Some show ?thesis
        using c1 c2 None none1 by (auto simp: choose_proc_def choice_def intro!: exI [of _ c2])
    next
      case None2: None
      then have none2: "\<not> (\<exists>i < NPROC. sched_child s i)" using c2(2) by simp
      let ?c = "find (\<lambda>i. p_state (proc_at s i) = RUNNABLE) [0..<NPROC]"
      have "choose_proc s = ret ?c (s\<lparr>held := cand_held ?c (held s)\<rparr>)"
        using c1(1) c2(1) None None2 assms by (simp add: choose_proc_def scan_first_ok Let_def)
      moreover have "case ?c of None \<Rightarrow> \<forall>i < NPROC. p_state (proc_at s i) \<noteq> RUNNABLE | Some k \<Rightarrow> choice s k"
        using none1 none2
        by (auto simp: find_None_iff find_upt_least choice_def split: option.split)
      ultimately show ?thesis by blast
    qed
  qed
qed

lemma choice_runnable:
  assumes "choice s c"
  shows "c < NPROC \<and> p_state (proc_at s c) = RUNNABLE"
proof -
  have "min_pid s (high_energy s) c \<or> min_pid s (sched_child s) c \<or>
      (c < NPROC \<and> p_state (proc_at s c) = RUNNABLE)"
    using assms unfolding choice_def by presburger
  then show ?thesis
    unfolding min_pid_def high_energy_def sched_child_def by blast
qed

section \<open>What a round does to the table\<close>

text \<open>The update of \<open>age_waiting\<close> on entry \<open>p\<close>; a child's test reads no field it changes.\<close>

definition aged :: "'s ptable_scheme \<Rightarrow> nat \<Rightarrow> nat \<Rightarrow> proc \<Rightarrow> proc" where
  "aged s c p q =
     (if p \<noteq> c \<and> sched_child s p then q\<lparr>p_waiting_tick := p_waiting_tick q + 1\<rparr> else q)"

definition same_tests :: "'s ptable_scheme \<Rightarrow> 's ptable_scheme \<Rightarrow> bool" where
  "same_tests s t \<longleftrightarrow> length (procs s) = length (procs t) \<and>
     (\<forall>i < length (procs s). p_state (proc_at t i) = p_state (proc_at s i) \<and>
        p_parent (proc_at t i) = p_parent (proc_at s i) \<and> p_name (proc_at t i) = p_name (proc_at s i))"

text \<open>The parent pointers stay inside the table.\<close>

definition parents_ok :: "'s ptable_scheme \<Rightarrow> bool" where
  "parents_ok s \<longleftrightarrow> (\<forall>i < NPROC. \<forall>q. p_parent (proc_at s i) = Some q \<longrightarrow> q < NPROC)"

lemma sched_child_same_tests:
  assumes "same_tests s t" "length (procs s) = NPROC" "parents_ok s" "p < NPROC"
  shows "sched_child t p = sched_child s p"
proof -
  have same: "p_state (proc_at t i) = p_state (proc_at s i)"
    "p_parent (proc_at t i) = p_parent (proc_at s i)" "p_name (proc_at t i) = p_name (proc_at s i)"
    if "i < NPROC" for i
    using assms(1,2) that by (simp_all add: same_tests_def)
  show ?thesis
  proof (cases "p_parent (proc_at s p)")
    case None
    then show ?thesis by (simp add: sched_child_def same assms(4))
  next
    case (Some q)
    then have "q < NPROC" using assms(3,4) by (simp add: parents_ok_def)
    with Some show ?thesis by (simp add: sched_child_def same assms(4))
  qed
qed

lemma forK_aged:
  assumes "\<And>i. i \<noteq> c \<Longrightarrow> Proc_lock i \<notin> set (held s)" "distinct is" "set is \<subseteq> {..<NPROC}"
    and "length (procs s) = NPROC" "parents_ok s"
  shows "\<exists>t. forK is
       (\<lambda>p s. if p = c then ret () s
              else bindK (acquire (Proc_lock p) s) (\<lambda>_ s.
                release (Proc_lock p)
                  (if sched_child s p
                   then upd_proc p (\<lambda>q. q\<lparr>p_waiting_tick := p_waiting_tick q + 1\<rparr>) s
                   else s))) s = ret () t \<and> t = s\<lparr>procs := procs t\<rparr> \<and>
     length (procs t) = length (procs s) \<and>
     (\<forall>i < NPROC. procs t ! i = (if i \<in> set is then aged s c i (procs s ! i) else procs s ! i))"
    (is "\<exists>t. forK is ?body s = _ \<and> _")
  using assms
proof (induction "is" arbitrary: s)
  case Nil
  then show ?case by simp
next
  case (Cons p "is")
  let ?s = "upd_proc p (aged s c p) s"
  have step: "?body p s = ret () ?s"
    using Cons.prems(1) by (auto simp: kres_simps aged_def upd_proc_held_update upd_proc_def)
  have p: "p < length (procs s)" using Cons.prems(3,4) by simp
  have same: "same_tests s ?s"
    using p by (auto simp: same_tests_def aged_def nth_list_update)
  have tests: "sched_child ?s i = sched_child s i" if "i < NPROC" for i
    using same Cons.prems(4,5) that by (rule sched_child_same_tests)
  have "parents_ok ?s"
    using same Cons.prems(4,5) by (simp add: same_tests_def parents_ok_def)
  then have "\<exists>t. forK is ?body ?s = ret () t \<and> t = ?s\<lparr>procs := procs t\<rparr> \<and>
    length (procs t) = length (procs ?s) \<and>
    (\<forall>i < NPROC. procs t ! i = (if i \<in> set is then aged ?s c i (procs ?s ! i) else procs ?s ! i))"
    using Cons.prems(1-4) by (intro Cons.IH) simp_all
  then obtain t where t: "forK is ?body ?s = ret () t" "t = ?s\<lparr>procs := procs t\<rparr>"
    "length (procs t) = length (procs ?s)"
    "\<forall>i < NPROC. procs t ! i = (if i \<in> set is then aged ?s c i (procs ?s ! i) else procs ?s ! i)"
    by blast
  have len: "length (procs t) = length (procs s)" using t(3) by simp
  have "forK (p # is) ?body s = ret () t"
    using step t(1) by simp
  moreover have "t = s\<lparr>procs := procs t\<rparr>" by (subst t(2)) (simp add: upd_proc_def)
  moreover have "procs t ! i = (if i \<in> set (p # is) then aged s c i (procs s ! i) else procs s ! i)"
    if "i < NPROC" for i
    using t(4) that Cons.prems(2) p tests [OF that] by (cases "i = p") (auto simp: aged_def)
  ultimately show ?case using len by blast
qed

lemma age_waiting_eq:
  assumes "\<And>i. i \<noteq> c \<Longrightarrow> Proc_lock i \<notin> set (held s)" "length (procs s) = NPROC" "parents_ok s"
  shows "age_waiting c s = ret () (upd_all (aged s c) s)"
proof -
  obtain t where t: "age_waiting c s = ret () t" "t = s\<lparr>procs := procs t\<rparr>"
    "length (procs t) = length (procs s)" "\<forall>i < NPROC. procs t ! i = aged s c i (procs s ! i)"
    using forK_aged [of c s "[0..<NPROC]"] assms unfolding age_waiting_def by fastforce
  then show ?thesis using assms(2) by (metis ptable_eqI)
qed

text \<open>The state of a round that dispatches \<open>c\<close>, and of one that finds nothing to run.\<close>

definition dispatched :: "nat \<Rightarrow> 's ptable_scheme \<Rightarrow> 's ptable_scheme" where
  "dispatched c s =
     (upd_proc c (\<lambda>q. q\<lparr>p_state := RUNNING, p_last_scheduled_tick := 0\<rparr>)
        (if timer_interval s \<noteq> 1000000 then set_interval 1000000 (upd_all (aged s c) s)
         else upd_all (aged s c) s))\<lparr>held := [Proc_lock c], curproc := Some c\<rparr>"

definition idled :: "'s ptable_scheme \<Rightarrow> 's ptable_scheme" where
  "idled s = (if timer_interval s = 1000000 then set_interval 10000000 s else s)"

lemma set_interval_simps [simp]:
  "procs (set_interval n s) = procs s" "held (set_interval n s) = held s"
  "curproc (set_interval n s) = curproc s" "timer_interval (set_interval n s) = n"
  by (simp_all add: set_interval_def)

lemma aged_held [simp]: "aged (s\<lparr>held := hs\<rparr>) c = aged s c"
  by (intro ext) (simp add: aged_def)

lemma upd_all_held_update: "upd_all g (s\<lparr>held := hs\<rparr>) = (upd_all g s)\<lparr>held := hs\<rparr>"
  by (simp add: upd_all_def)

lemma dispatch_eq:
  assumes "held s = []" "length (procs s) = NPROC" "parents_ok s"
  shows "dispatch c (s\<lparr>held := [Proc_lock c]\<rparr>) = ret (Some c) (dispatched c s)"
proof -
  have "age_waiting c (s\<lparr>held := [Proc_lock c]\<rparr>)
      = ret () ((upd_all (aged s c) s)\<lparr>held := [Proc_lock c]\<rparr>)"
    using assms
    by (subst age_waiting_eq) (simp_all add: parents_ok_def upd_all_held_update)
  then show ?thesis
    by (simp add: dispatch_def dispatched_def set_interval_def upd_proc_def Let_def)
qed

lemma scheduler_round_cases:
  assumes "held s = []" "length (procs s) = NPROC" "parents_ok s"
  shows "(\<exists>c. choice s c \<and> scheduler_round s = ret (Some c) (dispatched c s)) \<or>
         ((\<forall>i < NPROC. p_state (proc_at s i) \<noteq> RUNNABLE) \<and> scheduler_round s = ret None (idled s))"
proof -
  obtain c where c: "choose_proc s = ret c (s\<lparr>held := cand_held c []\<rparr>)"
    "case c of None \<Rightarrow> \<forall>i < NPROC. p_state (proc_at s i) \<noteq> RUNNABLE | Some k \<Rightarrow> choice s k"
    using choose_proc_ok [of s] assms(1) by auto
  show ?thesis
  proof (cases c)
    case None
    have "s\<lparr>held := []\<rparr> = s" using assms(1) by simp
    then have "scheduler_round s = ret None (idled s)"
      using c(1) None by (simp add: scheduler_round_def idle_def idled_def)
    then show ?thesis using c(2) None by simp
  next
    case (Some k)
    then have "scheduler_round s = ret (Some k) (dispatched k s)"
      using c(1) dispatch_eq [OF assms, of k] by (simp add: scheduler_round_def)
    then show ?thesis using c(2) Some by auto
  qed
qed

lemma dispatched_simps [simp]:
  "held (dispatched c s) = [Proc_lock c]" "curproc (dispatched c s) = Some c"
  "timer_interval (dispatched c s) = 1000000"
  "length (procs (dispatched c s)) = length (procs s)"
  by (simp_all add: dispatched_def)

lemma dispatched_nth:
  assumes "i < length (procs s)"
  shows "proc_at (dispatched c s) i =
    (if i = c then (proc_at s c)\<lparr>p_state := RUNNING, p_last_scheduled_tick := 0\<rparr>
     else aged s c i (proc_at s i))"
  using assms by (simp add: dispatched_def aged_def nth_list_update)

lemma aged_simps [simp]:
  "p_state (aged s c i q) = p_state q" "p_parent (aged s c i q) = p_parent q"
  "p_pid (aged s c i q) = p_pid q" "p_name (aged s c i q) = p_name q"
  by (simp_all add: aged_def)

section \<open>Properties of a round\<close>

text \<open>
  C1. From a state with no lock held the scheduler never panics: it either switches to the
  process its policy names, with that process's lock and no other, marked \<open>RUNNING\<close> and
  current, or there is no runnable process at all, and it waits with no lock held and the
  table unchanged.
\<close>

theorem scheduler_policy:
  assumes "held s = []" "length (procs s) = NPROC" "parents_ok s"
  shows "\<exists>r t. scheduler_round s = ret r t \<and>
    (case r of
       Some c \<Rightarrow> choice s c \<and> held t = [Proc_lock c] \<and> curproc t = Some c \<and>
         p_state (proc_at t c) = RUNNING
     | None \<Rightarrow> (\<forall>i < NPROC. p_state (proc_at s i) \<noteq> RUNNABLE) \<and> held t = [] \<and> procs t = procs s)"
  using scheduler_round_cases [OF assms]
proof (elim disjE exE conjE)
  fix c assume c: "choice s c" "scheduler_round s = ret (Some c) (dispatched c s)"
  then have "c < length (procs s)" using assms(2) choice_runnable by metis
  then show ?thesis using c by (auto simp: dispatched_nth)
next
  assume "\<forall>i < NPROC. p_state (proc_at s i) \<noteq> RUNNABLE" "scheduler_round s = ret None (idled s)"
  then show ?thesis using assms(1) by (auto simp: idled_def)
qed

definition sched_table :: ptable where
  "sched_table = boot_ptable\<lparr>procs := (replicate NPROC no_proc)
     [2 := no_proc\<lparr>p_state := SLEEPING, p_pid := 3, p_name := bytes ''schedtest'' @ replicate 7 0\<rparr>,
      3 := no_proc\<lparr>p_state := RUNNABLE, p_pid := 4, p_parent := Some 2, p_energy_budget := 50\<rparr>,
      4 := no_proc\<lparr>p_state := RUNNABLE, p_pid := 5, p_parent := Some 2, p_energy_budget := 900\<rparr>,
      5 := no_proc\<lparr>p_state := RUNNABLE, p_pid := 6, p_parent := Some 0, p_energy_budget := 1000\<rparr>]\<rparr>"

lemma sched_table_ok:
  "held sched_table = []" "length (procs sched_table) = NPROC" "parents_ok sched_table"
  by (simp_all add: sched_table_def boot_ptable_def parents_ok_def no_proc_def nth_list_update)

theorem scheduler_policy_witness:
  "\<exists>c t. scheduler_round sched_table = ret (Some c) t \<and> choice sched_table c \<and>
     held t = [Proc_lock c] \<and> p_state (proc_at t c) = RUNNING"
proof -
  have "\<not> (\<forall>i < NPROC. p_state (proc_at sched_table i) \<noteq> RUNNABLE)"
    unfolding not_all not_imp
    by (rule exI [of _ 4]) (simp add: sched_table_def boot_ptable_def no_proc_def)
  then show ?thesis
    using scheduler_policy [OF sched_table_ok] by (auto split: option.splits)
qed


lemma sched_table_child:
  "sched_child sched_table i \<longleftrightarrow> i = 3 \<or> i = 4" if "i < NPROC"
  using that
  by (auto simp: sched_child_def sched_table_def boot_ptable_def no_proc_def nth_list_update
      strncmp_zero_iff bytes_def ch_def split: if_splits)

lemma sched_table_high: "high_energy sched_table i \<longleftrightarrow> i = 4" if "i < NPROC"
  using that
  by (auto simp: high_energy_def sched_table_child [OF that])
    (auto simp: sched_table_def boot_ptable_def no_proc_def nth_list_update)

lemma sched_table_round:
  "scheduler_round sched_table = ret (Some 4) (dispatched 4 sched_table)"
proof -
  have ex: "\<exists>i < NPROC. high_energy sched_table i" by (intro exI [of _ 4]) (simp add: sched_table_high)
  have "choice sched_table c \<Longrightarrow> c = 4" for c
    unfolding choice_def if_P [OF ex] min_pid_def using sched_table_high by blast
  moreover have "p_state (proc_at sched_table 4) = RUNNABLE"
    by (simp add: sched_table_def boot_ptable_def no_proc_def)
  ultimately show ?thesis
    using scheduler_round_cases [OF sched_table_ok] by fastforce
qed




end
