(* ===== verification/Sleeplock.thy ===== *)
theory Sleeplock
  imports Deadlock Scheduler
begin

text \<open>
  Sleep locks (\<^verbatim>\<open>kernel/sleeplock.c\<close>) with the detection of deadlocks at acquisition and the
  energy-aware recovery, and the demonstration system calls of \<^verbatim>\<open>kernel/sysproc.c\<close> that use
  them. \<open>acquiresleep\<close> blocks in a loop: \<open>acquiresleep\<close> runs up to the first \<open>sleep\<close> or to
  its return, \<open>acquiresleep_resume\<close> from the return of \<open>sleep\<close> to the next one.
\<close>

section \<open>Definitions\<close>

record sleeplock =
  sl_locked :: u32
  sl_name :: "byte list"
  sl_pid :: int

record sltable = ptable +
  sleeplocks :: "sleeplock_id \<Rightarrow> sleeplock"
  demo_locks_inited :: int

definition upd_sl :: "sleeplock_id \<Rightarrow> (sleeplock \<Rightarrow> sleeplock) \<Rightarrow> 's sltable_scheme \<Rightarrow> 's sltable_scheme" where
  "upd_sl lk f s = s\<lparr>sleeplocks := (sleeplocks s)(lk := f (sleeplocks s lk))\<rparr>"

definition pid2proc :: "'s ptable_scheme \<Rightarrow> int \<Rightarrow> nat option" where
  "pid2proc s pid =
     (if pid \<le> 0 then None
      else find (\<lambda>p. p_pid (proc_at s p) = pid \<and> p_state (proc_at s p) \<noteq> UNUSED) [0..<NPROC])"

text \<open>The loop of \<open>would_create_deadlock\<close>; the first argument is \<open>NPROC - hops\<close>.\<close>

fun wcd_loop :: "nat \<Rightarrow> 's sltable_scheme \<Rightarrow> int \<Rightarrow> int \<Rightarrow> int" where
  "wcd_loop 0 s pid owner_pid = 0"
| "wcd_loop (Suc n) s pid owner_pid =
     (if owner_pid > 0 then
        case pid2proc s owner_pid of
          None \<Rightarrow> 0
        | Some owner \<Rightarrow>
            if p_pid (proc_at s owner) = pid then 1
            else case p_waiting_for_lock (proc_at s owner) of
                   None \<Rightarrow> 0
                 | Some next_lock \<Rightarrow>
                     if sl_locked (sleeplocks s next_lock) = 0 then 0
                     else wcd_loop n s pid (sl_pid (sleeplocks s next_lock))
      else 0)"

definition would_create_deadlock ::
  "nat option \<Rightarrow> sleeplock_id option \<Rightarrow> 's sltable_scheme \<Rightarrow> int" where
  "would_create_deadlock current_proc target_lock s =
     (case (current_proc, target_lock) of
        (Some p, Some lk) \<Rightarrow> wcd_loop NPROC s (p_pid (proc_at s p)) (sl_pid (sleeplocks s lk))
      | _ \<Rightarrow> 0)"

text \<open>The two walks of \<open>energy_aware_deadlock_recovery\<close> around the cycle.\<close>

fun mark_cycle ::
  "nat \<Rightarrow> int \<Rightarrow> int \<Rightarrow> nat \<Rightarrow> u64 \<Rightarrow> 's sltable_scheme \<Rightarrow> nat \<times> 's sltable_scheme" where
  "mark_cycle 0 start_pid owner_pid victim max_energy s = (victim, s)"
| "mark_cycle (Suc n) start_pid owner_pid victim max_energy s =
     (if owner_pid > 0 \<and> owner_pid \<noteq> start_pid then
        case pid2proc s owner_pid of
          None \<Rightarrow> (victim, s)
        | Some owner \<Rightarrow>
            let s = upd_proc owner (\<lambda>q. q\<lparr>p_in_deadlock := 1\<rparr>) s;
                energy = p_energy_consumed (proc_at s owner);
                (victim, max_energy) =
                  (if energy > max_energy then (owner, energy) else (victim, max_energy))
            in case p_waiting_for_lock (proc_at s owner) of
                 None \<Rightarrow> (victim, s)
               | Some next_lock \<Rightarrow>
                   if sl_locked (sleeplocks s next_lock) = 0 then (victim, s)
                   else mark_cycle n start_pid (sl_pid (sleeplocks s next_lock)) victim max_energy s
      else (victim, s))"

fun unmark_cycle :: "nat \<Rightarrow> int \<Rightarrow> int \<Rightarrow> 's sltable_scheme \<Rightarrow> 's sltable_scheme" where
  "unmark_cycle 0 start_pid owner_pid s = s"
| "unmark_cycle (Suc n) start_pid owner_pid s =
     (if owner_pid > 0 \<and> owner_pid \<noteq> start_pid then
        case pid2proc s owner_pid of
          None \<Rightarrow> s
        | Some owner \<Rightarrow>
            let s = upd_proc owner (\<lambda>q. q\<lparr>p_in_deadlock := 0\<rparr>) s
            in case p_waiting_for_lock (proc_at s owner) of
                 None \<Rightarrow> s
               | Some next_lock \<Rightarrow>
                   if sl_locked (sleeplocks s next_lock) = 0 then s
                   else unmark_cycle n start_pid (sl_pid (sleeplocks s next_lock)) s
      else s)"

definition energy_aware_deadlock_recovery ::
  "nat \<Rightarrow> sleeplock_id \<Rightarrow> 's sltable_scheme \<Rightarrow> ('s sltable_scheme, int) kres" where
  "energy_aware_deadlock_recovery current_proc target_lock s =
     (let start_pid = p_pid (proc_at s current_proc);
          s = upd_proc current_proc (\<lambda>q. q\<lparr>p_in_deadlock := 1\<rparr>) s;
          (victim, s) = mark_cycle NPROC start_pid (sl_pid (sleeplocks s target_lock)) current_proc
                          (p_energy_consumed (proc_at s current_proc)) s
      in bindK (printf (''deadlock recovery: killing pid %d (energy_consumed=%d) to break deadlock'' @ nl)
                 [vint (p_pid (proc_at s victim)), VNum (p_energy_consumed (proc_at s victim))] s) (\<lambda>_ s.
           let s = upd_proc victim (\<lambda>q. q\<lparr>p_killed := 1\<rparr>) s;
               s = (if p_state (proc_at s victim) = SLEEPING
                    then upd_proc victim (\<lambda>q. q\<lparr>p_state := RUNNABLE\<rparr>) s else s);
               s = upd_proc current_proc (\<lambda>q. q\<lparr>p_in_deadlock := 0\<rparr>) s;
               s = unmark_cycle NPROC start_pid (sl_pid (sleeplocks s target_lock)) s
           in ret (p_pid (proc_at s victim)) s))"

definition initsleeplock :: "sleeplock_id \<Rightarrow> byte list \<Rightarrow> 's sltable_scheme \<Rightarrow> 's sltable_scheme" where
  "initsleeplock lk name s = upd_sl lk (\<lambda>l. l\<lparr>sl_name := name, sl_locked := 0, sl_pid := 0\<rparr>) s"

text \<open>The loop of \<open>acquiresleep\<close>, entered with the lock's spinlock held.\<close>

definition acquiresleep_loop ::
  "nat \<Rightarrow> sleeplock_id \<Rightarrow> 's sltable_scheme \<Rightarrow> ('s sltable_scheme, unit) kres" where
  "acquiresleep_loop p lk s =
     (if sl_locked (sleeplocks s lk) \<noteq> 0 then
        let s = upd_proc p (\<lambda>q. q\<lparr>p_waiting_for_lock := Some lk\<rparr>) s in
        bindK (if would_create_deadlock (Some p) (Some lk) s \<noteq> 0 then
                 let s = upd_proc p (\<lambda>q. q\<lparr>p_deadlock_reports := p_deadlock_reports q + 1\<rparr>) s in
                 bindK (printf (''deadlock warning: pid %d waits for %s held by pid %d'' @ nl)
                         [vint (p_pid (proc_at s p)), VStr (Some (sl_name (sleeplocks s lk))),
                          vint (sl_pid (sleeplocks s lk))] s) (\<lambda>_ s.
                 bindK (energy_aware_deadlock_recovery p lk s) (\<lambda>_ s. ret () s))
               else ret () s) (\<lambda>_ s.
          sleep (Chan_sleeplock lk) (Some (Sleep_lk lk)) s)
      else
        let s = upd_proc p (\<lambda>q. q\<lparr>p_waiting_for_lock := None\<rparr>) s;
            s = upd_sl lk (\<lambda>l. l\<lparr>sl_locked := 1, sl_pid := p_pid (proc_at s p)\<rparr>) s
        in release (Sleep_lk lk) s)"

definition acquiresleep :: "sleeplock_id \<Rightarrow> 's sltable_scheme \<Rightarrow> ('s sltable_scheme, unit) kres" where
  "acquiresleep lk s =
     bindK (acquire (Sleep_lk lk) s) (\<lambda>_ s.
       case myproc s of None \<Rightarrow> Inl Null_deref | Some p \<Rightarrow> acquiresleep_loop p lk s)"

definition acquiresleep_resume ::
  "nat \<Rightarrow> sleeplock_id \<Rightarrow> 's sltable_scheme \<Rightarrow> ('s sltable_scheme, unit) kres" where
  "acquiresleep_resume p lk s =
     bindK (sleep_return p (Sleep_lk lk) s) (\<lambda>_ s. acquiresleep_loop p lk s)"

definition releasesleep :: "sleeplock_id \<Rightarrow> 's sltable_scheme \<Rightarrow> ('s sltable_scheme, unit) kres" where
  "releasesleep lk s =
     bindK (acquire (Sleep_lk lk) s) (\<lambda>_ s.
       let s = upd_sl lk (\<lambda>l. l\<lparr>sl_locked := 0, sl_pid := 0\<rparr>) s
       in bindK (wakeup (Some (Chan_sleeplock lk)) s) (\<lambda>_ s. release (Sleep_lk lk) s))"

definition holdingsleep :: "sleeplock_id \<Rightarrow> 's sltable_scheme \<Rightarrow> ('s sltable_scheme, bool) kres" where
  "holdingsleep lk s =
     bindK (acquire (Sleep_lk lk) s) (\<lambda>_ s.
       if sl_locked (sleeplocks s lk) \<noteq> 0 then
         case myproc s of
           None \<Rightarrow> Inl Null_deref
         | Some p \<Rightarrow>
             let r = (sl_pid (sleeplocks s lk) = p_pid (proc_at s p))
             in bindK (release (Sleep_lk lk) s) (\<lambda>_ s. ret r s)
       else bindK (release (Sleep_lk lk) s) (\<lambda>_ s. ret False s))"

definition ensure_demo_locks_inited :: "'s sltable_scheme \<Rightarrow> 's sltable_scheme" where
  "ensure_demo_locks_inited s =
     (if demo_locks_inited s \<noteq> 0 then s
      else let s = initsleeplock (Demo_lock 0) (bytes ''demo_lock_0'' @ [0]) s;
               s = initsleeplock (Demo_lock 1) (bytes ''demo_lock_1'' @ [0]) s
           in s\<lparr>demo_locks_inited := 1\<rparr>)"

text \<open>The system calls; the argument is what \<open>argint(0, &lockid)\<close> reads.\<close>

definition sys_dlockacq :: "int \<Rightarrow> 's sltable_scheme \<Rightarrow> ('s sltable_scheme, int) kres" where
  "sys_dlockacq lockid s =
     (if lockid < 0 \<or> lockid > 1 then ret (- 1) s
      else bindK (acquiresleep (Demo_lock (nat lockid)) (ensure_demo_locks_inited s)) (\<lambda>_ s. ret 0 s))"

definition sys_dlockrel :: "int \<Rightarrow> 's sltable_scheme \<Rightarrow> ('s sltable_scheme, int) kres" where
  "sys_dlockrel lockid s =
     (if lockid < 0 \<or> lockid > 1 then ret (- 1) s
      else bindK (holdingsleep (Demo_lock (nat lockid)) (ensure_demo_locks_inited s)) (\<lambda>h s.
        if \<not> h then ret (- 1) s
        else bindK (releasesleep (Demo_lock (nat lockid)) s) (\<lambda>_ s. ret 0 s)))"

definition sys_check_deadlock :: "'s ptable_scheme \<Rightarrow> ('s ptable_scheme, int) kres" where
  "sys_check_deadlock s = check_deadlock s"

section \<open>Detection at acquisition\<close>

text \<open>A process waits for the process whose pid is in the lock it waits for.\<close>

definition sl_waits :: "'s sltable_scheme \<Rightarrow> nat \<Rightarrow> nat option" where
  "sl_waits s p =
     (case p_waiting_for_lock (proc_at s p) of
        None \<Rightarrow> None
      | Some lk \<Rightarrow> if sl_locked (sleeplocks s lk) = 0 then None
                   else pid2proc s (sl_pid (sleeplocks s lk)))"

definition pids_unique :: "'s ptable_scheme \<Rightarrow> bool" where
  "pids_unique s \<longleftrightarrow> (\<forall>i < NPROC. \<forall>j < NPROC.
     p_state (proc_at s i) \<noteq> UNUSED \<and> p_state (proc_at s j) \<noteq> UNUSED \<and>
     p_pid (proc_at s i) = p_pid (proc_at s j) \<longrightarrow> i = j)"

lemma pid2proc_SomeD:
  assumes "pid2proc s pid = Some p"
  shows "p < NPROC" "p_pid (proc_at s p) = pid" "p_state (proc_at s p) \<noteq> UNUSED" "pid > 0"
  using assms by (auto simp: pid2proc_def find_upt_least split: if_splits)

interpretation sl_graph: wait_graph "sl_waits s" "{..<NPROC}" for s
  by unfold_locales (auto simp: sl_waits_def dest: pid2proc_SomeD split: option.splits if_splits)

lemma sl_waits_used: "sl_waits s p = Some q \<Longrightarrow> p_state (proc_at s q) \<noteq> UNUSED"
  by (auto simp: sl_waits_def dest: pid2proc_SomeD split: option.splits if_splits)

lemma hops_used:
  "p_state (proc_at s h) \<noteq> UNUSED \<Longrightarrow> hops (sl_waits s) n h = Some q \<Longrightarrow> p_state (proc_at s q) \<noteq> UNUSED"
  by (cases n) (auto dest: sl_waits_used split: Option.bind_splits)

lemma wcd_loop_01: "wcd_loop n s pid owner_pid \<in> {0, 1}"
  by (induction n arbitrary: owner_pid) (auto split: option.split)

lemma wcd_loop_iff:
  "wcd_loop n s pid owner_pid = 1 \<longleftrightarrow>
     (\<exists>h m q. pid2proc s owner_pid = Some h \<and> m < n \<and> hops (sl_waits s) m h = Some q \<and>
        p_pid (proc_at s q) = pid)"
proof (induction n arbitrary: owner_pid)
  case (Suc n)
  show ?case
  proof (cases "pid2proc s owner_pid")
    case None
    then show ?thesis by simp
  next
    case (Some h)
    note h = pid2proc_SomeD [OF Some]
    show ?thesis
    proof (cases "p_pid (proc_at s h) = pid")
      case True
      then have "0 < Suc n \<and> hops (sl_waits s) 0 h = Some h \<and> p_pid (proc_at s h) = pid" by simp
      moreover have "wcd_loop (Suc n) s pid owner_pid = 1" using True Some h(4) by simp
      ultimately show ?thesis using Some by blast
    next
      case False
      have step: "(\<exists>m < Suc n. \<exists>q. hops (sl_waits s) m h = Some q \<and> p_pid (proc_at s q) = pid) \<longleftrightarrow>
          (\<exists>h'. sl_waits s h = Some h' \<and>
            (\<exists>m < n. \<exists>q. hops (sl_waits s) m h' = Some q \<and> p_pid (proc_at s q) = pid))"
        (is "?l \<longleftrightarrow> ?r")
      proof
        assume ?l
        then obtain m q where m: "m < Suc n" "hops (sl_waits s) m h = Some q" "p_pid (proc_at s q) = pid"
          by blast
        with False obtain k where k: "m = Suc k" by (cases m) auto
        with m(2) obtain h' where "sl_waits s h = Some h'" "hops (sl_waits s) k h' = Some q"
          by (auto simp only: hops_Suc_left split: Option.bind_splits)
        with m k show ?r by auto
      next
        assume ?r
        then obtain h' m q where "sl_waits s h = Some h'" "m < n" "hops (sl_waits s) m h' = Some q"
          "p_pid (proc_at s q) = pid" by blast
        then show ?l by (intro exI [of _ "Suc m"]) (simp only: hops_Suc_left bind.bind_lunit, simp)
      qed
      have "wcd_loop (Suc n) s pid owner_pid = 1 \<longleftrightarrow>
          (\<exists>h' m q. sl_waits s h = Some h' \<and> m < n \<and> hops (sl_waits s) m h' = Some q \<and>
             p_pid (proc_at s q) = pid)"
      proof (cases "p_waiting_for_lock (proc_at s h)")
        case None
        then have "sl_waits s h = None" by (simp add: sl_waits_def)
        with None Some h(4) False show ?thesis by simp
      next
        case (Some l)
        then have "sl_waits s h = (if sl_locked (sleeplocks s l) = 0 then None
            else pid2proc s (sl_pid (sleeplocks s l)))" by (simp add: sl_waits_def)
        with Some \<open>pid2proc s owner_pid = Some h\<close> h(4) False Suc.IH [of "sl_pid (sleeplocks s l)"]
        show ?thesis by simp
      qed
      then show ?thesis using step Some by auto
    qed
  qed
qed simp

text \<open>
  C4. Detection at acquisition is exact: when a process is about to sleep on a held lock,
  \<open>would_create_deadlock\<close> returns 1 if the process waits, through the holders of the locks
  that others wait for, for itself, and 0 otherwise. The bound of \<open>NPROC\<close> hops never cuts
  the search short.
\<close>

theorem would_create_deadlock_exact:
  assumes "pids_unique s" "p < NPROC" "p_state (proc_at s p) \<noteq> UNUSED"
    and "p_waiting_for_lock (proc_at s p) = Some lk" "sl_locked (sleeplocks s lk) \<noteq> 0"
  shows "would_create_deadlock (Some p) (Some lk) s = (if on_cycle (sl_waits s) p then 1 else 0)"
proof -
  let ?w = "would_create_deadlock (Some p) (Some lk) s"
  have h: "sl_waits s p = pid2proc s (sl_pid (sleeplocks s lk))"
    using assms(4,5) by (simp add: sl_waits_def)
  have "?w = 1 \<longleftrightarrow> on_cycle (sl_waits s) p"
  proof
    assume "?w = 1"
    then obtain h m q where w: "sl_waits s p = Some h" "hops (sl_waits s) m h = Some q"
      "p_pid (proc_at s q) = p_pid (proc_at s p)"
      using h by (auto simp: would_create_deadlock_def wcd_loop_iff)
    have q: "q < NPROC" "p_state (proc_at s q) \<noteq> UNUSED"
      using sl_graph.hops_nodes [OF sl_graph.waits_nodes [OF w(1)] w(2)]
        hops_used [OF sl_waits_used [OF w(1)] w(2)] by auto
    then have "q = p" using assms(1-3) w(3) unfolding pids_unique_def by blast
    then have "hops (sl_waits s) (Suc m) p = Some p" using w by (simp only: hops_Suc_left bind.bind_lunit)
    then show "on_cycle (sl_waits s) p" unfolding on_cycle_def by blast
  next
    assume "on_cycle (sl_waits s) p"
    then obtain n where "hops (sl_waits s) (Suc n) p = Some p"
      by (metis on_cycle_def gr0_conv_Suc)
    then obtain q where q: "sl_waits s p = Some q" "hops (sl_waits s) n q = Some p"
      by (auto simp only: hops_Suc_left split: Option.bind_splits)
    obtain m where "m < card {..<NPROC}" "hops (sl_waits s) m q = Some p"
      using sl_graph.short_walk [OF sl_graph.waits_nodes [OF q(1)] q(2)] by blast
    then show "?w = 1" using q(1) h by (auto simp: would_create_deadlock_def wcd_loop_iff)
  qed
  moreover have "?w \<in> {0, 1}" using wcd_loop_01 by (simp add: would_create_deadlock_def)
  ultimately show ?thesis by auto
qed

section \<open>Recovery\<close>

text \<open>The processes that the two walks visit.\<close>

fun wait_chain :: "nat \<Rightarrow> 's sltable_scheme \<Rightarrow> int \<Rightarrow> int \<Rightarrow> nat list" where
  "wait_chain 0 s start_pid owner_pid = []"
| "wait_chain (Suc n) s start_pid owner_pid =
     (if owner_pid > 0 \<and> owner_pid \<noteq> start_pid then
        case pid2proc s owner_pid of
          None \<Rightarrow> []
        | Some owner \<Rightarrow> owner #
            (case p_waiting_for_lock (proc_at s owner) of
               None \<Rightarrow> []
             | Some l \<Rightarrow> if sl_locked (sleeplocks s l) = 0 then []
                         else wait_chain n s start_pid (sl_pid (sleeplocks s l)))
      else [])"

text \<open>States that agree on what the walks read.\<close>

definition same_waits :: "'s sltable_scheme \<Rightarrow> 's sltable_scheme \<Rightarrow> bool" where
  "same_waits s t \<longleftrightarrow> sleeplocks t = sleeplocks s \<and>
     (\<forall>i. p_pid (proc_at t i) = p_pid (proc_at s i) \<and>
          (p_state (proc_at t i) = UNUSED) = (p_state (proc_at s i) = UNUSED) \<and>
          p_waiting_for_lock (proc_at t i) = p_waiting_for_lock (proc_at s i) \<and>
          p_energy_consumed (proc_at t i) = p_energy_consumed (proc_at s i))"

lemma sltable_more_upd_proc [simp]:
  "sleeplocks (upd_proc i f s) = sleeplocks s" "demo_locks_inited (upd_proc i f s) = demo_locks_inited s"
  by (simp_all add: upd_proc_def)

lemma upd_proc_field:
  "(\<And>q. g (f q) = g q) \<Longrightarrow> g (procs (upd_proc i f s) ! j) = g (procs s ! j)"
  by (cases "i = j"; cases "i < length (procs s)") (simp_all add: list_update_beyond)

lemma same_waits_upd:
  assumes "\<And>q. p_pid (f q) = p_pid q" "\<And>q. (p_state (f q) = UNUSED) = (p_state q = UNUSED)"
    "\<And>q. p_waiting_for_lock (f q) = p_waiting_for_lock q"
    "\<And>q. p_energy_consumed (f q) = p_energy_consumed q"
  shows "same_waits s (upd_proc i f s)"
  unfolding same_waits_def
  by (intro conjI allI sltable_more_upd_proc upd_proc_field assms
      upd_proc_field [of "\<lambda>q. p_state q = UNUSED" f])

lemma same_waits_trans: "same_waits s t \<Longrightarrow> same_waits t u \<Longrightarrow> same_waits s u"
  by (simp add: same_waits_def)

lemma pid2proc_same: "same_waits s t \<Longrightarrow> pid2proc t pid = pid2proc s pid"
  by (simp add: same_waits_def pid2proc_def)

lemma chain_same: "same_waits s t \<Longrightarrow> wait_chain n t start_pid owner_pid = wait_chain n s start_pid owner_pid"
proof (induction n arbitrary: owner_pid)
  case (Suc n)
  then show ?case
    by (auto simp: pid2proc_same) (auto simp: same_waits_def split: option.splits)
qed simp

lemma sl_waits_same: "same_waits s t \<Longrightarrow> sl_waits t = sl_waits s"
proof
  fix p assume same: "same_waits s t"
  then have "p_waiting_for_lock (proc_at t p) = p_waiting_for_lock (proc_at s p)"
    "sleeplocks t = sleeplocks s" by (simp_all add: same_waits_def)
  then show "sl_waits t p = sl_waits s p"
    by (simp add: sl_waits_def pid2proc_same [OF same] split: option.split)
qed

text \<open>Setting the flag of a list of processes.\<close>

definition set_flags :: "int \<Rightarrow> nat list \<Rightarrow> 's sltable_scheme \<Rightarrow> 's sltable_scheme" where
  "set_flags b ps s = fold (\<lambda>p. upd_proc p (\<lambda>q. q\<lparr>p_in_deadlock := b\<rparr>)) ps s"

lemma set_flags_simps [simp]:
  "set_flags b [] s = s"
  "set_flags b (p # ps) s = set_flags b ps (upd_proc p (\<lambda>q. q\<lparr>p_in_deadlock := b\<rparr>) s)"
  by (simp_all add: set_flags_def)

lemma same_waits_flag: "same_waits s (upd_proc i (\<lambda>q. q\<lparr>p_in_deadlock := b\<rparr>) s)"
  by (rule same_waits_upd) simp_all

lemma pick_victim_cong:
  "(\<And>i. p_energy_consumed (ps ! i) = p_energy_consumed (ps' ! i)) \<Longrightarrow>
   pick_victim ps ds v m = pick_victim ps' ds v m"
  by (induction ds arbitrary: v m) simp_all

lemma mark_cycle_eq:
  "mark_cycle n start_pid owner_pid v m s =
     (pick_victim (procs s) (wait_chain n s start_pid owner_pid) v m,
      set_flags 1 (wait_chain n s start_pid owner_pid) s)"
proof (induction n arbitrary: owner_pid v m s)
  case (Suc n)
  show ?case
  proof (cases "owner_pid > 0 \<and> owner_pid \<noteq> start_pid \<and> pid2proc s owner_pid \<noteq> None")
    case True
    then obtain p where p: "pid2proc s owner_pid = Some p" by blast
    let ?s = "upd_proc p (\<lambda>q. q\<lparr>p_in_deadlock := 1\<rparr>) s"
    have same: "same_waits s ?s" by (rule same_waits_flag)
    have e: "p_energy_consumed (proc_at ?s i) = p_energy_consumed (proc_at s i)"
      "p_waiting_for_lock (proc_at ?s i) = p_waiting_for_lock (proc_at s i)" for i
      using same by (simp_all add: same_waits_def)
    have pv: "pick_victim (procs ?s) ds w k = pick_victim (procs s) ds w k" for ds w k
      using e(1) by (rule pick_victim_cong)
    show ?thesis
      using True p Suc.IH [of _ _ _ ?s]
      by (simp del: upd_proc_simps(20) add: Let_def e pv chain_same [OF same] split: option.split)
  next
    case False
    then show ?thesis by auto
  qed
qed simp

lemma unmark_cycle_eq:
  "unmark_cycle n start_pid owner_pid s = set_flags 0 (wait_chain n s start_pid owner_pid) s"
proof (induction n arbitrary: owner_pid s)
  case (Suc n)
  show ?case
  proof (cases "owner_pid > 0 \<and> owner_pid \<noteq> start_pid \<and> pid2proc s owner_pid \<noteq> None")
    case True
    then obtain p where p: "pid2proc s owner_pid = Some p" by blast
    let ?s = "upd_proc p (\<lambda>q. q\<lparr>p_in_deadlock := 0\<rparr>) s"
    have same: "same_waits s ?s" by (rule same_waits_flag)
    have e: "p_waiting_for_lock (proc_at ?s i) = p_waiting_for_lock (proc_at s i)" for i
      using same by (simp_all add: same_waits_def)
    show ?thesis
      using True p Suc.IH [of _ ?s]
      by (simp del: upd_proc_simps(20) add: Let_def e chain_same [OF same] split: option.split)
  next
    case False
    then show ?thesis by auto
  qed
qed simp

lemma set_flags_other:
  "set_flags b ps s = s\<lparr>procs := procs (set_flags b ps s)\<rparr>"
  "length (procs (set_flags b ps s)) = length (procs s)"
proof (induction ps arbitrary: s)
  case (Cons p ps)
  {
    case 1
    show ?case
      using Cons(1) [of "upd_proc p (\<lambda>q. q\<lparr>p_in_deadlock := b\<rparr>) s"] by (simp add: upd_proc_def)
  next
    case 2
    show ?case
      using Cons(2) [of "upd_proc p (\<lambda>q. q\<lparr>p_in_deadlock := b\<rparr>) s"] by simp
  }
qed simp_all

lemma set_flags_fields [simp]:
  "held (set_flags b ps s) = held s" "sleeplocks (set_flags b ps s) = sleeplocks s"
  "uart_out (set_flags b ps s) = uart_out s"
  by (subst set_flags_other(1), simp)+

lemma set_flags_nth:
  "i < length (procs s) \<Longrightarrow> procs (set_flags b ps s) ! i =
     (if i \<in> set ps then (procs s ! i)\<lparr>p_in_deadlock := b\<rparr> else procs s ! i)"
proof (induction ps arbitrary: s)
  case (Cons p ps)
  then show ?case by (cases "i = p") simp_all
qed simp

lemma same_waits_flags: "same_waits s (set_flags b ps s)"
proof (induction ps arbitrary: s)
  case (Cons p ps)
  show ?case unfolding set_flags_simps by (rule same_waits_trans [OF same_waits_flag Cons.IH])
qed (simp add: same_waits_def)

text \<open>The cycle as the recovery sees it, and the victim it picks.\<close>

definition rec_chain :: "nat \<Rightarrow> sleeplock_id \<Rightarrow> 's sltable_scheme \<Rightarrow> nat list" where
  "rec_chain p lk s = wait_chain NPROC s (p_pid (proc_at s p)) (sl_pid (sleeplocks s lk))"

definition rec_victim :: "nat \<Rightarrow> sleeplock_id \<Rightarrow> 's sltable_scheme \<Rightarrow> nat" where
  "rec_victim p lk s = pick_victim (procs s) (rec_chain p lk s) p (p_energy_consumed (proc_at s p))"

text \<open>The entry of process \<open>i\<close> after a recovery.\<close>

definition rec_entry :: "nat \<Rightarrow> sleeplock_id \<Rightarrow> 's sltable_scheme \<Rightarrow> nat \<Rightarrow> proc" where
  "rec_entry p lk s i =
     (let q = (if i = rec_victim p lk s then mark_killed (proc_at s i) else proc_at s i)
      in if i \<in> insert p (set (rec_chain p lk s)) then q\<lparr>p_in_deadlock := 0\<rparr> else q)"

lemma wait_chain_Suc:
  "wait_chain (Suc n) s start_pid owner_pid = [] \<or>
   (\<exists>h. pid2proc s owner_pid = Some h \<and>
      (wait_chain (Suc n) s start_pid owner_pid = [h] \<or>
       (\<exists>l. wait_chain (Suc n) s start_pid owner_pid =
              h # wait_chain n s start_pid (sl_pid (sleeplocks s l)))))"
  by (auto split: option.split)

lemma wait_chain_nodes: "q \<in> set (wait_chain n s start_pid owner_pid) \<Longrightarrow> q < NPROC"
proof (induction n arbitrary: owner_pid)
  case (Suc n)
  show ?case
    using wait_chain_Suc [of n s start_pid owner_pid] Suc.prems Suc.IH
    by (auto simp del: wait_chain.simps dest: pid2proc_SomeD(1))
qed simp

lemma rec_victim_max:
  "rec_victim p lk s \<in> insert p (set (rec_chain p lk s)) \<and>
   (\<forall>d \<in> insert p (set (rec_chain p lk s)). p_energy_consumed (proc_at s d) \<le>
      p_energy_consumed (proc_at s (rec_victim p lk s)))"
  unfolding rec_victim_def by (rule pick_victim_max) simp

lemma mark_killed_flag:
  "(mark_killed q)\<lparr>p_in_deadlock := b\<rparr> = mark_killed (q\<lparr>p_in_deadlock := b\<rparr>)"
  by (simp add: mark_killed_def Let_def)

lemma mark_killed_same: "same_waits s (upd_proc i mark_killed s)"
  by (rule same_waits_upd) (simp_all add: mark_killed_def Let_def)

lemma rec_chain_nodes: "q \<in> set (rec_chain p lk s) \<Longrightarrow> q < NPROC"
  unfolding rec_chain_def by (rule wait_chain_nodes)

lemma recovery_eq:
  assumes "Pr_lock \<notin> set (held s)" "p < NPROC" "length (procs s) = NPROC"
  shows "\<exists>out t. energy_aware_deadlock_recovery p lk s = ret (p_pid (proc_at s (rec_victim p lk s))) t \<and>
     t = s\<lparr>uart_out := uart_out s @ out, procs := map (rec_entry p lk s) [0..<NPROC]\<rparr>"
proof -
  let ?C = "rec_chain p lk s" and ?v = "rec_victim p lk s"
  let ?s1 = "upd_proc p (\<lambda>q. q\<lparr>p_in_deadlock := 1\<rparr>) s"
  let ?s2 = "set_flags 1 ?C ?s1"
  have same1: "same_waits s ?s1" by (rule same_waits_flag)
  have same2: "same_waits s ?s2" by (rule same_waits_trans [OF same1 same_waits_flags])
  have C: "wait_chain NPROC u (p_pid (proc_at s p)) (sl_pid (sleeplocks s lk)) = ?C"
    if "same_waits s u" for u :: "'a sltable_scheme"
    using chain_same [OF that] by (simp add: rec_chain_def)
  have pid: "p_pid (proc_at u i) = p_pid (proc_at s i)" "sleeplocks u = sleeplocks s"
    "p_energy_consumed (proc_at u i) = p_energy_consumed (proc_at s i)"
    if "same_waits s u" for u :: "'a sltable_scheme" and i
    using that by (simp_all add: same_waits_def)
  have v: "pick_victim (procs ?s1) ?C p (p_energy_consumed (proc_at s p)) = ?v"
    unfolding rec_victim_def by (rule pick_victim_cong) (rule pid(3) [OF same1])
  have mark: "mark_cycle NPROC (p_pid (proc_at s p)) (sl_pid (sleeplocks ?s1 lk)) p
      (p_energy_consumed (proc_at ?s1 p)) ?s1 = (?v, ?s2)"
    unfolding mark_cycle_eq pid(2) [OF same1] pid(3) [OF same1] C [OF same1] v by (rule refl)
  have f: "format (''deadlock recovery: killing pid %d (energy_consumed=%d) to break deadlock'' @ nl)
      [VNum 0, VNum 0] \<noteq> None" by code_simp
  have "Pr_lock \<notin> set (held ?s2)" using assms(1) by simp
  from printf_total [OF this _ f, of "[vint (p_pid (proc_at ?s2 ?v)), VNum (p_energy_consumed (proc_at ?s2 ?v))]"]
  obtain out where
    out: "printf (''deadlock recovery: killing pid %d (energy_consumed=%d) to break deadlock'' @ nl)
      [vint (p_pid (proc_at ?s2 ?v)), VNum (p_energy_consumed (proc_at ?s2 ?v))] ?s2
      = ret () (?s2\<lparr>uart_out := uart_out s @ out\<rparr>)"
    by auto
  let ?s3 = "?s2\<lparr>uart_out := uart_out s @ out\<rparr>"
  let ?s4 = "upd_proc ?v mark_killed ?s3"
  let ?s5 = "upd_proc p (\<lambda>q. q\<lparr>p_in_deadlock := 0\<rparr>) ?s4"
  let ?s6 = "set_flags 0 ?C ?s5"
  have len: "length (procs ?s2) = NPROC" using assms(3) by (simp add: set_flags_other(2))
  have vn: "?v < NPROC"
    using rec_victim_max [of p lk s] rec_chain_nodes [of ?v p lk s] assms(2) by auto
  have same3: "same_waits s ?s3" using same2 by (simp add: same_waits_def)
  have same5: "same_waits s ?s5"
    by (rule same_waits_trans [OF same_waits_trans [OF same3 mark_killed_same] same_waits_flag])
  have kill: "(if p_state (proc_at (upd_proc ?v (\<lambda>q. q\<lparr>p_killed := 1\<rparr>) ?s3) ?v) = SLEEPING
      then upd_proc ?v (\<lambda>q. q\<lparr>p_state := RUNNABLE\<rparr>) (upd_proc ?v (\<lambda>q. q\<lparr>p_killed := 1\<rparr>) ?s3)
      else upd_proc ?v (\<lambda>q. q\<lparr>p_killed := 1\<rparr>) ?s3) = ?s4"
    using vn len by (simp add: upd_proc_def mark_killed_def Let_def)
  have eq: "energy_aware_deadlock_recovery p lk s = ret (p_pid (proc_at ?s6 ?v)) ?s6"
    unfolding energy_aware_deadlock_recovery_def Let_def mark prod.case out bindK_ret kill
      unmark_cycle_eq pid(2) [OF same5] C [OF same5] by (rule refl)
  have pid6: "p_pid (proc_at ?s6 ?v) = p_pid (proc_at s ?v)"
    by (rule pid(1) [OF same_waits_trans [OF same5 same_waits_flags]])
  have procs6: "procs ?s6 = map (rec_entry p lk s) [0..<NPROC]"
  proof (rule nth_equalityI)
    show "length (procs ?s6) = length (map (rec_entry p lk s) [0..<NPROC])"
      using len by (simp add: set_flags_other(2))
    fix i assume "i < length (procs ?s6)"
    then have i: "i < NPROC" using len by (simp add: set_flags_other(2))
    have "procs ?s2 ! i = (if i \<in> insert p (set ?C) then (proc_at s i)\<lparr>p_in_deadlock := 1\<rparr> else proc_at s i)"
      using i assms(2,3) by (auto simp: set_flags_nth nth_list_update)
    then show "procs ?s6 ! i = map (rec_entry p lk s) [0..<NPROC] ! i"
      using i len vn assms(2)
      by (cases "i = ?v"; cases "i = p"; cases "i \<in> set ?C")
        (simp_all add: set_flags_nth nth_list_update rec_entry_def Let_def mark_killed_flag)
  qed
  have "?s6 = s\<lparr>uart_out := uart_out s @ out, procs := procs ?s6\<rparr>"
  proof -
    obtain ps where "?s2 = s\<lparr>procs := ps\<rparr>"
      by (rule that, subst set_flags_other(1)) (simp add: upd_proc_def)
    then obtain ps' where s5: "?s5 = s\<lparr>uart_out := uart_out s @ out, procs := ps'\<rparr>"
      by (simp add: upd_proc_def)
    show ?thesis by (subst set_flags_other(1)) (simp add: s5)
  qed
  then have "energy_aware_deadlock_recovery p lk s = ret (p_pid (proc_at s ?v))
      (s\<lparr>uart_out := uart_out s @ out, procs := map (rec_entry p lk s) [0..<NPROC]\<rparr>)"
    using eq [unfolded pid6] unfolding procs6 by (simp only:)
  then show ?thesis by blast
qed

text \<open>Up to the return to \<open>start_pid\<close>, the walk visits what the wait-for graph reaches.\<close>

lemma wait_chain_mem:
  "q \<in> set (wait_chain n s start_pid owner_pid) \<longleftrightarrow>
     (\<exists>h m. pid2proc s owner_pid = Some h \<and> m < n \<and> hops (sl_waits s) m h = Some q \<and>
        (\<forall>k \<le> m. \<forall>r. hops (sl_waits s) k h = Some r \<longrightarrow> p_pid (proc_at s r) \<noteq> start_pid))"
proof (induction n arbitrary: owner_pid)
  case (Suc n)
  show ?case
  proof (cases "pid2proc s owner_pid")
    case None
    then have "wait_chain (Suc n) s start_pid owner_pid = []" by simp
    with None show ?thesis by (simp del: wait_chain.simps)
  next
    case (Some h)
    note h = pid2proc_SomeD [OF Some]
    show ?thesis
    proof (cases "owner_pid = start_pid")
      case True
      then have "\<not> (\<forall>k \<le> m. \<forall>r. hops (sl_waits s) k h = Some r \<longrightarrow> p_pid (proc_at s r) \<noteq> start_pid)" for m
        using h(2) by (auto intro: exI [of _ "0 :: nat"])
      moreover have "wait_chain (Suc n) s start_pid owner_pid = []" using True by simp
      ultimately show ?thesis using Some by (simp del: wait_chain.simps)
    next
      case False
      let ?ok = "\<lambda>m g. \<forall>k \<le> m. \<forall>r. hops (sl_waits s) k g = Some r \<longrightarrow> p_pid (proc_at s r) \<noteq> start_pid"
      have nxt: "wait_chain (Suc n) s start_pid owner_pid = h #
          (case p_waiting_for_lock (proc_at s h) of None \<Rightarrow> []
           | Some l \<Rightarrow> if sl_locked (sleeplocks s l) = 0 then []
                       else wait_chain n s start_pid (sl_pid (sleeplocks s l)))"
        using Some False h(4) by simp
      have rest: "q \<in> set (case p_waiting_for_lock (proc_at s h) of None \<Rightarrow> []
           | Some l \<Rightarrow> if sl_locked (sleeplocks s l) = 0 then []
                       else wait_chain n s start_pid (sl_pid (sleeplocks s l))) \<longleftrightarrow>
          (\<exists>g m. sl_waits s h = Some g \<and> m < n \<and> hops (sl_waits s) m g = Some q \<and> ?ok m g)"
      proof (cases "p_waiting_for_lock (proc_at s h)")
        case None
        then have "sl_waits s h = None" by (simp add: sl_waits_def)
        with None show ?thesis by simp
      next
        case l: (Some l)
        then have "sl_waits s h = (if sl_locked (sleeplocks s l) = 0 then None
            else pid2proc s (sl_pid (sleeplocks s l)))" by (simp add: sl_waits_def)
        with l Suc.IH [of "sl_pid (sleeplocks s l)"] show ?thesis by simp
      qed
      have ok_Suc: "?ok (Suc m) h \<longleftrightarrow> ?ok m g" if "sl_waits s h = Some g" for m g
      proof -
        have "hops (sl_waits s) (Suc k) h = hops (sl_waits s) k g" for k
          using that by (simp only: hops_Suc_left bind.bind_lunit)
        moreover have "(\<forall>k \<le> Suc m. P k) \<longleftrightarrow> P 0 \<and> (\<forall>k \<le> m. P (Suc k))" for P
          by (metis Suc_le_mono le0 not0_implies_Suc)
        ultimately show ?thesis using h(2) False by auto
      qed
      have "(\<exists>m < Suc n. hops (sl_waits s) m h = Some q \<and> ?ok m h) \<longleftrightarrow>
          q = h \<or> (\<exists>g m. sl_waits s h = Some g \<and> m < n \<and> hops (sl_waits s) m g = Some q \<and> ?ok m g)"
        (is "?l \<longleftrightarrow> ?r")
      proof
        assume ?l
        then obtain m where m: "m < Suc n" "hops (sl_waits s) m h = Some q" "?ok m h" by blast
        show ?r
        proof (cases m)
          case (Suc k)
          with m(2) obtain g where g: "sl_waits s h = Some g" "hops (sl_waits s) k g = Some q"
            by (auto simp only: hops_Suc_left split: Option.bind_splits)
          then show ?thesis using m Suc ok_Suc [OF g(1)] by auto
        qed (use m in simp)
      next
        assume ?r
        then show ?l
        proof (elim disjE exE conjE)
          assume "q = h"
          then show ?l using h(2) False by (intro exI [of _ 0]) simp
        next
          fix g m assume g: "sl_waits s h = Some g" "m < n" "hops (sl_waits s) m g = Some q" "?ok m g"
          have "hops (sl_waits s) (Suc m) h = Some q"
            using g(1,3) by (simp only: hops_Suc_left bind.bind_lunit)
          then show ?l using g ok_Suc [OF g(1)] by (intro exI [of _ "Suc m"]) blast
        qed
      qed
      then show ?thesis unfolding nxt using rest Some by (simp del: wait_chain.simps)
    qed
  qed
qed simp

lemma rec_chain_cycle:
  assumes "pids_unique s" "p < NPROC" "p_state (proc_at s p) \<noteq> UNUSED"
    and "p_waiting_for_lock (proc_at s p) = Some lk" "sl_locked (sleeplocks s lk) \<noteq> 0"
  shows "insert p (set (rec_chain p lk s)) = {q. \<exists>n. hops (sl_waits s) n p = Some q}"
proof (intro set_eqI iffI)
  have w: "sl_waits s p = pid2proc s (sl_pid (sleeplocks s lk))"
    using assms(4,5) by (simp add: sl_waits_def)
  note mem = wait_chain_mem [of _ NPROC s "p_pid (proc_at s p)" "sl_pid (sleeplocks s lk)",
      folded rec_chain_def w]
  {
    fix q assume "q \<in> insert p (set (rec_chain p lk s))"
    then consider "q = p" | h m where "sl_waits s p = Some h" "hops (sl_waits s) m h = Some q"
      using mem by blast
    then show "q \<in> {q. \<exists>n. hops (sl_waits s) n p = Some q}"
    proof cases
      case 1
      then show ?thesis by (auto intro: exI [of _ 0])
    next
      case (2 h m)
      then have "hops (sl_waits s) (Suc m) p = Some q" by (simp only: hops_Suc_left bind.bind_lunit)
      then show ?thesis by blast
    qed
  next
    fix q assume "q \<in> {q. \<exists>n. hops (sl_waits s) n p = Some q}"
    then have ex: "\<exists>n. hops (sl_waits s) n p = Some q" by simp
    define n where "n = (LEAST n. hops (sl_waits s) n p = Some q)"
    have n: "hops (sl_waits s) n p = Some q" unfolding n_def by (rule LeastI_ex [OF ex])
    have least: "n \<le> k" if "hops (sl_waits s) k p = Some q" for k
      unfolding n_def using that by (rule Least_le)
    show "q \<in> insert p (set (rec_chain p lk s))"
    proof (cases n)
      case 0
      then show ?thesis using n by simp
    next
      case (Suc m)
      with n obtain h where h: "sl_waits s p = Some h" "hops (sl_waits s) m h = Some q"
        by (auto simp only: hops_Suc_left split: Option.bind_splits)
      obtain m' where m': "m' < NPROC" "hops (sl_waits s) m' h = Some q"
        using sl_graph.short_walk [OF sl_graph.waits_nodes [OF h(1)] h(2)] by auto
      have "hops (sl_waits s) (Suc m') p = Some q"
        using h(1) m'(2) by (simp only: hops_Suc_left bind.bind_lunit)
      then have "m < NPROC" using least [of "Suc m'"] Suc m'(1) by simp
      moreover have "p_pid (proc_at s r) \<noteq> p_pid (proc_at s p)"
        if k: "k \<le> m" "hops (sl_waits s) k h = Some r" for k r
      proof
        assume pid: "p_pid (proc_at s r) = p_pid (proc_at s p)"
        have "r < NPROC" "p_state (proc_at s r) \<noteq> UNUSED"
          using sl_graph.hops_nodes [OF sl_graph.waits_nodes [OF h(1)] k(2)]
            hops_used [OF sl_waits_used [OF h(1)] k(2)] by auto
        then have "r = p" using assms(1-3) pid unfolding pids_unique_def by blast
        then have "hops (sl_waits s) (Suc k) p = Some p"
          using h(1) k(2) by (simp only: hops_Suc_left bind.bind_lunit)
        then have "hops (sl_waits s) (n - Suc k) p = Some q"
          using n hops_add [of "sl_waits s" "Suc k" "n - Suc k" p] k(1) Suc
          by (simp only: bind.bind_lunit) simp
        then show False using least [of "n - Suc k"] Suc by simp
      qed
      ultimately show ?thesis using mem h by blast
    qed
  }
qed

text \<open>
  C8. Recovery at acquisition acts on the processes that the caller waits for, directly or
  through others, and on the caller; when the caller is deadlocked these are the processes of
  its cycle. It kills one of them, one that has consumed at least as much energy as every
  other, and makes it runnable if it slept. It leaves the deadlock flag of all of them clear.
  No other entry of the table, no sleep lock and no spinlock changes.
\<close>

theorem recovery_exact:
  assumes "pids_unique s" "p < NPROC" "p_state (proc_at s p) \<noteq> UNUSED" "length (procs s) = NPROC"
    and "p_waiting_for_lock (proc_at s p) = Some lk" "sl_locked (sleeplocks s lk) \<noteq> 0"
    and "Pr_lock \<notin> set (held s)"
    and "C = {q. \<exists>n. hops (sl_waits s) n p = Some q}"
  shows "\<exists>v t. energy_aware_deadlock_recovery p lk s = ret (p_pid (proc_at s v)) t \<and> v \<in> C \<and>
    (\<forall>d \<in> C. p_energy_consumed (proc_at s d) \<le> p_energy_consumed (proc_at s v)) \<and>
    sleeplocks t = sleeplocks s \<and> held t = held s \<and>
    (\<forall>i < NPROC. proc_at t i =
       (let q = (if i = v then mark_killed (proc_at s i) else proc_at s i)
        in if i \<in> C then q\<lparr>p_in_deadlock := 0\<rparr> else q))"
proof -
  have C: "insert p (set (rec_chain p lk s)) = C"
    using rec_chain_cycle [OF assms(1-3,5,6)] assms(8) by simp
  note max = rec_victim_max [of p lk s, unfolded C]
  obtain out where "energy_aware_deadlock_recovery p lk s = ret (p_pid (proc_at s (rec_victim p lk s)))
      (s\<lparr>uart_out := uart_out s @ out, procs := map (rec_entry p lk s) [0..<NPROC]\<rparr>)"
    using recovery_eq [OF assms(7,2,4), of lk] by blast
  then show ?thesis
    using max
    by (intro exI [of _ "rec_victim p lk s"] exI [of _ "s\<lparr>uart_out := uart_out s @ out,
          procs := map (rec_entry p lk s) [0..<NPROC]\<rparr>"]) (simp add: rec_entry_def C)
qed

section \<open>Acquiring and releasing\<close>

lemma upd_sl_simps [simp]:
  "held (upd_sl lk f s) = held s" "procs (upd_sl lk f s) = procs s"
  "curproc (upd_sl lk f s) = curproc s"
  "sleeplocks (upd_sl lk f s) = (sleeplocks s)(lk := f (sleeplocks s lk))"
  by (simp_all add: upd_sl_def)

text \<open>How a thread that blocks leaves the entries of the table.\<close>

definition blocked_entries :: "nat \<Rightarrow> sleeplock_id \<Rightarrow> proc list \<Rightarrow> proc list \<Rightarrow> bool" where
  "blocked_entries p lk ps qs \<longleftrightarrow> length qs = NPROC \<and>
     p_state (qs ! p) = SLEEPING \<and> p_chan (qs ! p) = Some (Chan_sleeplock lk) \<and>
     (\<forall>i < NPROC. p_pid (qs ! i) = p_pid (ps ! i) \<and>
        (p_state (qs ! i) = UNUSED \<longleftrightarrow> i \<noteq> p \<and> p_state (ps ! i) = UNUSED) \<and>
        p_waiting_for_lock (qs ! i) = (if i = p then Some lk else p_waiting_for_lock (ps ! i)))"

lemma mark_killed_simps [simp]:
  "p_pid (mark_killed q) = p_pid q" "p_waiting_for_lock (mark_killed q) = p_waiting_for_lock q"
  "p_state (mark_killed q) = UNUSED \<longleftrightarrow> p_state q = UNUSED"
  by (simp_all add: mark_killed_def Let_def)

lemma rec_entry_simps [simp]:
  "p_pid (rec_entry p lk s i) = p_pid (proc_at s i)"
  "p_waiting_for_lock (rec_entry p lk s i) = p_waiting_for_lock (proc_at s i)"
  "p_state (rec_entry p lk s i) = UNUSED \<longleftrightarrow> p_state (proc_at s i) = UNUSED"
  by (simp_all add: rec_entry_def Let_def)

lemma acquiresleep_loop_blocked:
  assumes "held s = [Sleep_lk lk]" "curproc s = Some p" "p < NPROC" "length (procs s) = NPROC"
    and "sl_locked (sleeplocks s lk) \<noteq> 0"
  shows "\<exists>out qs. acquiresleep_loop p lk s =
      Inl (Switch (s\<lparr>held := [Proc_lock p], uart_out := out, procs := qs\<rparr>)) \<and>
      blocked_entries p lk (procs s) qs"
proof -
  let ?s1 = "upd_proc p (\<lambda>q. q\<lparr>p_waiting_for_lock := Some lk\<rparr>) s"
  let ?s2 = "upd_proc p (\<lambda>q. q\<lparr>p_deadlock_reports := p_deadlock_reports q + 1\<rparr>) ?s1"
  let ?detect = "if would_create_deadlock (Some p) (Some lk) ?s1 \<noteq> 0 then
      let s = ?s2 in
      bindK (printf (''deadlock warning: pid %d waits for %s held by pid %d'' @ nl)
              [vint (p_pid (proc_at s p)), VStr (Some (sl_name (sleeplocks s lk))),
               vint (sl_pid (sleeplocks s lk))] s) (\<lambda>_ s.
      bindK (energy_aware_deadlock_recovery p lk s) (\<lambda>_ s. ret () s))
    else ret () ?s1"
  have "\<exists>out qs. ?detect = ret () (s\<lparr>uart_out := out, procs := qs\<rparr>) \<and> length qs = NPROC \<and>
      (\<forall>i < NPROC. p_pid (qs ! i) = p_pid (proc_at s i) \<and>
        (p_state (qs ! i) = UNUSED \<longleftrightarrow> p_state (proc_at s i) = UNUSED) \<and>
        p_waiting_for_lock (qs ! i) = (if i = p then Some lk else p_waiting_for_lock (proc_at s i)))"
  proof (cases "would_create_deadlock (Some p) (Some lk) ?s1 = 0")
    case True
    then have "?detect = ret () (s\<lparr>uart_out := uart_out s, procs := procs ?s1\<rparr>)"
      by (simp add: upd_proc_def)
    then show ?thesis
      using assms(3,4)
      by (intro exI [of _ "uart_out s"] exI [of _ "procs ?s1"]) (simp add: nth_list_update)
  next
    case False
    have f: "format (''deadlock warning: pid %d waits for %s held by pid %d'' @ nl)
        [VNum 0, VStr None, VNum 0] \<noteq> None" by code_simp
    have pr: "Pr_lock \<notin> set (held ?s2)" using assms(1) by simp
    from printf_total [OF pr _ f, of "[vint (p_pid (proc_at ?s2 p)), VStr (Some (sl_name (sleeplocks ?s2 lk))),
        vint (sl_pid (sleeplocks ?s2 lk))]"]
    obtain o1 where o1: "printf (''deadlock warning: pid %d waits for %s held by pid %d'' @ nl)
        [vint (p_pid (proc_at ?s2 p)), VStr (Some (sl_name (sleeplocks ?s2 lk))),
         vint (sl_pid (sleeplocks ?s2 lk))] ?s2 = ret () (?s2\<lparr>uart_out := uart_out ?s2 @ o1\<rparr>)"
      by auto
    let ?s3 = "?s2\<lparr>uart_out := uart_out ?s2 @ o1\<rparr>"
    have "Pr_lock \<notin> set (held ?s3)" "length (procs ?s3) = NPROC" using assms(1,4) by simp_all
    from recovery_eq [OF this(1) assms(3) this(2), of lk] obtain o2 r where
      rec: "energy_aware_deadlock_recovery p lk ?s3 =
        ret r (?s3\<lparr>uart_out := uart_out ?s3 @ o2, procs := map (rec_entry p lk ?s3) [0..<NPROC]\<rparr>)"
      by blast
    have "?detect = ret () (?s3\<lparr>uart_out := uart_out ?s3 @ o2, procs := map (rec_entry p lk ?s3) [0..<NPROC]\<rparr>)"
      unfolding if_P [OF False] Let_def o1 bindK_ret rec ..
    also have "\<dots> = ret () (s\<lparr>uart_out := uart_out ?s3 @ o2, procs := map (rec_entry p lk ?s3) [0..<NPROC]\<rparr>)"
      by (simp add: upd_proc_def)
    finally show ?thesis
      using assms(3,4)
      by (intro exI [of _ "uart_out ?s3 @ o2"] exI [of _ "map (rec_entry p lk ?s3) [0..<NPROC]"])
        (simp add: nth_list_update)
  qed
  then obtain out qs where d: "?detect = ret () (s\<lparr>uart_out := out, procs := qs\<rparr>)"
    "length qs = NPROC"
    "\<forall>i < NPROC. p_pid (qs ! i) = p_pid (proc_at s i) \<and>
        (p_state (qs ! i) = UNUSED \<longleftrightarrow> p_state (proc_at s i) = UNUSED) \<and>
        p_waiting_for_lock (qs ! i) = (if i = p then Some lk else p_waiting_for_lock (proc_at s i))"
    by blast
  let ?t = "s\<lparr>uart_out := out, procs := qs\<rparr>"
  have "acquiresleep_loop p lk s = sleep (Chan_sleeplock lk) (Some (Sleep_lk lk)) ?t"
    unfolding acquiresleep_loop_def Let_def [of ?s1] if_P [OF assms(5)] using d(1) by simp
  also have "\<dots> = Inl (Switch ((upd_proc p (\<lambda>q. q\<lparr>p_chan := Some (Chan_sleeplock lk), p_state := SLEEPING\<rparr>) ?t)
      \<lparr>held := [Proc_lock p]\<rparr>))"
    by (rule sleep_eq) (use assms d(2) in simp_all)
  also have "\<dots> = Inl (Switch (s\<lparr>held := [Proc_lock p], uart_out := out,
      procs := qs[p := (qs ! p)\<lparr>p_chan := Some (Chan_sleeplock lk), p_state := SLEEPING\<rparr>]\<rparr>))"
    by (simp add: upd_proc_def)
  finally have "acquiresleep_loop p lk s = Inl (Switch (s\<lparr>held := [Proc_lock p], uart_out := out,
      procs := qs[p := (qs ! p)\<lparr>p_chan := Some (Chan_sleeplock lk), p_state := SLEEPING\<rparr>]\<rparr>))" .
  moreover have "blocked_entries p lk (procs s)
      (qs[p := (qs ! p)\<lparr>p_chan := Some (Chan_sleeplock lk), p_state := SLEEPING\<rparr>])"
    using d(2,3) assms(3) by (auto simp: blocked_entries_def nth_list_update)
  ultimately show ?thesis by blast
qed

lemma acquiresleep_loop_free:
  assumes "held s = [Sleep_lk lk]" "p < NPROC" "length (procs s) = NPROC"
    and "sl_locked (sleeplocks s lk) = 0"
  shows "acquiresleep_loop p lk s =
      ret () ((upd_sl lk (\<lambda>l. l\<lparr>sl_locked := 1, sl_pid := p_pid (proc_at s p)\<rparr>)
                (upd_proc p (\<lambda>q. q\<lparr>p_waiting_for_lock := None\<rparr>) s))\<lparr>held := []\<rparr>)"
  using assms by (simp add: acquiresleep_loop_def Let_def kres_simps upd_sl_def)

lemma acquiresleep_enter:
  "held s = [] \<Longrightarrow> curproc s = Some p \<Longrightarrow>
   acquiresleep lk s = acquiresleep_loop p lk (s\<lparr>held := [Sleep_lk lk]\<rparr>)"
  by (simp add: acquiresleep_def kres_simps myproc_def)

lemma acquiresleep_resume_enter:
  "held s = [Proc_lock p] \<Longrightarrow>
   acquiresleep_resume p lk s =
     acquiresleep_loop p lk ((upd_proc p (\<lambda>q. q\<lparr>p_chan := None\<rparr>) s)\<lparr>held := [Sleep_lk lk]\<rparr>)"
  by (simp add: acquiresleep_resume_def sleep_return_def kres_simps Let_def)

lemma blocked_entries_frame:
  assumes "blocked_entries p lk ps' qs"
    and "\<And>i. i < NPROC \<Longrightarrow> p_pid (ps' ! i) = p_pid (ps ! i)"
    and "\<And>i. i < NPROC \<Longrightarrow> i \<noteq> p \<Longrightarrow> (p_state (ps' ! i) = UNUSED) = (p_state (ps ! i) = UNUSED)"
    and "\<And>i. i < NPROC \<Longrightarrow> i \<noteq> p \<Longrightarrow> p_waiting_for_lock (ps' ! i) = p_waiting_for_lock (ps ! i)"
  shows "blocked_entries p lk ps qs"
  using assms unfolding blocked_entries_def by auto

lemma releasesleep_eq:
  assumes "held s = []" "length (procs s) = NPROC"
  shows "releasesleep lk s =
     ret () (upd_all (\<lambda>i. if curproc s = Some i then (\<lambda>q. q) else wake (Some (Chan_sleeplock lk)))
              (upd_sl lk (\<lambda>l. l\<lparr>sl_locked := 0, sl_pid := 0\<rparr>) s))"
proof -
  let ?s = "upd_sl lk (\<lambda>l. l\<lparr>sl_locked := 0, sl_pid := 0\<rparr>) (s\<lparr>held := [Sleep_lk lk]\<rparr>)"
  have "wakeup (Some (Chan_sleeplock lk)) ?s =
      ret () (upd_all (\<lambda>i. if curproc ?s = Some i then (\<lambda>q. q) else wake (Some (Chan_sleeplock lk))) ?s)"
    using assms by (intro wakeup_eq) simp_all
  then show ?thesis
    using assms by (simp add: releasesleep_def kres_simps Let_def upd_all_def upd_sl_def)
qed

text \<open>
  C9. \<open>acquiresleep\<close> either takes the lock or sleeps. From a state with no spinlock held: if
  the lock is free, the call returns with the lock marked as held by the caller's pid and no
  spinlock held; if it is held, by anyone, the call does not return: the caller is asleep on
  the lock with only its own process lock held, and no sleep lock has changed, whatever the
  deadlock detection did on the way.
\<close>

theorem acquiresleep_exact:
  assumes "held s = []" "curproc s = Some p" "p < NPROC" "length (procs s) = NPROC"
  shows "if sl_locked (sleeplocks s lk) = 0
    then \<exists>t. acquiresleep lk s = ret () t \<and> held t = [] \<and>
           sleeplocks t = (sleeplocks s)(lk := (sleeplocks s lk)\<lparr>sl_locked := 1, sl_pid := p_pid (proc_at s p)\<rparr>) \<and>
           p_waiting_for_lock (proc_at t p) = None
    else \<exists>t. acquiresleep lk s = Inl (Switch t) \<and> held t = [Proc_lock p] \<and>
           sleeplocks t = sleeplocks s \<and> p_state (proc_at t p) = SLEEPING \<and>
           p_chan (proc_at t p) = Some (Chan_sleeplock lk)"
proof -
  let ?s = "s\<lparr>held := [Sleep_lk lk]\<rparr>"
  have s: "held ?s = [Sleep_lk lk]" "curproc ?s = Some p" "length (procs ?s) = NPROC"
    "sleeplocks ?s = sleeplocks s" using assms by simp_all
  show ?thesis
  proof (cases "sl_locked (sleeplocks s lk) = 0")
    case True
    then show ?thesis
      using acquiresleep_loop_free [OF s(1) assms(3) s(3)] acquiresleep_enter [OF assms(1,2)] assms(3,4)
      by simp
  next
    case False
    then obtain out qs where "acquiresleep lk s =
        Inl (Switch (?s\<lparr>held := [Proc_lock p], uart_out := out, procs := qs\<rparr>))"
      "blocked_entries p lk (procs s) qs"
      using acquiresleep_loop_blocked [OF s(1,2) assms(3) s(3)] acquiresleep_enter [OF assms(1,2)] by auto
    then show ?thesis using False by (simp add: blocked_entries_def)
  qed
qed

section \<open>Runs of processes that share sleep locks\<close>

text \<open>
  A process that is runnable is dispatched and runs one call: a new request, the rest of a
  request that slept, or the release of a lock it holds. The call ends when it returns or
  when the process sleeps; any process may be killed in between.
\<close>

definition running :: "nat \<Rightarrow> lock list \<Rightarrow> 's sltable_scheme \<Rightarrow> 's sltable_scheme" where
  "running p hs s = (upd_proc p (\<lambda>q. q\<lparr>p_state := RUNNING\<rparr>) s)\<lparr>curproc := Some p, held := hs\<rparr>"

definition ends :: "nat \<Rightarrow> ('s sltable_scheme, unit) kres \<Rightarrow> 's sltable_scheme \<Rightarrow> bool" where
  "ends p r u \<longleftrightarrow> (\<exists>t. r = ret () t \<and> u = t\<lparr>curproc := None\<rparr>) \<or>
                  (\<exists>t. r = Inl (Switch t) \<and> scheduler_resume p t = ret () u)"

inductive sl_step :: "'s sltable_scheme \<Rightarrow> 's sltable_scheme \<Rightarrow> bool" where
  request: "p < NPROC \<Longrightarrow> p_state (proc_at s p) = RUNNABLE \<Longrightarrow> p_waiting_for_lock (proc_at s p) = None \<Longrightarrow>
    ends p (acquiresleep lk (running p [] s)) u \<Longrightarrow> sl_step s u"
| resume: "p < NPROC \<Longrightarrow> p_state (proc_at s p) = RUNNABLE \<Longrightarrow> p_waiting_for_lock (proc_at s p) = Some lk \<Longrightarrow>
    ends p (acquiresleep_resume p lk (running p [Proc_lock p] s)) u \<Longrightarrow> sl_step s u"
| rel: "p < NPROC \<Longrightarrow> p_state (proc_at s p) = RUNNABLE \<Longrightarrow> p_waiting_for_lock (proc_at s p) = None \<Longrightarrow>
    sl_pid (sleeplocks s lk) = p_pid (proc_at s p) \<Longrightarrow>
    ends p (releasesleep lk (running p [] s)) u \<Longrightarrow> sl_step s u"
| kill: "kkill pid s = ret r u \<Longrightarrow> sl_step s u"

text \<open>What a step may do to the locks and to who waits for what.\<close>

definition same_ids :: "'s sltable_scheme \<Rightarrow> 's sltable_scheme \<Rightarrow> bool" where
  "same_ids s u \<longleftrightarrow> held u = [] \<and> length (procs u) = NPROC \<and>
     (\<forall>i < NPROC. p_pid (proc_at u i) = p_pid (proc_at s i) \<and>
        (p_state (proc_at u i) = UNUSED \<longleftrightarrow> p_state (proc_at s i) = UNUSED))"

definition sl_blocks :: "'s sltable_scheme \<Rightarrow> 's sltable_scheme \<Rightarrow> bool" where
  "sl_blocks s u \<longleftrightarrow> sleeplocks u = sleeplocks s \<and>
     (\<forall>i < NPROC. p_waiting_for_lock (proc_at s i) \<noteq> None \<longrightarrow>
        p_waiting_for_lock (proc_at u i) = p_waiting_for_lock (proc_at s i))"

definition sl_takes :: "'s sltable_scheme \<Rightarrow> 's sltable_scheme \<Rightarrow> bool" where
  "sl_takes s u \<longleftrightarrow> (\<exists>p lk x. p < NPROC \<and> sl_locked (sleeplocks s lk) = 0 \<and>
     sleeplocks u = (sleeplocks s)(lk := x) \<and> p_waiting_for_lock (proc_at s p) \<in> {None, Some lk} \<and>
     (\<forall>i < NPROC. i \<noteq> p \<longrightarrow> p_waiting_for_lock (proc_at u i) = p_waiting_for_lock (proc_at s i)))"

definition sl_gives :: "'s sltable_scheme \<Rightarrow> 's sltable_scheme \<Rightarrow> bool" where
  "sl_gives s u \<longleftrightarrow> (\<exists>p lk x. p < NPROC \<and> p_state (proc_at s p) \<noteq> UNUSED \<and>
     p_waiting_for_lock (proc_at s p) = None \<and> sl_pid (sleeplocks s lk) = p_pid (proc_at s p) \<and>
     sleeplocks u = (sleeplocks s)(lk := x) \<and>
     (\<forall>i < NPROC. p_waiting_for_lock (proc_at u i) = p_waiting_for_lock (proc_at s i)))"

lemma wake_simps [simp]:
  "p_pid (wake c q) = p_pid q" "p_waiting_for_lock (wake c q) = p_waiting_for_lock q"
  "p_state (wake c q) = UNUSED \<longleftrightarrow> p_state q = UNUSED"
  by (simp_all add: wake_def)

text \<open>A pass through the loop of \<open>acquiresleep\<close>, entered in state \<open>t\<close> by process \<open>p\<close>.\<close>

lemma loop_effect:
  assumes "held t = [Sleep_lk lk]" "curproc t = Some p" "p < NPROC" "length (procs t) = NPROC"
    and "sleeplocks t = sleeplocks s" "length (procs s) = NPROC"
    and "\<And>i. i < NPROC \<Longrightarrow> p_pid (proc_at t i) = p_pid (proc_at s i)"
    and "\<And>i. i < NPROC \<Longrightarrow> (p_state (proc_at t i) = UNUSED) = (p_state (proc_at s i) = UNUSED)"
    and "\<And>i. i < NPROC \<Longrightarrow> p_waiting_for_lock (proc_at t i) = p_waiting_for_lock (proc_at s i)"
    and "p_waiting_for_lock (proc_at s p) \<in> {None, Some lk}" "p_state (proc_at s p) \<noteq> UNUSED"
    and "ends p (acquiresleep_loop p lk t) u"
  shows "same_ids s u \<and> (sl_blocks s u \<or> sl_takes s u)"
proof (cases "sl_locked (sleeplocks s lk) = 0")
  case True
  let ?t = "(upd_sl lk (\<lambda>l. l\<lparr>sl_locked := 1, sl_pid := p_pid (proc_at t p)\<rparr>)
      (upd_proc p (\<lambda>q. q\<lparr>p_waiting_for_lock := None\<rparr>) t))\<lparr>held := []\<rparr>"
  have "acquiresleep_loop p lk t = ret () ?t"
    using acquiresleep_loop_free [OF assms(1,3,4)] True assms(5) by simp
  then have u: "u = ?t\<lparr>curproc := None\<rparr>" using assms(12) by (simp add: ends_def)
  have "same_ids s u" using u assms(3,4,7,8,11) by (simp add: same_ids_def nth_list_update)
  moreover have "sl_takes s u"
    unfolding sl_takes_def
    by (rule exI [of _ p], rule exI [of _ lk], rule exI [of _ "sleeplocks u lk"])
      (use u True assms(3-5,9,10) in \<open>simp add: nth_list_update\<close>)
  ultimately show ?thesis by blast
next
  case False
  then obtain out qs where b: "acquiresleep_loop p lk t =
      Inl (Switch (t\<lparr>held := [Proc_lock p], uart_out := out, procs := qs\<rparr>))"
    "blocked_entries p lk (procs t) qs"
    using acquiresleep_loop_blocked [OF assms(1-4)] assms(5) by auto
  then have u: "u = t\<lparr>held := [], curproc := None, uart_out := out, procs := qs\<rparr>"
    using assms(12) by (auto simp: ends_def scheduler_resume_def kres_simps)
  have "same_ids s u" using b(2) u assms(7,8,11) by (auto simp: same_ids_def blocked_entries_def)
  moreover have "sl_blocks s u"
    using b(2) u assms(5,9,10) by (auto simp: sl_blocks_def blocked_entries_def)
  ultimately show ?thesis by blast
qed

lemma running_simps [simp]:
  "held (running p hs s) = hs" "curproc (running p hs s) = Some p"
  "sleeplocks (running p hs s) = sleeplocks s" "length (procs (running p hs s)) = length (procs s)"
  "i < length (procs s) \<Longrightarrow> proc_at (running p hs s) i =
     (if i = p then (proc_at s i)\<lparr>p_state := RUNNING\<rparr> else proc_at s i)"
  by (simp_all add: running_def nth_list_update)

lemma sl_step_effect:
  assumes "sl_step s u" "held s = []" "length (procs s) = NPROC"
  shows "same_ids s u \<and> (sl_blocks s u \<or> sl_takes s u \<or> sl_gives s u)"
  using assms(1)
proof cases
  case (request p lk)
  have "acquiresleep lk (running p [] s) = acquiresleep_loop p lk ((running p [] s)\<lparr>held := [Sleep_lk lk]\<rparr>)"
    by (rule acquiresleep_enter) simp_all
  then show ?thesis
    using loop_effect [of "(running p [] s)\<lparr>held := [Sleep_lk lk]\<rparr>" lk p s u] request assms(3) by auto
next
  case (resume p lk)
  let ?t = "(upd_proc p (\<lambda>q. q\<lparr>p_chan := None\<rparr>) (running p [Proc_lock p] s))\<lparr>held := [Sleep_lk lk]\<rparr>"
  have step: "acquiresleep_resume p lk (running p [Proc_lock p] s) = acquiresleep_loop p lk ?t"
    by (rule acquiresleep_resume_enter) simp
  have ent: "proc_at ?t i = (if i = p then (proc_at s i)\<lparr>p_state := RUNNING, p_chan := None\<rparr> else proc_at s i)"
    if "i < NPROC" for i using that assms(3) resume(1) by (simp add: nth_list_update)
  have len: "length (procs ?t) = NPROC" using assms(3) by simp
  have "same_ids s u \<and> (sl_blocks s u \<or> sl_takes s u)"
    by (rule loop_effect [of ?t lk p])
      (use resume step in \<open>simp_all only: len ent, simp_all add: assms(3)\<close>)
  then show ?thesis by blast
next
  case (rel p lk)
  have "releasesleep lk (running p [] s) =
      ret () (upd_all (\<lambda>i. if curproc (running p [] s) = Some i then (\<lambda>q. q) else wake (Some (Chan_sleeplock lk)))
              (upd_sl lk (\<lambda>l. l\<lparr>sl_locked := 0, sl_pid := 0\<rparr>) (running p [] s)))"
    by (rule releasesleep_eq) (simp_all add: assms(3))
  then have u: "u = (upd_all (\<lambda>i. if i = p then (\<lambda>q. q) else wake (Some (Chan_sleeplock lk)))
              (upd_sl lk (\<lambda>l. l\<lparr>sl_locked := 0, sl_pid := 0\<rparr>) (running p [] s)))\<lparr>curproc := None\<rparr>"
    using rel(5) by (auto simp: ends_def eq_commute)
  have "sleeplocks u = (sleeplocks s)(lk := (sleeplocks s lk)\<lparr>sl_locked := 0, sl_pid := 0\<rparr>)"
    using u by (simp add: upd_all_def)
  moreover have ent: "proc_at u i = (if i = p then (proc_at s i)\<lparr>p_state := RUNNING\<rparr>
      else wake (Some (Chan_sleeplock lk)) (proc_at s i))" if "i < NPROC" for i
    using u that assms(3) by simp
  ultimately have "sl_gives s u" unfolding sl_gives_def
    using rel by (intro exI [of _ p] exI [of _ lk] exI [of _ "(sleeplocks s lk)\<lparr>sl_locked := 0, sl_pid := 0\<rparr>"]) auto
  moreover have "same_ids s u" using u ent rel(2) assms(3) by (simp add: same_ids_def)
  ultimately show ?thesis by blast
next
  case (kill pid r)
  have k: "kkill pid s = (case find (\<lambda>i. p_pid (proc_at s i) = pid) [0..<NPROC] of
              None \<Rightarrow> ret (- 1) s | Some i \<Rightarrow> ret 0 (upd_proc i mark_killed s))"
    unfolding kkill_def by (rule kkill_loop_eq) (simp add: assms(2))
  show ?thesis
  proof (cases "find (\<lambda>i. p_pid (proc_at s i) = pid) [0..<NPROC]")
    case None
    then have "u = s" using k kill by simp
    then show ?thesis using assms by (simp add: same_ids_def sl_blocks_def)
  next
    case (Some i)
    then have "kkill pid s = ret 0 (upd_proc i mark_killed s)" using k by simp
    moreover have "i < NPROC" using Some by (simp add: find_upt_least)
    ultimately have "u = upd_proc i mark_killed s" "i < NPROC" using kill by simp_all
    then show ?thesis using assms(2,3) by (simp add: same_ids_def sl_blocks_def nth_list_update)
  qed
qed

text \<open>Processes that all wait for locks held among themselves.\<close>

definition stuck :: "nat set \<Rightarrow> 's sltable_scheme \<Rightarrow> bool" where
  "stuck D s \<longleftrightarrow> (\<forall>i \<in> D. i < NPROC \<and> p_state (proc_at s i) \<noteq> UNUSED \<and>
     (\<exists>l. p_waiting_for_lock (proc_at s i) = Some l \<and> sl_locked (sleeplocks s l) \<noteq> 0 \<and>
        (\<exists>j \<in> D. sl_pid (sleeplocks s l) = p_pid (proc_at s j))))"

lemma stuck_keep:
  assumes "stuck D s" "same_ids s u"
    and "\<And>i l. i \<in> D \<Longrightarrow> p_waiting_for_lock (proc_at s i) = Some l \<Longrightarrow> sl_locked (sleeplocks s l) \<noteq> 0 \<Longrightarrow>
           p_waiting_for_lock (proc_at u i) = Some l \<and> sleeplocks u l = sleeplocks s l"
  shows "stuck D u \<and> (\<forall>i \<in> D. p_waiting_for_lock (proc_at u i) = p_waiting_for_lock (proc_at s i))"
proof -
  have "i < NPROC \<and> p_state (proc_at u i) \<noteq> UNUSED \<and>
      p_waiting_for_lock (proc_at u i) = p_waiting_for_lock (proc_at s i) \<and>
      (\<exists>l. p_waiting_for_lock (proc_at u i) = Some l \<and> sl_locked (sleeplocks u l) \<noteq> 0 \<and>
        (\<exists>j \<in> D. sl_pid (sleeplocks u l) = p_pid (proc_at u j)))" if i: "i \<in> D" for i
  proof -
    obtain l j where l: "i < NPROC" "p_state (proc_at s i) \<noteq> UNUSED" "p_waiting_for_lock (proc_at s i) = Some l"
      "sl_locked (sleeplocks s l) \<noteq> 0" "j \<in> D" "sl_pid (sleeplocks s l) = p_pid (proc_at s j)"
      using assms(1) i unfolding stuck_def by blast
    moreover have "j < NPROC" using assms(1) l(5) unfolding stuck_def by blast
    ultimately have "sl_pid (sleeplocks u l) = p_pid (proc_at u j)"
      using assms(2) assms(3) [OF i l(3,4)] by (simp add: same_ids_def)
    then show ?thesis
      using assms(2) assms(3) [OF i l(3,4)] l by (auto simp: same_ids_def intro: bexI [of _ j])
  qed
  then show ?thesis unfolding stuck_def by blast
qed

lemma stuck_step:
  assumes "sl_step s u" "held s = []" "length (procs s) = NPROC" "pids_unique s" "stuck D s"
  shows "held u = [] \<and> length (procs u) = NPROC \<and> pids_unique u \<and> stuck D u \<and>
         (\<forall>i \<in> D. p_waiting_for_lock (proc_at u i) = p_waiting_for_lock (proc_at s i))"
proof -
  note e = sl_step_effect [OF assms(1-3)]
  have ids: "same_ids s u" using e by blast
  have D: "i < NPROC" "p_waiting_for_lock (proc_at s i) \<noteq> None" "p_state (proc_at s i) \<noteq> UNUSED" if "i \<in> D" for i
    using assms(5) that unfolding stuck_def by auto
  have keep: "p_waiting_for_lock (proc_at u i) = Some l \<and> sleeplocks u l = sleeplocks s l"
    if i: "i \<in> D" "p_waiting_for_lock (proc_at s i) = Some l" "sl_locked (sleeplocks s l) \<noteq> 0" for i l
    using e
  proof (elim conjE disjE)
    assume "sl_blocks s u"
    then show ?thesis using i D by (auto simp: sl_blocks_def)
  next
    assume "sl_takes s u"
    then obtain p lk x where t: "sl_locked (sleeplocks s lk) = 0" "sleeplocks u = (sleeplocks s)(lk := x)"
      "p_waiting_for_lock (proc_at s p) \<in> {None, Some lk}"
      "\<forall>i < NPROC. i \<noteq> p \<longrightarrow> p_waiting_for_lock (proc_at u i) = p_waiting_for_lock (proc_at s i)"
      unfolding sl_takes_def by blast
    then have "l \<noteq> lk" "i \<noteq> p" using i by auto
    then show ?thesis using t i D by auto
  next
    assume "sl_gives s u"
    then obtain p lk x where t: "p < NPROC" "p_state (proc_at s p) \<noteq> UNUSED"
      "p_waiting_for_lock (proc_at s p) = None" "sl_pid (sleeplocks s lk) = p_pid (proc_at s p)"
      "sleeplocks u = (sleeplocks s)(lk := x)"
      "\<forall>i < NPROC. p_waiting_for_lock (proc_at u i) = p_waiting_for_lock (proc_at s i)"
      unfolding sl_gives_def by blast
    obtain j where j: "j \<in> D" "sl_pid (sleeplocks s l) = p_pid (proc_at s j)"
      using assms(5) i unfolding stuck_def by force
    have "l \<noteq> lk"
    proof
      assume "l = lk"
      then have "p_pid (proc_at s p) = p_pid (proc_at s j)" using t(4) j(2) by simp
      then have "p = j" using assms(4) t(1,2) D(1,3) [OF j(1)] unfolding pids_unique_def by blast
      then show False using t(3) D(2) [OF j(1)] by simp
    qed
    then show ?thesis using t i D by simp
  qed
  have "pids_unique u" using assms(4) ids unfolding pids_unique_def same_ids_def by metis
  then show ?thesis using stuck_keep [OF assms(5) ids keep] ids by (simp add: same_ids_def)
qed

section \<open>The demonstration: two processes, two locks, opposite order\<close>

definition boot_sl :: sltable where
  "boot_sl = ptable.extend boot_ptable
     (sltable.fields (\<lambda>_. \<lparr>sl_locked = 0, sl_name = [], sl_pid = 0\<rparr>) 1)"

definition dl_sleep :: sltable where
  "dl_sleep = boot_sl\<lparr>
     procs := (replicate NPROC no_proc)
       [0 := no_proc\<lparr>p_state := SLEEPING, p_pid := 1, p_waiting_for_lock := Some (Demo_lock 1)\<rparr>,
        1 := no_proc\<lparr>p_state := RUNNABLE, p_pid := 2, p_waiting_for_lock := Some (Demo_lock 0)\<rparr>],
     sleeplocks := (sleeplocks boot_sl)
       (Demo_lock 0 := \<lparr>sl_locked = 1, sl_name = [], sl_pid = 1\<rparr>,
        Demo_lock 1 := \<lparr>sl_locked = 1, sl_name = [], sl_pid = 2\<rparr>)\<rparr>"

lemma dl_sleep_simps:
  "held dl_sleep = []" "length (procs dl_sleep) = NPROC" "curproc dl_sleep = None"
  "sleeplocks dl_sleep (Demo_lock 0) = \<lparr>sl_locked = 1, sl_name = [], sl_pid = 1\<rparr>"
  "sleeplocks dl_sleep (Demo_lock (Suc 0)) = \<lparr>sl_locked = 1, sl_name = [], sl_pid = 2\<rparr>"
  by (simp_all add: dl_sleep_def boot_sl_def boot_ptable_def ptable.defs sltable.defs)

lemma dl_sleep_procs:
  assumes "i < NPROC"
  shows "p_state (proc_at dl_sleep i) = (if i = 0 then SLEEPING else if i = 1 then RUNNABLE else UNUSED)"
    "p_pid (proc_at dl_sleep i) = (if i = 0 then 1 else if i = 1 then 2 else 0)"
    "p_waiting_for_lock (proc_at dl_sleep i) =
       (if i = 0 then Some (Demo_lock 1) else if i = 1 then Some (Demo_lock 0) else None)"
  using assms by (simp_all add: dl_sleep_def no_proc_def nth_list_update)

lemma dl_sleep_unique: "pids_unique dl_sleep"
  by (auto simp: pids_unique_def dl_sleep_procs split: if_splits)

lemma dl_sleep_cycle: "on_cycle (sl_waits dl_sleep) 0"
proof -
  have "pid2proc dl_sleep 1 = Some 0" "pid2proc dl_sleep 2 = Some 1"
    by (auto simp: pid2proc_def find_upt_least dl_sleep_procs)
  then have "hops (sl_waits dl_sleep) 2 0 = Some 0"
    by (simp add: numeral_2_eq_2 sl_waits_def dl_sleep_procs dl_sleep_simps)
  then show ?thesis by (auto simp: on_cycle_def intro!: exI [of _ 2])
qed

theorem would_create_deadlock_exact_witness:
  "would_create_deadlock (Some 0) (Some (Demo_lock 1)) dl_sleep = 1"
  using would_create_deadlock_exact [OF dl_sleep_unique, of 0 "Demo_lock 1"] dl_sleep_cycle
  by (simp add: dl_sleep_procs dl_sleep_simps)

theorem recovery_exact_witness:
  "\<exists>v t. energy_aware_deadlock_recovery 0 (Demo_lock 1) dl_sleep = ret (p_pid (proc_at dl_sleep v)) t \<and>
     v \<in> {q. \<exists>n. hops (sl_waits dl_sleep) n 0 = Some q} \<and> sleeplocks t = sleeplocks dl_sleep"
  using recovery_exact [OF dl_sleep_unique _ _ _ _ _ _ refl, of 0 "Demo_lock 1"]
  by (auto simp: dl_sleep_procs dl_sleep_simps)

theorem acquiresleep_exact_witness:
  "\<exists>t. acquiresleep (Demo_lock 1) (dl_sleep\<lparr>curproc := Some 0\<rparr>) = Inl (Switch t) \<and>
     p_state (proc_at t 0) = SLEEPING"
proof -
  have "sl_locked (sleeplocks (dl_sleep\<lparr>curproc := Some 0\<rparr>) (Demo_lock 1)) \<noteq> 0"
    by (simp add: dl_sleep_simps)
  from acquiresleep_exact [of "dl_sleep\<lparr>curproc := Some 0\<rparr>" 0 "Demo_lock 1", unfolded if_not_P [OF this]]
  show ?thesis by (simp add: dl_sleep_simps) blast
qed


end
