(* ===== verification/Layout.thy ===== *)
theory Layout
  imports Cstring
begin

text \<open>
  The on-disk structures of \<^verbatim>\<open>kernel/fs.h\<close> as bytes of a block: little-endian fields, the
  super block, the inodes of a block and the directory entries. A C assignment through a
  \<^verbatim>\<open>struct\<close> pointer into a buffer is \<open>patch\<close>, a read is \<open>field\<close>; the lemmas are the round trips
  of each structure and that a write leaves the other fields of the block alone.
\<close>

section \<open>Definitions\<close>

abbreviation (input) BSIZE :: nat where "BSIZE \<equiv> 1024"
abbreviation (input) NDIRECT :: nat where "NDIRECT \<equiv> 12"
abbreviation (input) NINDIRECT :: nat where "NINDIRECT \<equiv> 256"
abbreviation (input) MAXFILE :: nat where "MAXFILE \<equiv> 268"
abbreviation (input) DINODE_SIZE :: nat where "DINODE_SIZE \<equiv> 64"
abbreviation (input) IPB :: nat where "IPB \<equiv> 16"
abbreviation (input) BPB :: nat where "BPB \<equiv> 8192"
abbreviation (input) DIRSIZ :: nat where "DIRSIZ \<equiv> 14"
abbreviation (input) DIRENT_SIZE :: nat where "DIRENT_SIZE \<equiv> 16"
abbreviation (input) FSMAGIC :: u32 where "FSMAGIC \<equiv> 0x10203040"
abbreviation (input) ROOTINO :: u32 where "ROOTINO \<equiv> 1"
abbreviation (input) ROOTDEV :: u32 where "ROOTDEV \<equiv> 1"

text \<open>\<^verbatim>\<open>kernel/stat.h\<close>.\<close>

abbreviation (input) T_DIR :: u16 where "T_DIR \<equiv> 1"
abbreviation (input) T_FILE :: u16 where "T_FILE \<equiv> 2"
abbreviation (input) T_DEVICE :: u16 where "T_DEVICE \<equiv> 3"

fun le_word :: "byte list \<Rightarrow> 'a::len word" where
  "le_word [] = 0"
| "le_word (b # bs) = ucast b OR push_bit 8 (le_word bs)"

fun le_bytes :: "nat \<Rightarrow> 'a::len word \<Rightarrow> byte list" where
  "le_bytes 0 v = []"
| "le_bytes (Suc n) v = ucast v # le_bytes n (drop_bit 8 v)"

definition field :: "byte list \<Rightarrow> nat \<Rightarrow> nat \<Rightarrow> byte list" where
  "field d off n = take n (drop off d)"

definition patch :: "byte list \<Rightarrow> nat \<Rightarrow> byte list \<Rightarrow> byte list" where
  "patch d off bs = take off d @ bs @ drop (off + length bs) d"

definition get16 :: "byte list \<Rightarrow> nat \<Rightarrow> u16" where
  "get16 d off = le_word (field d off 2)"

definition get32 :: "byte list \<Rightarrow> nat \<Rightarrow> u32" where
  "get32 d off = le_word (field d off 4)"

definition put16 :: "byte list \<Rightarrow> nat \<Rightarrow> u16 \<Rightarrow> byte list" where
  "put16 d off v = patch d off (le_bytes 2 v)"

definition put32 :: "byte list \<Rightarrow> nat \<Rightarrow> u32 \<Rightarrow> byte list" where
  "put32 d off v = patch d off (le_bytes 4 v)"

record superblock =
  sb_magic :: u32
  sb_size :: u32
  sb_nblocks :: u32
  sb_ninodes :: u32
  sb_nlog :: u32
  sb_logstart :: u32
  sb_inodestart :: u32
  sb_bmapstart :: u32

definition get_superblock :: "byte list \<Rightarrow> superblock" where
  "get_superblock d =
     \<lparr>sb_magic = get32 d 0, sb_size = get32 d 4, sb_nblocks = get32 d 8, sb_ninodes = get32 d 12,
      sb_nlog = get32 d 16, sb_logstart = get32 d 20, sb_inodestart = get32 d 24,
      sb_bmapstart = get32 d 28\<rparr>"

definition superblock_bytes :: "superblock \<Rightarrow> byte list" where
  "superblock_bytes sb =
     concat (map (le_bytes 4) [sb_magic sb, sb_size sb, sb_nblocks sb, sb_ninodes sb, sb_nlog sb,
       sb_logstart sb, sb_inodestart sb, sb_bmapstart sb])"

record dinode =
  di_type :: u16
  di_major :: u16
  di_minor :: u16
  di_nlink :: u16
  di_size :: u32
  di_addrs :: "u32 list"

definition get_dinode :: "byte list \<Rightarrow> nat \<Rightarrow> dinode" where
  "get_dinode d i =
     (let o' = DINODE_SIZE * i
      in \<lparr>di_type = get16 d o', di_major = get16 d (o' + 2), di_minor = get16 d (o' + 4),
          di_nlink = get16 d (o' + 6), di_size = get32 d (o' + 8),
          di_addrs = map (\<lambda>k. get32 d (o' + 12 + 4 * k)) [0..<NDIRECT + 1]\<rparr>)"

definition dinode_bytes :: "dinode \<Rightarrow> byte list" where
  "dinode_bytes di =
     concat (map (le_bytes 2) [di_type di, di_major di, di_minor di, di_nlink di]) @
     le_bytes 4 (di_size di) @ concat (map (le_bytes 4) (di_addrs di))"

definition put_dinode :: "byte list \<Rightarrow> nat \<Rightarrow> dinode \<Rightarrow> byte list" where
  "put_dinode d i di = patch d (DINODE_SIZE * i) (dinode_bytes di)"

definition IBLOCK :: "u32 \<Rightarrow> superblock \<Rightarrow> u32" where
  "IBLOCK i sb = i div of_nat IPB + sb_inodestart sb"

definition BBLOCK :: "u32 \<Rightarrow> superblock \<Rightarrow> u32" where
  "BBLOCK b sb = b div of_nat BPB + sb_bmapstart sb"

record dirent =
  de_inum :: u16
  de_name :: "byte list"

definition get_dirent :: "byte list \<Rightarrow> dirent" where
  "get_dirent d = \<lparr>de_inum = get16 d 0, de_name = field d 2 DIRSIZ\<rparr>"

definition dirent_bytes :: "dirent \<Rightarrow> byte list" where
  "dirent_bytes de = le_bytes 2 (de_inum de) @ de_name de"

section \<open>Little-endian fields\<close>

lemma length_le_bytes [simp]: "length (le_bytes n v) = n"
  by (induction n arbitrary: v) auto

lemma bit_le_word_bytes:
  "bit (le_word (le_bytes n v) :: 'a::len word) k \<longleftrightarrow> k < 8 * n \<and> bit (v :: 'a word) k"
proof (induction n arbitrary: v k)
  case (Suc n)
  show ?case
    by (cases "k < 8")
      (auto simp: bit_or_iff bit_push_bit_iff bit_drop_bit_eq Suc bit_ucast_iff
        dest: bit_imp_le_length)
qed simp

lemma le_word_bytes_16 [simp]: "le_word (le_bytes 2 v) = (v :: u16)"
  by (rule bit_word_eqI) (simp add: bit_le_word_bytes)

lemma le_word_bytes_32 [simp]: "le_word (le_bytes 4 v) = (v :: u32)"
  by (rule bit_word_eqI) (simp add: bit_le_word_bytes)

lemma length_patch [simp]: "off + length bs \<le> length d \<Longrightarrow> length (patch d off bs) = length d"
  by (simp add: patch_def)

lemma field_patch_same: "off + length bs \<le> length d \<Longrightarrow> n = length bs \<Longrightarrow> field (patch d off bs) off n = bs"
  by (simp add: patch_def field_def)

lemma field_patch_inside:
  assumes "off \<le> o2" "o2 + n \<le> off + length bs" "off + length bs \<le> length d"
  shows "field (patch d off bs) o2 n = field bs (o2 - off) n"
  using assms by (auto simp: patch_def field_def intro!: nth_equalityI simp: nth_append)

lemma field_patch_other:
  assumes "o2 + n \<le> off \<or> off + length bs \<le> o2" "off + length bs \<le> length d"
  shows "field (patch d off bs) o2 n = field d o2 n"
  using assms
  by (auto simp: patch_def field_def nth_append not_less min_def split: if_splits
      intro!: nth_equalityI)

lemma field_append1: "off + n \<le> length a \<Longrightarrow> field (a @ b) off n = field a off n"
  by (simp add: field_def)

lemma field_append2: "length a \<le> off \<Longrightarrow> field (a @ b) off n = field b (off - length a) n"
  by (simp add: field_def)

lemma length_concat_le [simp]: "length (concat (map (le_bytes n) ws)) = n * length ws"
  by (induction ws) auto

lemma field_concat_le:
  "k < length ws \<Longrightarrow> field (concat (map (le_bytes n) ws)) (n * k) n = le_bytes n (ws ! k)"
proof (induction ws arbitrary: k)
  case (Cons w ws)
  show ?case
  proof (cases k)
    case 0
    then show ?thesis by (simp add: field_def)
  next
    case (Suc j)
    then have "field (concat (map (le_bytes n) (w # ws))) (n * k) n =
        field (concat (map (le_bytes n) ws)) (n * j) n"
      by (simp add: field_append2)
    with Cons Suc show ?thesis by simp
  qed
qed simp

lemma length_dinode_bytes [simp]: "length (di_addrs di) = NDIRECT + 1 \<Longrightarrow> length (dinode_bytes di) = DINODE_SIZE"
  by (simp add: dinode_bytes_def)

lemma dinode_bytes_fields:
  assumes "length (di_addrs di) = NDIRECT + 1"
  shows "field (dinode_bytes di) 0 2 = le_bytes 2 (di_type di)"
    "field (dinode_bytes di) 2 2 = le_bytes 2 (di_major di)"
    "field (dinode_bytes di) 4 2 = le_bytes 2 (di_minor di)"
    "field (dinode_bytes di) 6 2 = le_bytes 2 (di_nlink di)"
    "field (dinode_bytes di) 8 4 = le_bytes 4 (di_size di)"
    "\<And>k. k \<le> NDIRECT \<Longrightarrow> field (dinode_bytes di) (12 + 4 * k) 4 = le_bytes 4 (di_addrs di ! k)"
proof -
  let ?h = "concat (map (le_bytes 2) [di_type di, di_major di, di_minor di, di_nlink di])"
  have h: "length ?h = 8" by simp
  have "field (dinode_bytes di) (2 * k) 2 = le_bytes 2 ([di_type di, di_major di, di_minor di, di_nlink di] ! k)"
    if "k < 4" for k
    unfolding dinode_bytes_def
    using that field_concat_le [of k "[di_type di, di_major di, di_minor di, di_nlink di]" 2]
    by (subst field_append1) (simp_all del: concat.simps list.map)
  from this [of 0] this [of 1] this [of 2] this [of 3]
  show "field (dinode_bytes di) 0 2 = le_bytes 2 (di_type di)"
    "field (dinode_bytes di) 2 2 = le_bytes 2 (di_major di)"
    "field (dinode_bytes di) 4 2 = le_bytes 2 (di_minor di)"
    "field (dinode_bytes di) 6 2 = le_bytes 2 (di_nlink di)"
    by simp_all
  show "field (dinode_bytes di) 8 4 = le_bytes 4 (di_size di)"
    unfolding dinode_bytes_def by (simp add: field_append2 field_append1) (simp add: field_def)
  show "field (dinode_bytes di) (12 + 4 * k) 4 = le_bytes 4 (di_addrs di ! k)" if "k \<le> NDIRECT" for k
    unfolding dinode_bytes_def using that assms
    by (simp add: field_append2 field_concat_le)
qed



lemma get_superblock_bytes:
  assumes "length d = BSIZE"
  shows "get_superblock (patch d 0 (superblock_bytes sb)) = sb"
proof -
  let ?ws = "[sb_magic sb, sb_size sb, sb_nblocks sb, sb_ninodes sb, sb_nlog sb,
       sb_logstart sb, sb_inodestart sb, sb_bmapstart sb]"
  have "get32 (patch d 0 (superblock_bytes sb)) (4 * k) = ?ws ! k" if "k < 8" for k
    unfolding get32_def using that assms field_concat_le [of k ?ws 4]
    by (subst field_patch_inside) (simp_all add: superblock_bytes_def del: concat.simps list.map)
  note w = this
  show ?thesis
    unfolding get_superblock_def
    using w [of 0] w [of 1] w [of 2] w [of 3] w [of 4] w [of 5] w [of 6] w [of 7]
    by (simp add: get_superblock_def)
qed

lemma get_dirent_bytes: "length (de_name de) = DIRSIZ \<Longrightarrow> get_dirent (dirent_bytes de @ rest) = de"
  by (simp add: get_dirent_def dirent_bytes_def get16_def field_append1 field_append2)
    (simp add: field_def)

end
