(* ===== verification/Bio.thy ===== *)
theory Bio
  imports Sleeplock Layout
begin

text \<open>
  The buffer cache, \<^verbatim>\<open>kernel/bio.c\<close>, with its doubly linked list as the code keeps it: \<open>next\<close>
  and \<open>prev\<close> are indices into the array of buffers, and \<^verbatim>\<open>bcache.head\<close> is entry \<open>NBUF\<close>. The
  disk is the hardware behind \<open>virtio_disk_rw\<close>: a request has been served when the call
  returns, and the writes served so far are kept in order, so that the contents after a
  crash are those after some prefix of them.
\<close>

section \<open>Definitions\<close>

abbreviation (input) NBUF :: nat where "NBUF \<equiv> 30"

record buf =
  b_valid :: int
  b_disk :: int
  b_dev :: u32
  b_blockno :: u32
  b_refcnt :: u32
  b_prev :: nat
  b_next :: nat
  b_data :: "byte list"

type_synonym disk = "u32 \<Rightarrow> byte list"

record bcache = sltable +
  bufs :: "buf list"
  disk :: disk
  disk_writes :: "(u32 \<times> byte list) list"

abbreviation buf_at :: "'s bcache_scheme \<Rightarrow> nat \<Rightarrow> buf" where
  "buf_at s b \<equiv> bufs s ! b"

abbreviation (input) head :: nat where "head \<equiv> NBUF"

definition upd_buf :: "nat \<Rightarrow> (buf \<Rightarrow> buf) \<Rightarrow> 's bcache_scheme \<Rightarrow> 's bcache_scheme" where
  "upd_buf b f s = s\<lparr>bufs := (bufs s)[b := f (bufs s ! b)]\<rparr>"

text \<open>The transfer that \<open>virtio_disk_rw\<close> requests for a buffer.\<close>

definition disk_rw :: "nat \<Rightarrow> bool \<Rightarrow> 's bcache_scheme \<Rightarrow> 's bcache_scheme" where
  "disk_rw b write s =
     (let bn = b_blockno (buf_at s b); d = b_data (buf_at s b)
      in if write then s\<lparr>disk := (disk s)(bn := d), disk_writes := disk_writes s @ [(bn, d)]\<rparr>
         else upd_buf b (\<lambda>x. x\<lparr>b_data := disk s bn\<rparr>) s)"

text \<open>The four assignments that put a buffer at the front of the list.\<close>

definition link_front :: "nat \<Rightarrow> buf list \<Rightarrow> buf list" where
  "link_front b bs =
     (let bs = bs[b := (bs ! b)\<lparr>b_next := b_next (bs ! head)\<rparr>];
          bs = bs[b := (bs ! b)\<lparr>b_prev := head\<rparr>];
          n = b_next (bs ! head);
          bs = bs[n := (bs ! n)\<lparr>b_prev := b\<rparr>]
      in bs[head := (bs ! head)\<lparr>b_next := b\<rparr>])"

definition binit :: "'s bcache_scheme \<Rightarrow> 's bcache_scheme" where
  "binit s =
     (let s = upd_buf head (\<lambda>x. x\<lparr>b_prev := head, b_next := head\<rparr>) s
      in fold (\<lambda>b s. initsleeplock (Buf_lock b) (bytes ''buffer'' @ [0]) (s\<lparr>bufs := link_front b (bufs s)\<rparr>))
           [0..<NBUF] s)"

text \<open>
  The two loops of \<open>bget\<close>, along \<open>next\<close> and along \<open>prev\<close>. The first argument bounds the
  number of buffers visited; a list of \<open>NBUF\<close> buffers is back at the head before it runs out.
\<close>

fun scan_cached :: "nat \<Rightarrow> nat \<Rightarrow> u32 \<Rightarrow> u32 \<Rightarrow> buf list \<Rightarrow> nat option" where
  "scan_cached 0 b dev blockno bs = None"
| "scan_cached (Suc fuel) b dev blockno bs =
     (if b = head then None
      else if b_dev (bs ! b) = dev \<and> b_blockno (bs ! b) = blockno then Some b
      else scan_cached fuel (b_next (bs ! b)) dev blockno bs)"

fun scan_unused :: "nat \<Rightarrow> nat \<Rightarrow> buf list \<Rightarrow> nat option" where
  "scan_unused 0 b bs = None"
| "scan_unused (Suc fuel) b bs =
     (if b = head then None
      else if b_refcnt (bs ! b) = 0 then Some b
      else scan_unused fuel (b_prev (bs ! b)) bs)"

definition bget :: "u32 \<Rightarrow> u32 \<Rightarrow> 's bcache_scheme \<Rightarrow> ('s bcache_scheme, nat) kres" where
  "bget dev blockno s =
     bindK (acquire Bcache_lock s) (\<lambda>_ s.
       case scan_cached (Suc NBUF) (b_next (buf_at s head)) dev blockno (bufs s) of
         Some b \<Rightarrow>
           bindK (release Bcache_lock (upd_buf b (\<lambda>x. x\<lparr>b_refcnt := b_refcnt x + 1\<rparr>) s)) (\<lambda>_ s.
           bindK (acquiresleep (Buf_lock b) s) (\<lambda>_ s. ret b s))
       | None \<Rightarrow>
           (case scan_unused (Suc NBUF) (b_prev (buf_at s head)) (bufs s) of
              Some b \<Rightarrow>
                bindK (release Bcache_lock (upd_buf b (\<lambda>x. x\<lparr>b_dev := dev, b_blockno := blockno,
                         b_valid := 0, b_refcnt := 1\<rparr>) s)) (\<lambda>_ s.
                bindK (acquiresleep (Buf_lock b) s) (\<lambda>_ s. ret b s))
            | None \<Rightarrow> panic ''bget: no buffers''))"

definition bread :: "u32 \<Rightarrow> u32 \<Rightarrow> 's bcache_scheme \<Rightarrow> ('s bcache_scheme, nat) kres" where
  "bread dev blockno s =
     bindK (bget dev blockno s) (\<lambda>b s.
       if b_valid (buf_at s b) = 0
       then ret b (upd_buf b (\<lambda>x. x\<lparr>b_valid := 1\<rparr>) (disk_rw b False s))
       else ret b s)"

definition bwrite :: "nat \<Rightarrow> 's bcache_scheme \<Rightarrow> ('s bcache_scheme, unit) kres" where
  "bwrite b s =
     bindK (holdingsleep (Buf_lock b) s) (\<lambda>h s.
       if \<not> h then panic ''bwrite'' else ret () (disk_rw b True s))"

text \<open>The moves of \<open>brelse\<close> on the list: out of its place, then to the front.\<close>

definition unlink :: "nat \<Rightarrow> buf list \<Rightarrow> buf list" where
  "unlink b bs =
     (let n = b_next (bs ! b);
          bs = bs[n := (bs ! n)\<lparr>b_prev := b_prev (bs ! b)\<rparr>];
          p = b_prev (bs ! b)
      in bs[p := (bs ! p)\<lparr>b_next := b_next (bs ! b)\<rparr>])"

definition brelse :: "nat \<Rightarrow> 's bcache_scheme \<Rightarrow> ('s bcache_scheme, unit) kres" where
  "brelse b s =
     bindK (holdingsleep (Buf_lock b) s) (\<lambda>h s.
       if \<not> h then panic ''brelse''
       else bindK (releasesleep (Buf_lock b) s) (\<lambda>_ s.
         bindK (acquire Bcache_lock s) (\<lambda>_ s.
           let s = upd_buf b (\<lambda>x. x\<lparr>b_refcnt := b_refcnt x - 1\<rparr>) s;
               s = (if b_refcnt (buf_at s b) = 0
                    then s\<lparr>bufs := link_front b (unlink b (bufs s))\<rparr> else s)
           in release Bcache_lock s)))"

definition bpin :: "nat \<Rightarrow> 's bcache_scheme \<Rightarrow> ('s bcache_scheme, unit) kres" where
  "bpin b s =
     bindK (acquire Bcache_lock s) (\<lambda>_ s.
       release Bcache_lock (upd_buf b (\<lambda>x. x\<lparr>b_refcnt := b_refcnt x + 1\<rparr>) s))"

definition bunpin :: "nat \<Rightarrow> 's bcache_scheme \<Rightarrow> ('s bcache_scheme, unit) kres" where
  "bunpin b s =
     bindK (acquire Bcache_lock s) (\<lambda>_ s.
       release Bcache_lock (upd_buf b (\<lambda>x. x\<lparr>b_refcnt := b_refcnt x - 1\<rparr>) s))"

text \<open>The cache and the disk before \<open>binit\<close>, for the concrete runs.\<close>

definition no_buf :: buf where
  "no_buf = \<lparr>b_valid = 0, b_disk = 0, b_dev = 0, b_blockno = 0, b_refcnt = 0, b_prev = 0, b_next = 0,
     b_data = replicate BSIZE 0\<rparr>"

definition boot_bcache :: bcache where
  "boot_bcache = sltable.extend boot_sl
     (bcache.fields (replicate (Suc NBUF) no_buf) (\<lambda>_. replicate BSIZE 0) [])"

end
