(* ===== verification/Log.thy ===== *)
theory Log
  imports Bio
begin

text \<open>
  The write-ahead log of the file system, \<^verbatim>\<open>kernel/log.c\<close>. \<open>begin_op\<close> waits in a loop:
  \<open>begin_op\<close> runs up to its first \<open>sleep\<close> or to its return, \<open>begin_op_resume\<close> from the return
  of \<open>sleep\<close> on.
\<close>

section \<open>Definitions\<close>

abbreviation (input) MAXOPBLOCKS :: int where "MAXOPBLOCKS \<equiv> 10"
abbreviation (input) LOGBLOCKS :: nat where "LOGBLOCKS \<equiv> 30"

text \<open>\<^verbatim>\<open>struct log\<close>; \<open>lh_n\<close> and \<open>lh_block\<close> are \<^verbatim>\<open>log.lh\<close>.\<close>

record logst = bcache +
  log_start :: int
  log_outstanding :: int
  log_committing :: int
  log_dev :: int
  lh_n :: int
  lh_block :: "int list"

abbreviation (input) i2u :: "int \<Rightarrow> u32" where "i2u i \<equiv> word_of_int i"

definition upd_data :: "nat \<Rightarrow> (byte list \<Rightarrow> byte list) \<Rightarrow> 's bcache_scheme \<Rightarrow> 's bcache_scheme" where
  "upd_data b f s = upd_buf b (\<lambda>x. x\<lparr>b_data := f (b_data x)\<rparr>) s"

text \<open>The body of the loop of \<open>install_trans\<close>.\<close>

definition install_block :: "bool \<Rightarrow> nat \<Rightarrow> 's logst_scheme \<Rightarrow> ('s logst_scheme, unit) kres" where
  "install_block recovering tail s =
     bindK (if recovering
            then printf (''recovering tail %d dst %d'' @ nl) [vint (int tail), vint (lh_block s ! tail)] s
            else ret () s) (\<lambda>_ s.
     bindK (bread (i2u (log_dev s)) (i2u (log_start s + int tail + 1)) s) (\<lambda>lbuf s.
     bindK (bread (i2u (log_dev s)) (i2u (lh_block s ! tail)) s) (\<lambda>dbuf s.
       let s = upd_data dbuf (\<lambda>_. b_data (buf_at s lbuf)) s in
     bindK (bwrite dbuf s) (\<lambda>_ s.
     bindK (if \<not> recovering then bunpin dbuf s else ret () s) (\<lambda>_ s.
     bindK (brelse lbuf s) (\<lambda>_ s.
       brelse dbuf s))))))"

definition install_trans :: "bool \<Rightarrow> 's logst_scheme \<Rightarrow> ('s logst_scheme, unit) kres" where
  "install_trans recovering s = forK [0..<nat (lh_n s)] (install_block recovering) s"

text \<open>
  The header block: \<open>n\<close> in its first four bytes, then \<open>block\<close>. A count larger than the array
  would be written past its end.
\<close>

definition read_head :: "'s logst_scheme \<Rightarrow> ('s logst_scheme, unit) kres" where
  "read_head s =
     bindK (bread (i2u (log_dev s)) (i2u (log_start s)) s) (\<lambda>b s.
       let d = b_data (buf_at s b); n = sint (get32 d 0)
       in if n > int LOGBLOCKS then Inl Undefined
          else brelse b (s\<lparr>lh_n := n,
                 lh_block := map (\<lambda>i. sint (get32 d (4 + 4 * i))) [0..<nat n] @ drop (nat n) (lh_block s)\<rparr>))"

definition write_head :: "'s logst_scheme \<Rightarrow> ('s logst_scheme, unit) kres" where
  "write_head s =
     bindK (bread (i2u (log_dev s)) (i2u (log_start s)) s) (\<lambda>b s.
       let s = upd_data b (\<lambda>d. fold (\<lambda>i d. put32 d (4 + 4 * i) (i2u (lh_block s ! i))) [0..<nat (lh_n s)]
                                 (put32 d 0 (i2u (lh_n s)))) s
       in bindK (bwrite b s) (\<lambda>_ s. brelse b s))"

definition recover_from_log :: "'s logst_scheme \<Rightarrow> ('s logst_scheme, unit) kres" where
  "recover_from_log s =
     bindK (read_head s) (\<lambda>_ s.
     bindK (install_trans True s) (\<lambda>_ s.
       write_head (s\<lparr>lh_n := 0\<rparr>)))"

text \<open>The size check of \<open>initlog\<close> is false at compile time: 124 bytes are less than a block.\<close>

definition initlog :: "int \<Rightarrow> superblock \<Rightarrow> 's logst_scheme \<Rightarrow> ('s logst_scheme, unit) kres" where
  "initlog dev sb s =
     (if 4 + 4 * LOGBLOCKS \<ge> BSIZE then panic ''initlog: too big logheader''
      else recover_from_log (s\<lparr>log_start := sint (sb_logstart sb), log_dev := dev\<rparr>))"

text \<open>The body of the loop of \<open>begin_op\<close>, entered with the log's lock held.\<close>

definition begin_op_loop :: "'s logst_scheme \<Rightarrow> ('s logst_scheme, unit) kres" where
  "begin_op_loop s =
     (if log_committing s \<noteq> 0 then sleep Chan_log (Some Log_lock) s
      else if lh_n s + (log_outstanding s + 1) * MAXOPBLOCKS > int LOGBLOCKS
      then sleep Chan_log (Some Log_lock) s
      else release Log_lock (s\<lparr>log_outstanding := log_outstanding s + 1\<rparr>))"

definition begin_op :: "'s logst_scheme \<Rightarrow> ('s logst_scheme, unit) kres" where
  "begin_op s = bindK (acquire Log_lock s) (\<lambda>_ s. begin_op_loop s)"

definition begin_op_resume :: "nat \<Rightarrow> 's logst_scheme \<Rightarrow> ('s logst_scheme, unit) kres" where
  "begin_op_resume p s = bindK (sleep_return p Log_lock s) (\<lambda>_ s. begin_op_loop s)"

text \<open>The body of the loop of \<open>write_log\<close>.\<close>

definition write_log_block :: "nat \<Rightarrow> 's logst_scheme \<Rightarrow> ('s logst_scheme, unit) kres" where
  "write_log_block tail s =
     bindK (bread (i2u (log_dev s)) (i2u (log_start s + int tail + 1)) s) (\<lambda>to s.
     bindK (bread (i2u (log_dev s)) (i2u (lh_block s ! tail)) s) (\<lambda>from s.
       let s = upd_data to (\<lambda>_. b_data (buf_at s from)) s in
     bindK (bwrite to s) (\<lambda>_ s.
     bindK (brelse from s) (\<lambda>_ s.
       brelse to s))))"

definition write_log :: "'s logst_scheme \<Rightarrow> ('s logst_scheme, unit) kres" where
  "write_log s = forK [0..<nat (lh_n s)] write_log_block s"

definition commit :: "'s logst_scheme \<Rightarrow> ('s logst_scheme, unit) kres" where
  "commit s =
     (if lh_n s > 0
      then bindK (write_log s) (\<lambda>_ s.
           bindK (write_head s) (\<lambda>_ s.
           bindK (install_trans False s) (\<lambda>_ s.
             write_head (s\<lparr>lh_n := 0\<rparr>))))
      else ret () s)"

definition end_op :: "'s logst_scheme \<Rightarrow> ('s logst_scheme, unit) kres" where
  "end_op s =
     bindK (acquire Log_lock s) (\<lambda>_ s.
       let s = s\<lparr>log_outstanding := log_outstanding s - 1\<rparr> in
       if log_committing s \<noteq> 0 then panic ''log.committing''
       else if log_outstanding s = 0
       then bindK (release Log_lock (s\<lparr>log_committing := 1\<rparr>)) (\<lambda>_ s.
            bindK (commit s) (\<lambda>_ s.
            bindK (acquire Log_lock s) (\<lambda>_ s.
            bindK (wakeup (Some Chan_log) (s\<lparr>log_committing := 0\<rparr>)) (\<lambda>_ s.
              release Log_lock s))))
       else bindK (wakeup (Some Chan_log) s) (\<lambda>_ s. release Log_lock s))"

definition log_write :: "nat \<Rightarrow> 's logst_scheme \<Rightarrow> ('s logst_scheme, unit) kres" where
  "log_write b s =
     bindK (acquire Log_lock s) (\<lambda>_ s.
       if lh_n s \<ge> int LOGBLOCKS then panic ''too big a transaction''
       else if log_outstanding s < 1 then panic ''log_write outside of trans''
       else
         let bn = b_blockno (buf_at s b);
             i = (case find (\<lambda>i. i2u (lh_block s ! i) = bn) [0..<nat (lh_n s)] of
                    Some i \<Rightarrow> i | None \<Rightarrow> nat (lh_n s));
             s = s\<lparr>lh_block := (lh_block s)[i := sint bn]\<rparr>
         in bindK (if int i = lh_n s
                   then bindK (bpin b s) (\<lambda>_ s. ret () (s\<lparr>lh_n := lh_n s + 1\<rparr>))
                   else ret () s) (\<lambda>_ s.
              release Log_lock s))"

definition boot_log :: logst where
  "boot_log = bcache.extend boot_bcache (logst.fields 0 0 0 0 0 (replicate LOGBLOCKS 0))"

end
