(* ===== verification/Vm.thy ===== *)
theory Vm
  imports Proc_Table
begin

text \<open>
  \<^verbatim>\<open>kernel/vm.c\<close>: Sv39 page tables, kept in the modelled RAM as the code keeps them. A page
  table is the address of its root page, 0 when there is none. A loop over the pages of an
  address range runs over the list of their addresses: \<open>walk\<close> panics at \<open>MAXVA\<close>, long before
  an address could wrap around. A kernel buffer that \<open>copyout\<close> reads or \<open>copyin\<close> fills is a
  byte list; it never overlaps the user's page.
\<close>

section \<open>Definitions\<close>

abbreviation (input) PTE_V :: u64 where "PTE_V \<equiv> 1"
abbreviation (input) PTE_R :: u64 where "PTE_R \<equiv> 2"
abbreviation (input) PTE_W :: u64 where "PTE_W \<equiv> 4"
abbreviation (input) PTE_X :: u64 where "PTE_X \<equiv> 8"
abbreviation (input) PTE_U :: u64 where "PTE_U \<equiv> 16"

definition PGROUNDDOWN :: "u64 \<Rightarrow> u64" where
  "PGROUNDDOWN a = a AND NOT (PGSIZE - 1)"

definition PA2PTE :: "u64 \<Rightarrow> u64" where
  "PA2PTE pa = push_bit 10 (drop_bit 12 pa)"

definition PTE2PA :: "u64 \<Rightarrow> u64" where
  "PTE2PA pte = push_bit 12 (drop_bit 10 pte)"

definition PTE_FLAGS :: "u64 \<Rightarrow> u64" where
  "PTE_FLAGS pte = pte AND 0x3FF"

definition PX :: "nat \<Rightarrow> u64 \<Rightarrow> u64" where
  "PX level va = drop_bit (12 + 9 * level) va AND 0x1FF"

text \<open>The address of entry \<open>i\<close> of the page table page \<open>pt\<close>.\<close>

definition pte_addr :: "u64 \<Rightarrow> u64 \<Rightarrow> u64" where
  "pte_addr pt i = pt + 8 * i"

definition set_pte :: "u64 \<Rightarrow> u64 \<Rightarrow> 's kmem_scheme \<Rightarrow> 's kmem_scheme" where
  "set_pte a v s = s\<lparr>ram := store64 (ram s) a v\<rparr>"

definition zero_page :: "u64 \<Rightarrow> 's kmem_scheme \<Rightarrow> 's kmem_scheme" where
  "zero_page p s = s\<lparr>ram := memset (ram s) p 0 4096\<rparr>"

text \<open>The loop of \<open>walk\<close>; the first argument is \<open>level\<close>.\<close>

fun walk_levels ::
  "nat \<Rightarrow> u64 \<Rightarrow> u64 \<Rightarrow> bool \<Rightarrow> 's kmem_scheme \<Rightarrow> ('s kmem_scheme, u64) kres" where
  "walk_levels 0 pagetable va alloc s = ret (pte_addr pagetable (PX 0 va)) s"
| "walk_levels (Suc l) pagetable va alloc s =
     (let pte = pte_addr pagetable (PX (Suc l) va); e = load64 (ram s) pte
      in if e AND PTE_V \<noteq> 0 then walk_levels l (PTE2PA e) va alloc s
         else if \<not> alloc then ret 0 s
         else bindK (kalloc s) (\<lambda>p s.
           if p = 0 then ret 0 s
           else walk_levels l p va alloc (set_pte pte (PA2PTE p OR PTE_V) (zero_page p s))))"

definition walk :: "u64 \<Rightarrow> u64 \<Rightarrow> bool \<Rightarrow> 's kmem_scheme \<Rightarrow> ('s kmem_scheme, u64) kres" where
  "walk pagetable va alloc s =
     (if va \<ge> MAXVA then panic ''walk'' else walk_levels 2 pagetable va alloc s)"

definition walkaddr :: "u64 \<Rightarrow> u64 \<Rightarrow> 's kmem_scheme \<Rightarrow> ('s kmem_scheme, u64) kres" where
  "walkaddr pagetable va s =
     (if va \<ge> MAXVA then ret 0 s
      else bindK (walk pagetable va False s) (\<lambda>pte s.
        if pte = 0 then ret 0 s
        else let e = load64 (ram s) pte
             in if e AND PTE_V = 0 then ret 0 s
                else if e AND PTE_U = 0 then ret 0 s
                else ret (PTE2PA e) s))"

text \<open>The loop of \<open>mappages\<close> over the pairs of virtual and physical page addresses.\<close>

fun mappages_loop ::
  "u64 \<Rightarrow> u64 \<Rightarrow> (u64 \<times> u64) list \<Rightarrow> 's kmem_scheme \<Rightarrow> ('s kmem_scheme, int) kres" where
  "mappages_loop pagetable perm [] s = ret 0 s"
| "mappages_loop pagetable perm ((a, pa) # rest) s =
     bindK (walk pagetable a True s) (\<lambda>pte s.
       if pte = 0 then ret (- 1) s
       else if load64 (ram s) pte AND PTE_V \<noteq> 0 then panic ''mappages: remap''
       else mappages_loop pagetable perm rest (set_pte pte (PA2PTE pa OR perm OR PTE_V) s))"

definition mappages ::
  "u64 \<Rightarrow> u64 \<Rightarrow> u64 \<Rightarrow> u64 \<Rightarrow> u64 \<Rightarrow> 's kmem_scheme \<Rightarrow> ('s kmem_scheme, int) kres" where
  "mappages pagetable va sz pa perm s =
     (if va mod PGSIZE \<noteq> 0 then panic ''mappages: va not aligned''
      else if sz mod PGSIZE \<noteq> 0 then panic ''mappages: size not aligned''
      else if sz = 0 then panic ''mappages: size''
      else mappages_loop pagetable perm
             (map (\<lambda>k. (va + of_nat k * PGSIZE, pa + of_nat k * PGSIZE)) [0..<unat (sz div PGSIZE)]) s)"

definition kvmmap ::
  "u64 \<Rightarrow> u64 \<Rightarrow> u64 \<Rightarrow> u64 \<Rightarrow> u64 \<Rightarrow> 's kmem_scheme \<Rightarrow> ('s kmem_scheme, unit) kres" where
  "kvmmap kpgtbl va pa sz perm s =
     bindK (mappages kpgtbl va sz pa perm s) (\<lambda>r s.
       if r \<noteq> 0 then panic ''kvmmap'' else ret () s)"

definition proc_mapstacks :: "u64 \<Rightarrow> 's kmem_scheme \<Rightarrow> ('s kmem_scheme, unit) kres" where
  "proc_mapstacks kpgtbl s =
     forK [0..<NPROC]
       (\<lambda>p s. bindK (kalloc s) (\<lambda>pa s.
          if pa = 0 then panic ''kalloc''
          else kvmmap kpgtbl (KSTACK p) pa PGSIZE (PTE_R OR PTE_W) s)) s"

text \<open>\<open>kvmmake\<close>; the page for the root is not checked for null, so \<open>memset\<close> would fault.\<close>

definition kvmmake :: "'s ptable_scheme \<Rightarrow> ('s ptable_scheme, u64) kres" where
  "kvmmake s =
     bindK (kalloc s) (\<lambda>kpgtbl s.
       if kpgtbl = 0 then Inl Null_deref
       else
       bindK (kvmmap kpgtbl 0x10000000 0x10000000 PGSIZE (PTE_R OR PTE_W) (zero_page kpgtbl s)) (\<lambda>_ s.
       bindK (kvmmap kpgtbl 0x10001000 0x10001000 PGSIZE (PTE_R OR PTE_W) s) (\<lambda>_ s.
       bindK (kvmmap kpgtbl 0x0c000000 0x0c000000 0x4000000 (PTE_R OR PTE_W) s) (\<lambda>_ s.
       bindK (kvmmap kpgtbl KERNBASE KERNBASE (etext s - KERNBASE) (PTE_R OR PTE_X) s) (\<lambda>_ s.
       bindK (kvmmap kpgtbl (etext s) (etext s) (PHYSTOP - etext s) (PTE_R OR PTE_W) s) (\<lambda>_ s.
       bindK (kvmmap kpgtbl TRAMPOLINE (trampoline s) PGSIZE (PTE_R OR PTE_X) s) (\<lambda>_ s.
       bindK (proc_mapstacks kpgtbl s) (\<lambda>_ s.
         ret kpgtbl s))))))))"

definition kvminit :: "'s ptable_scheme \<Rightarrow> ('s ptable_scheme, unit) kres" where
  "kvminit s = bindK (kvmmake s) (\<lambda>pt s. ret () (s\<lparr>kernel_pagetable := pt\<rparr>))"

text \<open>\<^verbatim>\<open>MAKE_SATP\<close> of \<^verbatim>\<open>riscv.h\<close>: mode Sv39 and the page number of the root.\<close>

definition MAKE_SATP :: "u64 \<Rightarrow> u64" where
  "MAKE_SATP pagetable = push_bit 60 8 OR drop_bit 12 pagetable"

definition kvminithart :: "'s ptable_scheme \<Rightarrow> 's ptable_scheme" where
  "kvminithart s = s\<lparr>satp := MAKE_SATP (kernel_pagetable s)\<rparr>"

definition uvmcreate :: "'s kmem_scheme \<Rightarrow> ('s kmem_scheme, u64) kres" where
  "uvmcreate s =
     bindK (kalloc s) (\<lambda>pagetable s.
       if pagetable = 0 then ret 0 s else ret pagetable (zero_page pagetable s))"

text \<open>The addresses a loop \<^verbatim>\<open>for(a = lo; a < hi; a += PGSIZE)\<close> visits.\<close>

definition page_range :: "u64 \<Rightarrow> u64 \<Rightarrow> u64 list" where
  "page_range lo hi =
     (if lo < hi then map (\<lambda>k. lo + of_nat k * PGSIZE) [0..<(unat (hi - lo) + 4095) div 4096] else [])"

definition unmap_page ::
  "u64 \<Rightarrow> bool \<Rightarrow> u64 \<Rightarrow> 's kmem_scheme \<Rightarrow> ('s kmem_scheme, unit) kres" where
  "unmap_page pagetable do_free a s =
     bindK (walk pagetable a False s) (\<lambda>pte s.
       if pte = 0 then ret () s
       else if load64 (ram s) pte AND PTE_V = 0 then ret () s
       else bindK (if do_free then kfree (PTE2PA (load64 (ram s) pte)) s else ret () s) (\<lambda>_ s.
         ret () (set_pte pte 0 s)))"

definition uvmunmap ::
  "u64 \<Rightarrow> u64 \<Rightarrow> u64 \<Rightarrow> bool \<Rightarrow> 's kmem_scheme \<Rightarrow> ('s kmem_scheme, unit) kres" where
  "uvmunmap pagetable va npages do_free s =
     (if va mod PGSIZE \<noteq> 0 then panic ''uvmunmap: not aligned''
      else forK (page_range va (va + npages * PGSIZE)) (unmap_page pagetable do_free) s)"

text \<open>\<open>npages\<close> is an \<^verbatim>\<open>int\<close>: the quotient is cut to 32 bits and sign-extended again.\<close>

definition uvmdealloc ::
  "u64 \<Rightarrow> u64 \<Rightarrow> u64 \<Rightarrow> 's kmem_scheme \<Rightarrow> ('s kmem_scheme, u64) kres" where
  "uvmdealloc pagetable oldsz newsz s =
     (if newsz \<ge> oldsz then ret oldsz s
      else if PGROUNDUP newsz < PGROUNDUP oldsz
      then let npages = (ucast ((PGROUNDUP oldsz - PGROUNDUP newsz) div PGSIZE) :: u32)
           in bindK (uvmunmap pagetable (PGROUNDUP newsz) (scast npages) True s) (\<lambda>_ s. ret newsz s)
      else ret newsz s)"

fun uvmalloc_loop ::
  "u64 \<Rightarrow> u64 \<Rightarrow> u64 \<Rightarrow> u64 \<Rightarrow> u64 list \<Rightarrow> 's kmem_scheme \<Rightarrow> ('s kmem_scheme, u64) kres" where
  "uvmalloc_loop pagetable oldsz newsz xperm [] s = ret newsz s"
| "uvmalloc_loop pagetable oldsz newsz xperm (a # rest) s =
     bindK (kalloc s) (\<lambda>mem s.
       if mem = 0 then bindK (uvmdealloc pagetable a oldsz s) (\<lambda>_ s. ret 0 s)
       else bindK (mappages pagetable a PGSIZE mem (PTE_R OR PTE_U OR xperm) (zero_page mem s)) (\<lambda>r s.
         if r \<noteq> 0 then bindK (kfree mem s) (\<lambda>_ s.
           bindK (uvmdealloc pagetable a oldsz s) (\<lambda>_ s. ret 0 s))
         else uvmalloc_loop pagetable oldsz newsz xperm rest s))"

definition uvmalloc ::
  "u64 \<Rightarrow> u64 \<Rightarrow> u64 \<Rightarrow> u64 \<Rightarrow> 's kmem_scheme \<Rightarrow> ('s kmem_scheme, u64) kres" where
  "uvmalloc pagetable oldsz newsz xperm s =
     (if newsz < oldsz then ret oldsz s
      else let oldsz = PGROUNDUP oldsz
           in uvmalloc_loop pagetable oldsz newsz xperm (page_range oldsz newsz) s)"

text \<open>
  \<open>freewalk\<close> recurses into the entries that are valid and not leaves; the first argument is
  the number of levels, three for a page table of this hardware.
\<close>

fun freewalk :: "nat \<Rightarrow> u64 \<Rightarrow> 's kmem_scheme \<Rightarrow> ('s kmem_scheme, unit) kres" where
  "freewalk 0 pagetable s = Inl Undefined"
| "freewalk (Suc levels) pagetable s =
     bindK (forK [0..<512]
       (\<lambda>i s. let a = pte_addr pagetable (of_nat i); pte = load64 (ram s) a
              in if pte AND PTE_V \<noteq> 0 \<and> pte AND (PTE_R OR PTE_W OR PTE_X) = 0
                 then bindK (freewalk levels (PTE2PA pte) s) (\<lambda>_ s. ret () (set_pte a 0 s))
                 else if pte AND PTE_V \<noteq> 0 then panic ''freewalk: leaf''
                 else ret () s) s)
       (\<lambda>_ s. kfree pagetable s)"

definition uvmfree :: "u64 \<Rightarrow> u64 \<Rightarrow> 's kmem_scheme \<Rightarrow> ('s kmem_scheme, unit) kres" where
  "uvmfree pagetable sz s =
     bindK (if sz > 0 then uvmunmap pagetable 0 (PGROUNDUP sz div PGSIZE) True s else ret () s)
       (\<lambda>_ s. freewalk 3 pagetable s)"

text \<open>The loop of \<open>uvmcopy\<close>; its label \<open>err\<close> is the function \<open>uvmcopy_err\<close>.\<close>

definition uvmcopy_err :: "u64 \<Rightarrow> u64 \<Rightarrow> 's kmem_scheme \<Rightarrow> ('s kmem_scheme, int) kres" where
  "uvmcopy_err new i s = bindK (uvmunmap new 0 (i div PGSIZE) True s) (\<lambda>_ s. ret (- 1) s)"

fun uvmcopy_loop :: "u64 \<Rightarrow> u64 \<Rightarrow> u64 list \<Rightarrow> 's kmem_scheme \<Rightarrow> ('s kmem_scheme, int) kres" where
  "uvmcopy_loop old new [] s = ret 0 s"
| "uvmcopy_loop old new (i # rest) s =
     bindK (walk old i False s) (\<lambda>pte s.
       if pte = 0 then uvmcopy_loop old new rest s
       else if load64 (ram s) pte AND PTE_V = 0 then uvmcopy_loop old new rest s
       else let pa = PTE2PA (load64 (ram s) pte); flags = PTE_FLAGS (load64 (ram s) pte)
            in bindK (kalloc s) (\<lambda>mem s.
                 if mem = 0 then uvmcopy_err new i s
                 else bindK (mappages new i PGSIZE mem flags (s\<lparr>ram := memmove (ram s) mem pa 4096\<rparr>)) (\<lambda>r s.
                   if r \<noteq> 0 then bindK (kfree mem s) (\<lambda>_ s. uvmcopy_err new i s)
                   else uvmcopy_loop old new rest s)))"

definition uvmcopy :: "u64 \<Rightarrow> u64 \<Rightarrow> u64 \<Rightarrow> 's kmem_scheme \<Rightarrow> ('s kmem_scheme, int) kres" where
  "uvmcopy old new sz s = uvmcopy_loop old new (page_range 0 sz) s"

definition uvmclear :: "u64 \<Rightarrow> u64 \<Rightarrow> 's kmem_scheme \<Rightarrow> ('s kmem_scheme, unit) kres" where
  "uvmclear pagetable va s =
     bindK (walk pagetable va False s) (\<lambda>pte s.
       if pte = 0 then panic ''uvmclear''
       else ret () (set_pte pte (load64 (ram s) pte AND NOT PTE_U) s))"

definition ismapped :: "u64 \<Rightarrow> u64 \<Rightarrow> 's kmem_scheme \<Rightarrow> ('s kmem_scheme, bool) kres" where
  "ismapped pagetable va s =
     bindK (walk pagetable va False s) (\<lambda>pte s.
       if pte = 0 then ret False s else ret (load64 (ram s) pte AND PTE_V \<noteq> 0) s)"

definition vmfault :: "u64 \<Rightarrow> u64 \<Rightarrow> 's ptable_scheme \<Rightarrow> ('s ptable_scheme, u64) kres" where
  "vmfault pagetable va s =
     (case myproc s of
        None \<Rightarrow> Inl Null_deref
      | Some p \<Rightarrow>
          if va \<ge> p_sz (proc_at s p) then ret 0 s
          else let va = PGROUNDDOWN va in
          bindK (ismapped pagetable va s) (\<lambda>m s.
            if m then ret 0 s
            else bindK (kalloc s) (\<lambda>mem s.
              if mem = 0 then ret 0 s
              else bindK (mappages (p_pagetable (proc_at s p)) va PGSIZE mem (PTE_W OR PTE_U OR PTE_R)
                           (zero_page mem s)) (\<lambda>r s.
                if r \<noteq> 0 then bindK (kfree mem s) (\<lambda>_ s. ret 0 s)
                else ret mem s))))"

text \<open>The bytes of RAM at an address, and writing a buffer there.\<close>

definition read_bytes :: "mem \<Rightarrow> u64 \<Rightarrow> nat \<Rightarrow> byte list" where
  "read_bytes m a n = map (\<lambda>i. m (a + of_nat i)) [0..<n]"

definition write_bytes :: "mem \<Rightarrow> u64 \<Rightarrow> byte list \<Rightarrow> mem" where
  "write_bytes m a bs = (\<lambda>x. if unat (x - a) < length bs then bs ! unat (x - a) else m x)"

text \<open>What \<open>copyout\<close> and \<open>copyin\<close> do first for a page: find it, or fault it in.\<close>

definition user_page :: "u64 \<Rightarrow> u64 \<Rightarrow> 's ptable_scheme \<Rightarrow> ('s ptable_scheme, u64) kres" where
  "user_page pagetable va0 s =
     bindK (walkaddr pagetable va0 s) (\<lambda>pa0 s.
       if pa0 = 0 then vmfault pagetable va0 s else ret pa0 s)"

text \<open>
  The loop of \<open>copyout\<close>. Every round but the last copies up to the end of a page, so the
  rounds are bounded by the number of pages of the buffer plus one.
\<close>

fun copyout_loop ::
  "nat \<Rightarrow> u64 \<Rightarrow> u64 \<Rightarrow> byte list \<Rightarrow> 's ptable_scheme \<Rightarrow> ('s ptable_scheme, int) kres" where
  "copyout_loop 0 pagetable dstva src s = (if src = [] then ret 0 s else Inl Undefined)"
| "copyout_loop (Suc fuel) pagetable dstva src s =
     (if src = [] then ret 0 s
      else let va0 = PGROUNDDOWN dstva in
      if va0 \<ge> MAXVA then ret (- 1) s
      else bindK (user_page pagetable va0 s) (\<lambda>pa0 s.
        if pa0 = 0 then ret (- 1) s
        else bindK (walk pagetable va0 False s) (\<lambda>pte s.
          if pte = 0 then Inl Null_deref
          else if load64 (ram s) pte AND PTE_W = 0 then ret (- 1) s
          else let n = min (unat (PGSIZE - (dstva - va0))) (length src)
               in copyout_loop fuel pagetable (va0 + PGSIZE) (drop n src)
                    (s\<lparr>ram := write_bytes (ram s) (pa0 + (dstva - va0)) (take n src)\<rparr>))))"

definition copyout ::
  "u64 \<Rightarrow> u64 \<Rightarrow> byte list \<Rightarrow> 's ptable_scheme \<Rightarrow> ('s ptable_scheme, int) kres" where
  "copyout pagetable dstva src s = copyout_loop (length src div 4096 + 2) pagetable dstva src s"

text \<open>The result of \<open>copyin\<close> is its value and the bytes that it wrote to \<open>dst\<close>.\<close>

fun copyin_loop ::
  "nat \<Rightarrow> u64 \<Rightarrow> u64 \<Rightarrow> nat \<Rightarrow> byte list \<Rightarrow> 's ptable_scheme
     \<Rightarrow> ('s ptable_scheme, int \<times> byte list) kres" where
  "copyin_loop 0 pagetable srcva len dst s = (if len = 0 then ret (0, dst) s else Inl Undefined)"
| "copyin_loop (Suc fuel) pagetable srcva len dst s =
     (if len = 0 then ret (0, dst) s
      else let va0 = PGROUNDDOWN srcva in
      bindK (user_page pagetable va0 s) (\<lambda>pa0 s.
        if pa0 = 0 then ret (- 1, dst) s
        else let n = min (unat (PGSIZE - (srcva - va0))) len
             in copyin_loop fuel pagetable (va0 + PGSIZE) (len - n)
                  (dst @ read_bytes (ram s) (pa0 + (srcva - va0)) n) s))"

definition copyin ::
  "u64 \<Rightarrow> u64 \<Rightarrow> nat \<Rightarrow> 's ptable_scheme \<Rightarrow> ('s ptable_scheme, int \<times> byte list) kres" where
  "copyin pagetable srcva len s = copyin_loop (len div 4096 + 2) pagetable srcva len [] s"

text \<open>
  The inner loop of \<open>copyinstr\<close>: the bytes it stores from one page, whether it met a NUL,
  and what is left of \<open>max\<close>.
\<close>

fun copyinstr_page :: "nat \<Rightarrow> mem \<Rightarrow> u64 \<Rightarrow> nat \<Rightarrow> byte list \<times> bool \<times> nat" where
  "copyinstr_page 0 m p mx = ([], False, mx)"
| "copyinstr_page (Suc n) m p mx =
     (if m p = 0 then ([0], True, mx)
      else let (bs, got_null, mx') = copyinstr_page n m (p + 1) (mx - 1)
           in (m p # bs, got_null, mx'))"

fun copyinstr_loop ::
  "nat \<Rightarrow> u64 \<Rightarrow> u64 \<Rightarrow> nat \<Rightarrow> byte list \<Rightarrow> 's kmem_scheme
     \<Rightarrow> ('s kmem_scheme, int \<times> byte list) kres" where
  "copyinstr_loop 0 pagetable srcva mx dst s = (if mx = 0 then ret (- 1, dst) s else Inl Undefined)"
| "copyinstr_loop (Suc fuel) pagetable srcva mx dst s =
     (if mx = 0 then ret (- 1, dst) s
      else let va0 = PGROUNDDOWN srcva in
      bindK (walkaddr pagetable va0 s) (\<lambda>pa0 s.
        if pa0 = 0 then ret (- 1, dst) s
        else let n = min (unat (PGSIZE - (srcva - va0))) mx;
                 (bs, got_null, mx') = copyinstr_page n (ram s) (pa0 + (srcva - va0)) mx
             in if got_null then ret (0, dst @ bs) s
                else copyinstr_loop fuel pagetable (va0 + PGSIZE) mx' (dst @ bs) s))"

definition copyinstr ::
  "u64 \<Rightarrow> u64 \<Rightarrow> nat \<Rightarrow> 's kmem_scheme \<Rightarrow> ('s kmem_scheme, int \<times> byte list) kres" where
  "copyinstr pagetable srcva mx s = copyinstr_loop (mx div 4096 + 2) pagetable srcva mx [] s"

section \<open>What the operations leave alone\<close>

lemma set_pte_mem_only [simp]: "mem_only s (set_pte a v s)"
  by (simp add: set_pte_def)

lemma zero_page_mem_only [simp]: "mem_only s (zero_page p s)"
  by (simp add: zero_page_def)

named_theorems mem_frame \<open>operations that change only RAM and the free list\<close>

declare kalloc_mem_only [mem_frame] kfree_mem_only [mem_frame]

lemma keeps_if: "(b \<Longrightarrow> keeps R s m) \<Longrightarrow> (\<not> b \<Longrightarrow> keeps R s m') \<Longrightarrow> keeps R s (if b then m else m')"
  by simp

lemma mem_after: "keeps mem_only t m \<Longrightarrow> mem_only s t \<Longrightarrow> keeps mem_only s m"
  by (auto simp: keeps_def intro: mem_only_trans)

lemma walk_levels_mem [mem_frame]: "keeps mem_only s (walk_levels l pt va a s)"
proof (induction l arbitrary: pt a s)
  case (Suc l)
  show ?case
    by (auto simp: Let_def intro!: mem_bind kalloc_mem_only Suc
        mem_after [OF Suc mem_only_trans [OF zero_page_mem_only set_pte_mem_only]])
qed simp

lemma walk_mem [mem_frame]: "keeps mem_only s (walk pt va a s)"
  by (simp add: walk_def mem_frame)

lemma walkaddr_mem [mem_frame]: "keeps mem_only s (walkaddr pt va s)"
  by (auto simp: walkaddr_def Let_def intro!: mem_bind walk_mem)

lemma mappages_loop_mem: "keeps mem_only s (mappages_loop pt perm ps s)"
proof (induction ps arbitrary: s)
  case (Cons p ps)
  show ?case
    by (cases p) (auto intro!: mem_bind walk_mem mem_after [OF Cons set_pte_mem_only])
qed simp

lemma mappages_mem [mem_frame]: "keeps mem_only s (mappages pt va sz pa perm s)"
  by (simp add: mappages_def mappages_loop_mem)

lemma unmap_page_mem: "keeps mem_only s (unmap_page pt b a s)"
  by (auto simp: unmap_page_def intro!: mem_bind walk_mem kfree_mem_only)

lemma uvmunmap_mem [mem_frame]: "keeps mem_only s (uvmunmap pt va n b s)"
  by (auto simp: uvmunmap_def intro!: mem_forK unmap_page_mem)

lemma uvmdealloc_mem [mem_frame]: "keeps mem_only s (uvmdealloc pt a b s)"
  by (auto simp: uvmdealloc_def Let_def intro!: mem_bind uvmunmap_mem)

lemma uvmalloc_loop_mem: "keeps mem_only s (uvmalloc_loop pt a b x ps s)"
proof (induction ps arbitrary: s)
  case (Cons p ps)
  show ?case
    by (auto intro!: mem_bind kalloc_mem_only uvmdealloc_mem kfree_mem_only Cons
        mem_after [OF mappages_mem zero_page_mem_only])
qed simp

lemma uvmalloc_mem [mem_frame]: "keeps mem_only s (uvmalloc pt a b x s)"
  by (simp add: uvmalloc_def Let_def uvmalloc_loop_mem)

lemma freewalk_mem: "keeps mem_only s (freewalk l pt s)"
proof (induction l arbitrary: pt s)
  case (Suc l)
  show ?case
    by (auto simp: Let_def intro!: mem_bind mem_forK kfree_mem_only Suc)
qed simp

lemma uvmfree_mem [mem_frame]: "keeps mem_only s (uvmfree pt sz s)"
  by (auto simp: uvmfree_def intro!: mem_bind uvmunmap_mem freewalk_mem)

lemma uvmcreate_mem [mem_frame]: "keeps mem_only s (uvmcreate s)"
  by (auto simp: uvmcreate_def intro!: mem_bind kalloc_mem_only)

lemma uvmcopy_loop_mem: "keeps mem_only s (uvmcopy_loop old new ps s)"
proof (induction ps arbitrary: s)
  case (Cons p ps)
  show ?case
    by (auto simp: Let_def uvmcopy_err_def intro!: mem_bind walk_mem kalloc_mem_only kfree_mem_only
        uvmunmap_mem Cons mem_after [OF mappages_mem mem_only_ram])
qed simp

lemma uvmcopy_mem [mem_frame]: "keeps mem_only s (uvmcopy old new sz s)"
  by (simp add: uvmcopy_def uvmcopy_loop_mem)

lemma uvmclear_mem [mem_frame]: "keeps mem_only s (uvmclear pt va s)"
  by (auto simp: uvmclear_def intro!: mem_bind walk_mem)

lemma ismapped_mem [mem_frame]: "keeps mem_only s (ismapped pt va s)"
  by (auto simp: ismapped_def intro!: mem_bind walk_mem)

lemma vmfault_mem [mem_frame]: "keeps mem_only s (vmfault pt va s)"
  by (auto simp: vmfault_def Let_def split: option.split intro!: mem_bind ismapped_mem kalloc_mem_only
      kfree_mem_only mem_after [OF mappages_mem zero_page_mem_only])

lemma user_page_mem [mem_frame]: "keeps mem_only s (user_page pt va s)"
  by (auto simp: user_page_def intro!: mem_bind walkaddr_mem vmfault_mem)

lemma copyout_loop_mem: "keeps mem_only s (copyout_loop k pt va bs s)"
proof (induction k arbitrary: va bs s)
  case (Suc k)
  show ?case
    by (auto simp: Let_def intro!: mem_bind user_page_mem walk_mem mem_after [OF Suc mem_only_ram])
qed simp

lemma copyout_mem [mem_frame]: "keeps mem_only s (copyout pt va bs s)"
  unfolding copyout_def by (rule copyout_loop_mem)

lemma copyin_loop_mem: "keeps mem_only s (copyin_loop k pt va n acc s)"
proof (induction k arbitrary: va n acc s)
  case (Suc k)
  show ?case by (auto simp: Let_def intro!: mem_bind user_page_mem Suc)
qed simp

lemma copyin_mem [mem_frame]: "keeps mem_only s (copyin pt va n s)"
  unfolding copyin_def by (rule copyin_loop_mem)

lemma copyin_loop_length:
  "copyin_loop k pt va n acc s = ret (r, bs) t \<Longrightarrow>
     r = 0 \<and> length bs = length acc + n \<or> r = - 1 \<and> length bs \<le> length acc + n"
proof (induction k arbitrary: va n acc s)
  case (Suc k)
  then show ?case
    by (fastforce simp: Let_def bindK_eq_ret read_bytes_def split: if_splits dest: Suc.IH)
qed (auto split: if_splits)

lemma copyin_length:
  "copyin pt va n s = ret (r, bs) t \<Longrightarrow> r = 0 \<and> length bs = n \<or> r = - 1 \<and> length bs \<le> n"
  unfolding copyin_def by (drule copyin_loop_length) simp

end
