(* ===== verification/Proc_Mem.thy ===== *)
theory Proc_Mem
  imports Vm
begin

text \<open>
  The memory of a process, from \<^verbatim>\<open>kernel/proc.c\<close> and \<^verbatim>\<open>kernel/sysproc.c\<close>: creating and freeing
  a process entry with its page table, growing and shrinking, and the copies to and from
  a user or a kernel address.
\<close>

section \<open>Definitions\<close>

definition proc_pagetable :: "nat \<Rightarrow> 's ptable_scheme \<Rightarrow> ('s ptable_scheme, u64) kres" where
  "proc_pagetable p s =
     bindK (uvmcreate s) (\<lambda>pagetable s.
       if pagetable = 0 then ret 0 s
       else bindK (mappages pagetable TRAMPOLINE PGSIZE (trampoline s) (PTE_R OR PTE_X) s) (\<lambda>r s.
         if r < 0 then bindK (uvmfree pagetable 0 s) (\<lambda>_ s. ret 0 s)
         else bindK (mappages pagetable TRAPFRAME PGSIZE (p_trapframe (proc_at s p)) (PTE_R OR PTE_W) s) (\<lambda>r s.
           if r < 0
           then bindK (uvmunmap pagetable TRAMPOLINE 1 False s) (\<lambda>_ s.
                bindK (uvmfree pagetable 0 s) (\<lambda>_ s. ret 0 s))
           else ret pagetable s)))"

definition proc_freepagetable :: "u64 \<Rightarrow> u64 \<Rightarrow> 's ptable_scheme \<Rightarrow> ('s ptable_scheme, unit) kres" where
  "proc_freepagetable pagetable sz s =
     bindK (uvmunmap pagetable TRAMPOLINE 1 False s) (\<lambda>_ s.
     bindK (uvmunmap pagetable TRAPFRAME 1 False s) (\<lambda>_ s.
       uvmfree pagetable sz s))"

text \<open>The assignments of \<open>freeproc\<close> after the pages are gone.\<close>

definition clear_proc :: "proc \<Rightarrow> proc" where
  "clear_proc q =
     q\<lparr>p_sz := 0, p_pid := 0, p_parent := None, p_name := (p_name q)[0 := 0], p_chan := None,
       p_killed := 0, p_xstate := 0, p_state := UNUSED, p_energy_budget := 0,
       p_energy_consumed := 0, p_last_scheduled_tick := 0, p_waiting_for_lock := None,
       p_deadlock_reports := 0, p_in_deadlock := 0, p_holding_res := replicate NRES 0,
       p_waiting_res := - 1\<rparr>"

definition freeproc :: "nat \<Rightarrow> 's ptable_scheme \<Rightarrow> ('s ptable_scheme, unit) kres" where
  "freeproc p s =
     bindK (if p_trapframe (proc_at s p) \<noteq> 0 then kfree (p_trapframe (proc_at s p)) s else ret () s) (\<lambda>_ s.
       let s = upd_proc p (\<lambda>q. q\<lparr>p_trapframe := 0\<rparr>) s in
     bindK (if p_pagetable (proc_at s p) \<noteq> 0
            then proc_freepagetable (p_pagetable (proc_at s p)) (p_sz (proc_at s p)) s
            else ret () s) (\<lambda>_ s.
       ret () (upd_proc p clear_proc (upd_proc p (\<lambda>q. q\<lparr>p_pagetable := 0\<rparr>) s))))"

text \<open>The fields that \<open>allocproc\<close> sets before it allocates memory.\<close>

definition init_proc :: "int \<Rightarrow> proc \<Rightarrow> proc" where
  "init_proc pid q =
     q\<lparr>p_pid := pid, p_state := USED, p_waiting_tick := 0, p_energy_budget := DEFAULT_ENERGY_BUDGET,
       p_energy_consumed := 0, p_last_scheduled_tick := 0, p_waiting_for_lock := None,
       p_deadlock_reports := 0, p_in_deadlock := 0, p_holding_res := replicate NRES 0,
       p_waiting_res := - 1\<rparr>"

text \<open>The code of \<open>allocproc\<close> at its label \<open>found\<close>; the lock of \<open>p\<close> is held.\<close>

definition allocproc_found :: "nat \<Rightarrow> 's ptable_scheme \<Rightarrow> ('s ptable_scheme, nat option) kres" where
  "allocproc_found p s =
     bindK (allocpid s) (\<lambda>pid s.
     bindK (kalloc (upd_proc p (init_proc pid) s)) (\<lambda>tf s.
       let s = upd_proc p (\<lambda>q. q\<lparr>p_trapframe := tf\<rparr>) s in
       if tf = 0
       then bindK (freeproc p s) (\<lambda>_ s. bindK (release (Proc_lock p) s) (\<lambda>_ s. ret None s))
       else bindK (proc_pagetable p s) (\<lambda>pt s.
         let s = upd_proc p (\<lambda>q. q\<lparr>p_pagetable := pt\<rparr>) s in
         if pt = 0
         then bindK (freeproc p s) (\<lambda>_ s. bindK (release (Proc_lock p) s) (\<lambda>_ s. ret None s))
         else ret (Some p)
                (upd_proc p (\<lambda>q. q\<lparr>p_context := \<lparr>ctx_ra = forkret_addr s, ctx_sp = p_kstack q + PGSIZE,
                                                ctx_s = replicate 12 0\<rparr>\<rparr>) s))))"

fun allocproc_loop :: "nat list \<Rightarrow> 's ptable_scheme \<Rightarrow> ('s ptable_scheme, nat option) kres" where
  "allocproc_loop [] s = ret None s"
| "allocproc_loop (p # ps) s =
     bindK (acquire (Proc_lock p) s) (\<lambda>_ s.
       if p_state (proc_at s p) = UNUSED then allocproc_found p s
       else bindK (release (Proc_lock p) s) (\<lambda>_ s. allocproc_loop ps s))"

definition allocproc :: "'s ptable_scheme \<Rightarrow> ('s ptable_scheme, nat option) kres" where
  "allocproc s = allocproc_loop [0..<NPROC] s"

text \<open>\<open>growproc\<close>; \<open>n\<close> is an \<^verbatim>\<open>int\<close> and is sign-extended in \<^verbatim>\<open>sz + n\<close>.\<close>

definition growproc :: "int \<Rightarrow> 's ptable_scheme \<Rightarrow> ('s ptable_scheme, int) kres" where
  "growproc n s =
     (case myproc s of
        None \<Rightarrow> Inl Null_deref
      | Some p \<Rightarrow>
          let sz = p_sz (proc_at s p); pt = p_pagetable (proc_at s p) in
          if n > 0 then
            if sz + word_of_int n > TRAPFRAME then ret (- 1) s
            else bindK (uvmalloc pt sz (sz + word_of_int n) PTE_W s) (\<lambda>sz s.
              if sz = 0 then ret (- 1) s
              else ret 0 (upd_proc p (\<lambda>q. q\<lparr>p_sz := sz\<rparr>) s))
          else if n < 0 then
            bindK (uvmdealloc pt sz (sz + word_of_int n) s) (\<lambda>sz s.
              ret 0 (upd_proc p (\<lambda>q. q\<lparr>p_sz := sz\<rparr>) s))
          else ret 0 (upd_proc p (\<lambda>q. q\<lparr>p_sz := sz\<rparr>) s))"

definition sys_sbrk :: "int \<Rightarrow> int \<Rightarrow> 's ptable_scheme \<Rightarrow> ('s ptable_scheme, u64) kres" where
  "sys_sbrk n t s =
     (case myproc s of
        None \<Rightarrow> Inl Null_deref
      | Some p \<Rightarrow>
          let addr = p_sz (proc_at s p) in
          if t = 1 \<or> n < 0 then
            bindK (growproc n s) (\<lambda>r s. if r < 0 then ret (- 1) s else ret addr s)
          else if addr + word_of_int n < addr then ret (- 1) s
          else if addr + word_of_int n > TRAPFRAME then ret (- 1) s
          else ret addr (upd_proc p (\<lambda>q. q\<lparr>p_sz := p_sz q + word_of_int n\<rparr>) s))"

text \<open>
  Where \<open>either_copyout\<close> writes: a user address, a kernel address in RAM, or a local variable
  of the caller, which gets the bytes as a result of the calling operation. \<open>either_copyin\<close>
  reads from a user address or from a local variable, and its result has the bytes.
\<close>

datatype dst = User_dst u64 | Kernel_dst u64 | Local_dst

datatype src = User_src u64 | Local_src "byte list"

definition either_copyout ::
  "dst \<Rightarrow> byte list \<Rightarrow> 's ptable_scheme \<Rightarrow> ('s ptable_scheme, int) kres" where
  "either_copyout d bs s =
     (case d of
        User_dst va \<Rightarrow>
          (case myproc s of
             None \<Rightarrow> Inl Null_deref
           | Some p \<Rightarrow> copyout (p_pagetable (proc_at s p)) va bs s)
      | Kernel_dst a \<Rightarrow> ret 0 (s\<lparr>ram := write_bytes (ram s) a bs\<rparr>)
      | Local_dst \<Rightarrow> ret 0 s)"

definition either_copyin ::
  "src \<Rightarrow> nat \<Rightarrow> 's ptable_scheme \<Rightarrow> ('s ptable_scheme, int \<times> byte list) kres" where
  "either_copyin d len s =
     (case d of
        User_src va \<Rightarrow>
          (case myproc s of
             None \<Rightarrow> Inl Null_deref
           | Some p \<Rightarrow> copyin (p_pagetable (proc_at s p)) va len s)
      | Local_src bs \<Rightarrow> ret (0, take len bs) s)"

fun dst_add :: "dst \<Rightarrow> nat \<Rightarrow> dst" where
  "dst_add (User_dst a) m = User_dst (a + of_nat m)"
| "dst_add (Kernel_dst a) m = Kernel_dst (a + of_nat m)"
| "dst_add Local_dst m = Local_dst"

fun src_add :: "src \<Rightarrow> nat \<Rightarrow> src" where
  "src_add (User_src a) m = User_src (a + of_nat m)"
| "src_add (Local_src bs) m = Local_src (drop m bs)"

text \<open>
  \<^verbatim>\<open>p->trapframe\<close>: the 64-bit fields of \<^verbatim>\<open>struct trapframe\<close> in the page of the process, by their
  offset.
\<close>

abbreviation (input) TF_kernel_satp :: u64 where "TF_kernel_satp \<equiv> 0"
abbreviation (input) TF_kernel_sp :: u64 where "TF_kernel_sp \<equiv> 8"
abbreviation (input) TF_kernel_trap :: u64 where "TF_kernel_trap \<equiv> 16"
abbreviation (input) TF_epc :: u64 where "TF_epc \<equiv> 24"
abbreviation (input) TF_kernel_hartid :: u64 where "TF_kernel_hartid \<equiv> 32"
abbreviation (input) TF_sp :: u64 where "TF_sp \<equiv> 48"
abbreviation (input) TF_a0 :: u64 where "TF_a0 \<equiv> 112"
abbreviation (input) TF_a1 :: u64 where "TF_a1 \<equiv> 120"
abbreviation (input) TF_a7 :: u64 where "TF_a7 \<equiv> 168"
abbreviation (input) TF_SIZE :: nat where "TF_SIZE \<equiv> 288"

definition tf_get :: "nat \<Rightarrow> u64 \<Rightarrow> 's ptable_scheme \<Rightarrow> u64" where
  "tf_get p off s = load64 (ram s) (p_trapframe (proc_at s p) + off)"

definition tf_set :: "nat \<Rightarrow> u64 \<Rightarrow> u64 \<Rightarrow> 's ptable_scheme \<Rightarrow> 's ptable_scheme" where
  "tf_set p off v s = s\<lparr>ram := store64 (ram s) (p_trapframe (proc_at s p) + off) v\<rparr>"

end
