(* ===== verification/Fs.thy ===== *)
theory Fs
  imports Log Proc_Mem
begin

text \<open>
  The file system, \<^verbatim>\<open>kernel/fs.c\<close>: block allocator, inode table, inode contents, directories
  and path names. A pointer into the inode table is an index, a null pointer \<open>None\<close>. An
  operation that has to wait for a lock ends with \<open>Switch\<close>.
\<close>

section \<open>Definitions\<close>

abbreviation (input) NINODE :: nat where "NINODE \<equiv> 50"

record inode =
  i_dev :: u32
  i_inum :: u32
  i_ref :: int
  i_valid :: int
  i_type :: u16
  i_major :: u16
  i_minor :: u16
  i_nlink :: u16
  i_size :: u32
  i_addrs :: "u32 list"

record fsst = logst +
  sb :: superblock
  itable :: "inode list"

abbreviation inode_at :: "'s fsst_scheme \<Rightarrow> nat \<Rightarrow> inode" where
  "inode_at s i \<equiv> itable s ! i"

definition upd_inode :: "nat \<Rightarrow> (inode \<Rightarrow> inode) \<Rightarrow> 's fsst_scheme \<Rightarrow> 's fsst_scheme" where
  "upd_inode i f s = s\<lparr>itable := (itable s)[i := f (itable s ! i)]\<rparr>"

subsection \<open>Blocks\<close>

definition readsb :: "int \<Rightarrow> 's fsst_scheme \<Rightarrow> ('s fsst_scheme, unit) kres" where
  "readsb dev s =
     bindK (bread (i2u dev) 1 s) (\<lambda>bp s.
       brelse bp (s\<lparr>sb := get_superblock (b_data (buf_at s bp))\<rparr>))"

definition bzero :: "int \<Rightarrow> int \<Rightarrow> 's fsst_scheme \<Rightarrow> ('s fsst_scheme, unit) kres" where
  "bzero dev bno s =
     bindK (bread (i2u dev) (i2u bno) s) (\<lambda>bp s.
     bindK (log_write bp (upd_data bp (\<lambda>_. replicate BSIZE 0) s)) (\<lambda>_ s.
       brelse bp s))"

text \<open>Bit \<open>bi\<close> of a bitmap block.\<close>

definition bmap_bit :: "byte list \<Rightarrow> nat \<Rightarrow> bool" where
  "bmap_bit d bi = (d ! (bi div 8) AND push_bit (bi mod 8) 1 \<noteq> 0)"

definition set_bmap_bit :: "nat \<Rightarrow> byte list \<Rightarrow> byte list" where
  "set_bmap_bit bi d = d[bi div 8 := d ! (bi div 8) OR push_bit (bi mod 8) 1]"

definition clear_bmap_bit :: "nat \<Rightarrow> byte list \<Rightarrow> byte list" where
  "clear_bmap_bit bi d = d[bi div 8 := d ! (bi div 8) AND NOT (push_bit (bi mod 8) 1)]"

text \<open>The outer loop of \<open>balloc\<close> over the first blocks that the bitmap blocks describe.\<close>

fun balloc_loop :: "u32 \<Rightarrow> nat list \<Rightarrow> 's fsst_scheme \<Rightarrow> ('s fsst_scheme, u32) kres" where
  "balloc_loop dev [] s =
     bindK (printf (''balloc: out of blocks'' @ nl) [] s) (\<lambda>_ s. ret 0 s)"
| "balloc_loop dev (b # rest) s =
     bindK (bread dev (BBLOCK (of_nat b) (sb s)) s) (\<lambda>bp s.
       case find (\<lambda>bi. \<not> bmap_bit (b_data (buf_at s bp)) bi) [0..<min BPB (unat (sb_size (sb s)) - b)] of
         Some bi \<Rightarrow>
           bindK (log_write bp (upd_data bp (set_bmap_bit bi) s)) (\<lambda>_ s.
           bindK (brelse bp s) (\<lambda>_ s.
           bindK (bzero (sint dev) (int (b + bi)) s) (\<lambda>_ s.
             ret (of_nat (b + bi)) s)))
       | None \<Rightarrow> bindK (brelse bp s) (\<lambda>_ s. balloc_loop dev rest s))"

definition balloc :: "u32 \<Rightarrow> 's fsst_scheme \<Rightarrow> ('s fsst_scheme, u32) kres" where
  "balloc dev s =
     balloc_loop dev (map (\<lambda>k. k * BPB) [0..<(unat (sb_size (sb s)) + (BPB - 1)) div BPB]) s"

definition bfree :: "int \<Rightarrow> u32 \<Rightarrow> 's fsst_scheme \<Rightarrow> ('s fsst_scheme, unit) kres" where
  "bfree dev b s =
     bindK (bread (i2u dev) (BBLOCK b (sb s)) s) (\<lambda>bp s.
       let bi = unat b mod BPB in
       if \<not> bmap_bit (b_data (buf_at s bp)) bi then panic ''freeing free block''
       else bindK (log_write bp (upd_data bp (clear_bmap_bit bi) s)) (\<lambda>_ s.
         brelse bp s))"

subsection \<open>Inodes\<close>

definition iinit :: "'s fsst_scheme \<Rightarrow> 's fsst_scheme" where
  "iinit s = fold (\<lambda>i. initsleeplock (Inode_lock i) (bytes ''inode'' @ [0])) [0..<NINODE] s"

text \<open>The loop of \<open>iget\<close>: the entry it finds, and the first empty one before it.\<close>

fun iget_scan :: "nat list \<Rightarrow> u32 \<Rightarrow> u32 \<Rightarrow> inode list \<Rightarrow> nat option \<Rightarrow> nat option \<times> nat option" where
  "iget_scan [] dev inum it emp = (None, emp)"
| "iget_scan (ip # ips) dev inum it emp =
     (if i_ref (it ! ip) > 0 \<and> i_dev (it ! ip) = dev \<and> i_inum (it ! ip) = inum
      then (Some ip, emp)
      else iget_scan ips dev inum it
             (if emp = None \<and> i_ref (it ! ip) = 0 then Some ip else emp))"

definition iget :: "u32 \<Rightarrow> u32 \<Rightarrow> 's fsst_scheme \<Rightarrow> ('s fsst_scheme, nat) kres" where
  "iget dev inum s =
     bindK (acquire Itable_lock s) (\<lambda>_ s.
       case iget_scan [0..<NINODE] dev inum (itable s) None of
         (Some ip, _) \<Rightarrow>
           bindK (release Itable_lock (upd_inode ip (\<lambda>x. x\<lparr>i_ref := i_ref x + 1\<rparr>) s)) (\<lambda>_ s. ret ip s)
       | (None, None) \<Rightarrow> panic ''iget: no inodes''
       | (None, Some ip) \<Rightarrow>
           bindK (release Itable_lock
             (upd_inode ip (\<lambda>x. x\<lparr>i_dev := dev, i_inum := inum, i_ref := 1, i_valid := 0\<rparr>) s)) (\<lambda>_ s.
             ret ip s))"

definition idup :: "nat \<Rightarrow> 's fsst_scheme \<Rightarrow> ('s fsst_scheme, nat) kres" where
  "idup ip s =
     bindK (acquire Itable_lock s) (\<lambda>_ s.
     bindK (release Itable_lock (upd_inode ip (\<lambda>x. x\<lparr>i_ref := i_ref x + 1\<rparr>) s)) (\<lambda>_ s. ret ip s))"

definition zero_dinode :: dinode where
  "zero_dinode = \<lparr>di_type = 0, di_major = 0, di_minor = 0, di_nlink = 0, di_size = 0,
     di_addrs = replicate (NDIRECT + 1) 0\<rparr>"

fun ialloc_loop :: "u32 \<Rightarrow> u16 \<Rightarrow> nat list \<Rightarrow> 's fsst_scheme \<Rightarrow> ('s fsst_scheme, nat option) kres" where
  "ialloc_loop dev type [] s =
     bindK (printf (''ialloc: no inodes'' @ nl) [] s) (\<lambda>_ s. ret None s)"
| "ialloc_loop dev type (inum # rest) s =
     bindK (bread dev (IBLOCK (of_nat inum) (sb s)) s) (\<lambda>bp s.
       if di_type (get_dinode (b_data (buf_at s bp)) (inum mod IPB)) = 0
       then bindK (log_write bp (upd_data bp (\<lambda>d.
                     put_dinode d (inum mod IPB) (zero_dinode\<lparr>di_type := type\<rparr>)) s)) (\<lambda>_ s.
            bindK (brelse bp s) (\<lambda>_ s.
            bindK (iget dev (of_nat inum) s) (\<lambda>ip s. ret (Some ip) s)))
       else bindK (brelse bp s) (\<lambda>_ s. ialloc_loop dev type rest s))"

definition ialloc :: "u32 \<Rightarrow> u16 \<Rightarrow> 's fsst_scheme \<Rightarrow> ('s fsst_scheme, nat option) kres" where
  "ialloc dev type s = ialloc_loop dev type [1..<unat (sb_ninodes (sb s))] s"

definition dinode_of :: "inode \<Rightarrow> dinode" where
  "dinode_of x = \<lparr>di_type = i_type x, di_major = i_major x, di_minor = i_minor x,
     di_nlink = i_nlink x, di_size = i_size x, di_addrs = i_addrs x\<rparr>"

definition iupdate :: "nat \<Rightarrow> 's fsst_scheme \<Rightarrow> ('s fsst_scheme, unit) kres" where
  "iupdate ip s =
     bindK (bread (i_dev (inode_at s ip)) (IBLOCK (i_inum (inode_at s ip)) (sb s)) s) (\<lambda>bp s.
     bindK (log_write bp (upd_data bp (\<lambda>d.
              put_dinode d (unat (i_inum (inode_at s ip)) mod IPB) (dinode_of (inode_at s ip))) s)) (\<lambda>_ s.
       brelse bp s))"

text \<open>Copying the disk inode into the table entry.\<close>

definition load_dinode :: "dinode \<Rightarrow> inode \<Rightarrow> inode" where
  "load_dinode di x = x\<lparr>i_type := di_type di, i_major := di_major di, i_minor := di_minor di,
     i_nlink := di_nlink di, i_size := di_size di, i_addrs := di_addrs di\<rparr>"

definition ilock :: "nat option \<Rightarrow> 's fsst_scheme \<Rightarrow> ('s fsst_scheme, unit) kres" where
  "ilock ipo s =
     (case ipo of
        None \<Rightarrow> panic ''ilock''
      | Some ip \<Rightarrow>
          if i_ref (inode_at s ip) < 1 then panic ''ilock''
          else bindK (acquiresleep (Inode_lock ip) s) (\<lambda>_ s.
            if i_valid (inode_at s ip) = 0
            then bindK (bread (i_dev (inode_at s ip)) (IBLOCK (i_inum (inode_at s ip)) (sb s)) s) (\<lambda>bp s.
                   let di = get_dinode (b_data (buf_at s bp)) (unat (i_inum (inode_at s ip)) mod IPB) in
                 bindK (brelse bp (upd_inode ip (load_dinode di) s)) (\<lambda>_ s.
                   let s = upd_inode ip (\<lambda>x. x\<lparr>i_valid := 1\<rparr>) s in
                   if i_type (inode_at s ip) = 0 then panic ''ilock: no type'' else ret () s))
            else ret () s))"

definition iunlock :: "nat option \<Rightarrow> 's fsst_scheme \<Rightarrow> ('s fsst_scheme, unit) kres" where
  "iunlock ipo s =
     (case ipo of
        None \<Rightarrow> panic ''iunlock''
      | Some ip \<Rightarrow>
          bindK (holdingsleep (Inode_lock ip) s) (\<lambda>h s.
            if \<not> h \<or> i_ref (inode_at s ip) < 1 then panic ''iunlock''
            else releasesleep (Inode_lock ip) s))"

definition itrunc :: "nat \<Rightarrow> 's fsst_scheme \<Rightarrow> ('s fsst_scheme, unit) kres" where
  "itrunc ip s =
     bindK (forK [0..<NDIRECT]
       (\<lambda>i s. if i_addrs (inode_at s ip) ! i \<noteq> 0
              then bindK (bfree (sint (i_dev (inode_at s ip))) (i_addrs (inode_at s ip) ! i) s) (\<lambda>_ s.
                     ret () (upd_inode ip (\<lambda>x. x\<lparr>i_addrs := (i_addrs x)[i := 0]\<rparr>) s))
              else ret () s) s) (\<lambda>_ s.
     bindK (if i_addrs (inode_at s ip) ! NDIRECT \<noteq> 0
            then bindK (bread (i_dev (inode_at s ip)) (i_addrs (inode_at s ip) ! NDIRECT) s) (\<lambda>bp s.
                 bindK (forK [0..<NINDIRECT]
                   (\<lambda>j s. let a = get32 (b_data (buf_at s bp)) (4 * j)
                          in if a \<noteq> 0 then bfree (sint (i_dev (inode_at s ip))) a s else ret () s) s) (\<lambda>_ s.
                 bindK (brelse bp s) (\<lambda>_ s.
                 bindK (bfree (sint (i_dev (inode_at s ip))) (i_addrs (inode_at s ip) ! NDIRECT) s) (\<lambda>_ s.
                   ret () (upd_inode ip (\<lambda>x. x\<lparr>i_addrs := (i_addrs x)[NDIRECT := 0]\<rparr>) s)))))
            else ret () s) (\<lambda>_ s.
       iupdate ip (upd_inode ip (\<lambda>x. x\<lparr>i_size := 0\<rparr>) s)))"

definition iput :: "nat \<Rightarrow> 's fsst_scheme \<Rightarrow> ('s fsst_scheme, unit) kres" where
  "iput ip s =
     bindK (acquire Itable_lock s) (\<lambda>_ s.
     bindK (if i_ref (inode_at s ip) = 1 \<and> i_valid (inode_at s ip) \<noteq> 0 \<and> i_nlink (inode_at s ip) = 0
            then bindK (acquiresleep (Inode_lock ip) s) (\<lambda>_ s.
                 bindK (release Itable_lock s) (\<lambda>_ s.
                 bindK (itrunc ip s) (\<lambda>_ s.
                 bindK (iupdate ip (upd_inode ip (\<lambda>x. x\<lparr>i_type := 0\<rparr>) s)) (\<lambda>_ s.
                 bindK (releasesleep (Inode_lock ip) (upd_inode ip (\<lambda>x. x\<lparr>i_valid := 0\<rparr>) s)) (\<lambda>_ s.
                   acquire Itable_lock s)))))
            else ret () s) (\<lambda>_ s.
       release Itable_lock (upd_inode ip (\<lambda>x. x\<lparr>i_ref := i_ref x - 1\<rparr>) s)))"

definition iunlockput :: "nat \<Rightarrow> 's fsst_scheme \<Rightarrow> ('s fsst_scheme, unit) kres" where
  "iunlockput ip s = bindK (iunlock (Some ip) s) (\<lambda>_ s. iput ip s)"

definition ireclaim :: "int \<Rightarrow> 's fsst_scheme \<Rightarrow> ('s fsst_scheme, unit) kres" where
  "ireclaim dev s =
     forK [1..<unat (sb_ninodes (sb s))]
       (\<lambda>inum s.
          bindK (bread (i2u dev) (IBLOCK (of_nat inum) (sb s)) s) (\<lambda>bp s.
            let di = get_dinode (b_data (buf_at s bp)) (inum mod IPB) in
          bindK (if di_type di \<noteq> 0 \<and> di_nlink di = 0
                 then bindK (printf (''ireclaim: orphaned inode %d'' @ nl) [vint (int inum)] s) (\<lambda>_ s.
                      bindK (iget (i2u dev) (of_nat inum) s) (\<lambda>ip s. ret (Some ip) s))
                 else ret None s) (\<lambda>ipo s.
          bindK (brelse bp s) (\<lambda>_ s.
            case ipo of
              None \<Rightarrow> ret () s
            | Some ip \<Rightarrow>
                bindK (begin_op s) (\<lambda>_ s.
                bindK (ilock (Some ip) s) (\<lambda>_ s.
                bindK (iunlock (Some ip) s) (\<lambda>_ s.
                bindK (iput ip s) (\<lambda>_ s.
                  end_op s))))))))
       s"

definition fsinit :: "int \<Rightarrow> 's fsst_scheme \<Rightarrow> ('s fsst_scheme, unit) kres" where
  "fsinit dev s =
     bindK (readsb dev s) (\<lambda>_ s.
       if sb_magic (sb s) \<noteq> FSMAGIC then panic ''invalid file system''
       else bindK (initlog dev (sb s) s) (\<lambda>_ s. ireclaim dev s))"

subsection \<open>Inode contents\<close>

definition bmap :: "nat \<Rightarrow> u32 \<Rightarrow> 's fsst_scheme \<Rightarrow> ('s fsst_scheme, u32) kres" where
  "bmap ip bn s =
     (let dev = i_dev (inode_at s ip) in
      if bn < of_nat NDIRECT then
        let addr = i_addrs (inode_at s ip) ! unat bn in
        if addr = 0 then
          bindK (balloc dev s) (\<lambda>addr s.
            if addr = 0 then ret 0 s
            else ret addr (upd_inode ip (\<lambda>x. x\<lparr>i_addrs := (i_addrs x)[unat bn := addr]\<rparr>) s))
        else ret addr s
      else
        let bn = bn - of_nat NDIRECT in
        if bn < of_nat NINDIRECT then
          bindK (if i_addrs (inode_at s ip) ! NDIRECT = 0
                 then bindK (balloc dev s) (\<lambda>addr s.
                        if addr = 0 then ret 0 s
                        else ret addr (upd_inode ip (\<lambda>x. x\<lparr>i_addrs := (i_addrs x)[NDIRECT := addr]\<rparr>) s))
                 else ret (i_addrs (inode_at s ip) ! NDIRECT) s) (\<lambda>addr s.
            if addr = 0 then ret 0 s
            else bindK (bread dev addr s) (\<lambda>bp s.
              let a = get32 (b_data (buf_at s bp)) (4 * unat bn) in
              bindK (if a = 0
                     then bindK (balloc dev s) (\<lambda>addr s.
                            if addr \<noteq> 0
                            then bindK (log_write bp (upd_data bp (\<lambda>d. put32 d (4 * unat bn) addr) s)) (\<lambda>_ s.
                                   ret addr s)
                            else ret addr s)
                     else ret a s) (\<lambda>addr s.
              bindK (brelse bp s) (\<lambda>_ s. ret addr s))))
        else panic ''bmap: out of range'')"

record stat =
  st_dev :: int
  st_ino :: u32
  st_type :: u16
  st_nlink :: u16
  st_size :: u64

definition stati :: "nat \<Rightarrow> 's fsst_scheme \<Rightarrow> stat" where
  "stati ip s =
     \<lparr>st_dev = sint (i_dev (inode_at s ip)), st_ino = i_inum (inode_at s ip),
      st_type = i_type (inode_at s ip), st_nlink = i_nlink (inode_at s ip),
      st_size = ucast (i_size (inode_at s ip))\<rparr>"

text \<open>
  The loop of \<open>readi\<close>; \<open>acc\<close> are the bytes copied so far. Every round but the first and the
  last copies a whole block, which bounds the rounds by the first argument.
\<close>

fun readi_loop ::
  "nat \<Rightarrow> nat \<Rightarrow> dst \<Rightarrow> u32 \<Rightarrow> u32 \<Rightarrow> u32 \<Rightarrow> byte list \<Rightarrow> 's fsst_scheme
     \<Rightarrow> ('s fsst_scheme, int \<times> byte list) kres" where
  "readi_loop 0 ip dst off tot n acc s = (if tot < n then Inl Undefined else ret (sint tot, acc) s)"
| "readi_loop (Suc fuel) ip dst off tot n acc s =
     (if tot < n then
        bindK (bmap ip (off div of_nat BSIZE) s) (\<lambda>addr s.
          if addr = 0 then ret (sint tot, acc) s
          else bindK (bread (i_dev (inode_at s ip)) addr s) (\<lambda>bp s.
            let m = min (n - tot) (of_nat BSIZE - off mod of_nat BSIZE);
                bs = field (b_data (buf_at s bp)) (unat off mod BSIZE) (unat m) in
            bindK (either_copyout dst bs s) (\<lambda>r s.
              if r = - 1 then bindK (brelse bp s) (\<lambda>_ s. ret (- 1, acc) s)
              else bindK (brelse bp s) (\<lambda>_ s.
                readi_loop fuel ip (dst_add dst (unat m)) (off + m) (tot + m) n (acc @ bs) s))))
      else ret (sint tot, acc) s)"

definition readi ::
  "nat \<Rightarrow> dst \<Rightarrow> u32 \<Rightarrow> u32 \<Rightarrow> 's fsst_scheme \<Rightarrow> ('s fsst_scheme, int \<times> byte list) kres" where
  "readi ip dst off n s =
     (let sz = i_size (inode_at s ip) in
      if off > sz \<or> off + n < off then ret (0, []) s
      else let n = (if off + n > sz then sz - off else n)
           in readi_loop (unat n div BSIZE + 2) ip dst off 0 n [] s)"

text \<open>
  The loop of \<open>writei\<close>, with the offset it ends at. A copy that fails part of the way has
  changed the buffer up to there.
\<close>

fun writei_loop ::
  "nat \<Rightarrow> nat \<Rightarrow> src \<Rightarrow> u32 \<Rightarrow> u32 \<Rightarrow> u32 \<Rightarrow> 's fsst_scheme \<Rightarrow> ('s fsst_scheme, u32 \<times> u32) kres" where
  "writei_loop 0 ip src off tot n s = (if tot < n then Inl Undefined else ret (off, tot) s)"
| "writei_loop (Suc fuel) ip src off tot n s =
     (if tot < n then
        bindK (bmap ip (off div of_nat BSIZE) s) (\<lambda>addr s.
          if addr = 0 then ret (off, tot) s
          else bindK (bread (i_dev (inode_at s ip)) addr s) (\<lambda>bp s.
            let m = min (n - tot) (of_nat BSIZE - off mod of_nat BSIZE) in
            bindK (either_copyin src (unat m) s) (\<lambda>(r, bs) s.
              let s = upd_data bp (\<lambda>d. patch d (unat off mod BSIZE) bs) s in
              if r = - 1 then bindK (brelse bp s) (\<lambda>_ s. ret (off, tot) s)
              else bindK (log_write bp s) (\<lambda>_ s.
                   bindK (brelse bp s) (\<lambda>_ s.
                     writei_loop fuel ip (src_add src (unat m)) (off + m) (tot + m) n s)))))
      else ret (off, tot) s)"

definition writei ::
  "nat \<Rightarrow> src \<Rightarrow> u32 \<Rightarrow> u32 \<Rightarrow> 's fsst_scheme \<Rightarrow> ('s fsst_scheme, int) kres" where
  "writei ip src off n s =
     (if off > i_size (inode_at s ip) \<or> off + n < off then ret (- 1) s
      else if off + n > of_nat (MAXFILE * BSIZE) then ret (- 1) s
      else bindK (writei_loop (unat n div BSIZE + 2) ip src off 0 n s) (\<lambda>(off, tot) s.
        let s = (if off > i_size (inode_at s ip) then upd_inode ip (\<lambda>x. x\<lparr>i_size := off\<rparr>) s else s)
        in bindK (iupdate ip s) (\<lambda>_ s. ret (sint tot) s)))"

subsection \<open>Directories\<close>

definition namecmp :: "byte list \<Rightarrow> byte list \<Rightarrow> int" where
  "namecmp s t = strncmp s t DIRSIZ"

text \<open>The offsets \<^verbatim>\<open>for(off = 0; off < dp->size; off += sizeof(de))\<close>.\<close>

definition dirent_offs :: "u32 \<Rightarrow> u32 list" where
  "dirent_offs sz = map (\<lambda>k. of_nat (k * DIRENT_SIZE)) [0..<(unat sz + (DIRENT_SIZE - 1)) div DIRENT_SIZE]"

definition read_dirent :: "string \<Rightarrow> nat \<Rightarrow> u32 \<Rightarrow> 's fsst_scheme \<Rightarrow> ('s fsst_scheme, dirent) kres" where
  "read_dirent msg dp off s =
     bindK (readi dp Local_dst off (of_nat DIRENT_SIZE) s) (\<lambda>(r, bs) s.
       if r \<noteq> int DIRENT_SIZE then panic msg else ret (get_dirent bs) s)"

fun dirlookup_loop ::
  "u32 list \<Rightarrow> nat \<Rightarrow> byte list \<Rightarrow> 's fsst_scheme \<Rightarrow> ('s fsst_scheme, (nat \<times> u32) option) kres" where
  "dirlookup_loop [] dp name s = ret None s"
| "dirlookup_loop (off # offs) dp name s =
     bindK (read_dirent ''dirlookup read'' dp off s) (\<lambda>de s.
       if de_inum de = 0 then dirlookup_loop offs dp name s
       else if namecmp name (de_name de) = 0
       then bindK (iget (i_dev (inode_at s dp)) (ucast (de_inum de)) s) (\<lambda>ip s. ret (Some (ip, off)) s)
       else dirlookup_loop offs dp name s)"

definition dirlookup ::
  "nat \<Rightarrow> byte list \<Rightarrow> 's fsst_scheme \<Rightarrow> ('s fsst_scheme, (nat \<times> u32) option) kres" where
  "dirlookup dp name s =
     (if i_type (inode_at s dp) \<noteq> T_DIR then panic ''dirlookup not DIR''
      else dirlookup_loop (dirent_offs (i_size (inode_at s dp))) dp name s)"

text \<open>The second loop of \<open>dirlink\<close>: the offset of an empty entry, or the end.\<close>

fun dirlink_loop :: "u32 list \<Rightarrow> u32 \<Rightarrow> nat \<Rightarrow> 's fsst_scheme \<Rightarrow> ('s fsst_scheme, u32) kres" where
  "dirlink_loop [] off dp s = ret off s"
| "dirlink_loop (o' # offs) off dp s =
     bindK (read_dirent ''dirlink read'' dp o' s) (\<lambda>de s.
       if de_inum de = 0 then ret o' s
       else dirlink_loop offs (o' + of_nat DIRENT_SIZE) dp s)"

definition dirlink :: "nat \<Rightarrow> byte list \<Rightarrow> u32 \<Rightarrow> 's fsst_scheme \<Rightarrow> ('s fsst_scheme, int) kres" where
  "dirlink dp name inum s =
     bindK (dirlookup dp name s) (\<lambda>r s.
       case r of
         Some (ip, _) \<Rightarrow> bindK (iput ip s) (\<lambda>_ s. ret (- 1) s)
       | None \<Rightarrow>
           bindK (dirlink_loop (dirent_offs (i_size (inode_at s dp))) 0 dp s) (\<lambda>off s.
             let de = \<lparr>de_inum = ucast inum, de_name = strncpy_bytes name DIRSIZ\<rparr> in
             bindK (writei dp (Local_src (dirent_bytes de)) off (of_nat DIRENT_SIZE) s) (\<lambda>r s.
               if r \<noteq> int DIRENT_SIZE then ret (- 1) s else ret 0 s)))"

subsection \<open>Paths\<close>

abbreviation (input) slash :: byte where "slash \<equiv> 47"

text \<open>
  \<open>skipelem\<close> on the bytes of the path from the pointer on, and on the caller's buffer for
  the name; \<open>None\<close> is the null pointer. A buffer that ends without a NUL reads as one.
\<close>

definition skipelem :: "byte list \<Rightarrow> byte list \<Rightarrow> (byte list \<times> byte list) option" where
  "skipelem path name =
     (let path = dropWhile (\<lambda>c. c = slash) path in
      if deref path = 0 then None
      else let elem = takeWhile (\<lambda>c. c \<noteq> slash \<and> c \<noteq> 0) path;
               rest = dropWhile (\<lambda>c. c \<noteq> slash \<and> c \<noteq> 0) path;
               name = (if length elem \<ge> DIRSIZ then patch name 0 (take DIRSIZ elem)
                       else patch name 0 (elem @ [0]))
           in Some (dropWhile (\<lambda>c. c = slash) rest, name))"

text \<open>The loop of \<open>namex\<close>. Every round consumes a byte of the path, which bounds the rounds.\<close>

fun namex_loop ::
  "nat \<Rightarrow> nat \<Rightarrow> byte list \<Rightarrow> bool \<Rightarrow> byte list \<Rightarrow> 's fsst_scheme
     \<Rightarrow> ('s fsst_scheme, nat option \<times> byte list) kres" where
  "namex_loop 0 ip path nameiparent name s = Inl Undefined"
| "namex_loop (Suc fuel) ip path nameiparent name s =
     (case skipelem path name of
        None \<Rightarrow>
          if nameiparent then bindK (iput ip s) (\<lambda>_ s. ret (None, name) s)
          else ret (Some ip, name) s
      | Some (path, name) \<Rightarrow>
          bindK (ilock (Some ip) s) (\<lambda>_ s.
            if i_type (inode_at s ip) \<noteq> T_DIR
            then bindK (iunlockput ip s) (\<lambda>_ s. ret (None, name) s)
            else if nameiparent \<and> deref path = 0
            then bindK (iunlock (Some ip) s) (\<lambda>_ s. ret (Some ip, name) s)
            else bindK (dirlookup ip name s) (\<lambda>r s.
              case r of
                None \<Rightarrow> bindK (iunlockput ip s) (\<lambda>_ s. ret (None, name) s)
              | Some (next', _) \<Rightarrow>
                  bindK (iunlockput ip s) (\<lambda>_ s.
                    namex_loop fuel next' path nameiparent name s))))"

definition namex ::
  "byte list \<Rightarrow> bool \<Rightarrow> byte list \<Rightarrow> 's fsst_scheme \<Rightarrow> ('s fsst_scheme, nat option \<times> byte list) kres" where
  "namex path nameiparent name s =
     bindK (if deref path = slash then iget ROOTDEV ROOTINO s
            else case myproc s of
                   None \<Rightarrow> Inl Null_deref
                 | Some p \<Rightarrow> (case p_cwd (proc_at s p) of
                               None \<Rightarrow> Inl Null_deref
                             | Some d \<Rightarrow> idup d s)) (\<lambda>ip s.
       namex_loop (Suc (length path)) ip path nameiparent name s)"

definition namei :: "byte list \<Rightarrow> 's fsst_scheme \<Rightarrow> ('s fsst_scheme, nat option) kres" where
  "namei path s =
     bindK (namex path False (replicate DIRSIZ 0) s) (\<lambda>(ip, _) s. ret ip s)"

definition nameiparent ::
  "byte list \<Rightarrow> byte list \<Rightarrow> 's fsst_scheme \<Rightarrow> ('s fsst_scheme, nat option \<times> byte list) kres" where
  "nameiparent path name s = namex path True name s"

definition no_inode :: inode where
  "no_inode = \<lparr>i_dev = 0, i_inum = 0, i_ref = 0, i_valid = 0, i_type = 0, i_major = 0, i_minor = 0,
     i_nlink = 0, i_size = 0, i_addrs = replicate (NDIRECT + 1) 0\<rparr>"

definition boot_fs :: fsst where
  "boot_fs = logst.extend boot_log
     (fsst.fields (get_superblock (replicate BSIZE 0)) (replicate NINODE no_inode))"

end
