(* ===== verification/Ring.thy ===== *)
theory Ring
  imports Kernel_Base
begin

text \<open>
  Circular buffers with free-running 32-bit indices, as the pipes and the console input use
  them. The size divides \<open>2 ^ 32\<close>, so the order of the bytes survives a wrap-around of the
  indices. The interface \<open>fifo\<close> is what the users of such a buffer rely on; its consequence is
  that bytes come out in the order in which they went in.
\<close>

section \<open>Buffers with wrapping indices\<close>

text \<open>The bytes between the read index and the write index.\<close>

definition ring :: "nat \<Rightarrow> 'a list \<Rightarrow> u32 \<Rightarrow> u32 \<Rightarrow> 'a list" where
  "ring n d r w = map (\<lambda>k. d ! (unat (r + of_nat k) mod n)) [0..<unat (w - r)]"

lemma length_ring [simp]: "length (ring n d r w) = unat (w - r)"
  by (simp add: ring_def)

lemma unat_add_mod:
  assumes "n dvd 2 ^ 32"
  shows "unat (r + of_nat k :: u32) mod n = (unat r + k) mod n"
proof -
  have "unat (r + of_nat k :: u32) = (unat r + k) mod 2 ^ 32"
    by (simp add: unat_word_ariths unat_of_nat mod_add_right_eq)
  then show ?thesis using assms by (simp add: mod_mod_cancel)
qed

lemma unat_mod_of_nat: "n < 2 ^ 32 \<Longrightarrow> unat (w mod of_nat n :: u32) = unat w mod n"
  by (simp add: unat_mod unat_of_nat)

lemma unat_Suc_diff:
  fixes r w :: u32
  assumes "unat (w - r) < n" "n < 2 ^ 32"
  shows "unat (w + 1 - r) = Suc (unat (w - r))"
proof -
  have e: "w + 1 - r = (w - r) + 1" by simp
  have "unat ((w - r) + 1) = (unat (w - r) + 1) mod 2 ^ 32"
    by (simp add: unat_word_ariths)
  then show ?thesis using assms unfolding e by simp
qed

lemma unat_diff_pred:
  fixes r w :: u32
  assumes "0 < unat (w - r)"
  shows "unat (w - (r + 1)) = unat (w - r) - 1"
proof -
  have "w - r \<noteq> 0" using assms by (metis less_irrefl unsigned_0)
  then have "unat (w - r - 1) = unat (w - r) - 1" by (rule unat_minus_one)
  moreover have "w - (r + 1) = w - r - 1" by simp
  ultimately show ?thesis by (simp only:)
qed

lemma mod_add_neq:
  fixes a k m n :: nat
  assumes "k < m" "m - k < n"
  shows "(a + k) mod n \<noteq> (a + m) mod n"
proof
  assume "(a + k) mod n = (a + m) mod n"
  then have "n dvd (a + m) - (a + k)" using assms(1) by (subst (asm) eq_commute) (simp add: mod_eq_dvd_iff_nat)
  then show False using assms by (simp add: nat_dvd_not_less)
qed

lemma ring_put:
  assumes "n dvd 2 ^ 32" "n < 2 ^ 32" "length d = n" "unat (w - r) < n"
  shows "ring n (d[unat w mod n := c]) r (w + 1) = ring n d r w @ [c]"
proof (rule nth_equalityI)
  let ?m = "unat (w - r)"
  have w: "w = r + of_nat ?m" by simp
  show "length (ring n (d[unat w mod n := c]) r (w + 1)) = length (ring n d r w @ [c])"
    using unat_Suc_diff [OF assms(4,2)] by simp
  fix k assume "k < length (ring n (d[unat w mod n := c]) r (w + 1))"
  then have k: "k \<le> ?m" using unat_Suc_diff [OF assms(4,2)] by simp
  have wi: "unat w mod n = (unat r + ?m) mod n"
    using unat_add_mod [OF assms(1), of r ?m] w by simp
  have ki: "unat (r + of_nat k) mod n = (unat r + k) mod n" by (rule unat_add_mod [OF assms(1)])
  have n0: "0 < n" using assms(4) by linarith
  show "ring n (d[unat w mod n := c]) r (w + 1) ! k = (ring n d r w @ [c]) ! k"
  proof (cases "k = ?m")
    case True
    then show ?thesis
      using n0 assms(3) wi ki unat_Suc_diff [OF assms(4,2)]
      by (simp add: ring_def nth_append nth_list_update)
  next
    case False
    then have "k < ?m" using k by simp
    then have "(unat r + k) mod n \<noteq> (unat r + ?m) mod n"
      using assms(4) by (intro mod_add_neq) linarith+
    then show ?thesis
      using \<open>k < ?m\<close> wi ki unat_Suc_diff [OF assms(4,2)]
      by (simp add: ring_def nth_append)
  qed
qed

lemma ring_get:
  assumes "0 < unat (w - r)"
  shows "ring n d r w = d ! (unat r mod n) # ring n d (r + 1) w"
proof (rule nth_equalityI)
  show "length (ring n d r w) = length (d ! (unat r mod n) # ring n d (r + 1) w)"
    using unat_diff_pred [OF assms] assms by simp
  fix k assume "k < length (ring n d r w)"
  then show "ring n d r w ! k = (d ! (unat r mod n) # ring n d (r + 1) w) ! k"
    using unat_diff_pred [OF assms] by (cases k) (simp_all add: ring_def add.assoc less_diff_conv)
qed

section \<open>The queue contract\<close>

text \<open>
  \<open>put\<close> and \<open>drop1\<close> change the buffer, \<open>get\<close> reads its first element; \<open>content\<close> is what it holds.
\<close>

locale fifo =
  fixes inv :: "'q \<Rightarrow> bool"
    and content :: "'q \<Rightarrow> 'a list"
    and cap :: nat
    and put :: "'a \<Rightarrow> 'q \<Rightarrow> 'q"
    and get :: "'q \<Rightarrow> 'a"
    and drop1 :: "'q \<Rightarrow> 'q"
  assumes inv_cap: "inv q \<Longrightarrow> length (content q) \<le> cap"
    and put_inv: "inv q \<Longrightarrow> length (content q) < cap \<Longrightarrow> inv (put x q)"
    and put_content: "inv q \<Longrightarrow> length (content q) < cap \<Longrightarrow> content (put x q) = content q @ [x]"
    and get_content: "inv q \<Longrightarrow> content q \<noteq> [] \<Longrightarrow> content q = get q # content (drop1 q)"
    and drop1_inv: "inv q \<Longrightarrow> content q \<noteq> [] \<Longrightarrow> inv (drop1 q)"
begin

lemma put_all:
  "inv q \<Longrightarrow> length (content q) + length xs \<le> cap \<Longrightarrow>
     inv (fold put xs q) \<and> content (fold put xs q) = content q @ xs"
proof (induction xs arbitrary: q)
  case (Cons x xs)
  then have "inv (put x q)" "content (put x q) = content q @ [x]"
    by (auto intro: put_inv put_content)
  with Cons.prems Cons.IH [of "put x q"] show ?case by simp
qed simp

fun take_n :: "nat \<Rightarrow> 'q \<Rightarrow> 'a list \<times> 'q" where
  "take_n 0 q = ([], q)"
| "take_n (Suc k) q = (let (xs, q') = take_n k (drop1 q) in (get q # xs, q'))"

lemma take_n_content:
  "inv q \<Longrightarrow> k \<le> length (content q) \<Longrightarrow>
     fst (take_n k q) = take k (content q) \<and> inv (snd (take_n k q)) \<and>
     content (snd (take_n k q)) = drop k (content q)"
proof (induction k arbitrary: q)
  case (Suc k)
  then have ne: "content q \<noteq> []" by auto
  have c: "content q = get q # content (drop1 q)" by (rule get_content) (use Suc.prems ne in auto)
  have "inv (drop1 q)" by (rule drop1_inv) (use Suc.prems ne in auto)
  moreover have "k \<le> length (content (drop1 q))" using Suc.prems(2) by (subst (asm) c) simp
  ultimately have "fst (take_n k (drop1 q)) = take k (content (drop1 q))"
    "inv (snd (take_n k (drop1 q)))" "content (snd (take_n k (drop1 q))) = drop k (content (drop1 q))"
    using Suc.IH by auto
  then show ?case by (subst (1 2) c) (simp add: case_prod_beta)
qed simp

text \<open>What is put into a buffer comes out again, after what was in it.\<close>

lemma fifo_order:
  assumes "inv q" "length (content q) + length xs \<le> cap"
  shows "fst (take_n (length (content q) + length xs) (fold put xs q)) = content q @ xs"
  using take_n_content [of "fold put xs q" "length (content q) + length xs"] put_all [OF assms]
  by simp

end

end
