(* ===== verification/Pipe.thy ===== *)
theory Pipe
  imports Fs Ring
begin

text \<open>
  Pipes, \<^verbatim>\<open>kernel/pipe.c\<close>, whose lock is Peterson's algorithm. A pipe is named by the address
  of its page; its fields are a record beside the modelled RAM. A thread that finds the
  other side in the lock spins, which ends its run with \<open>Spin\<close>; theory \<open>Peterson\<close> interleaves
  the threads. \<open>sleep\<close> is called with a null lock, so nothing after it is ever reached.
\<close>

section \<open>Definitions\<close>

abbreviation (input) PIPESIZE :: nat where "PIPESIZE \<equiv> 512"

record pipe =
  pi_flag :: "int list"
  pi_turn :: int
  pi_data :: "byte list"
  pi_nread :: u32
  pi_nwrite :: u32
  pi_readopen :: int
  pi_writeopen :: int

record pipest = fsst +
  pipes :: "u64 \<Rightarrow> pipe"

abbreviation pipe_at :: "'s pipest_scheme \<Rightarrow> u64 \<Rightarrow> pipe" where
  "pipe_at s pi \<equiv> pipes s pi"

definition upd_pipe :: "u64 \<Rightarrow> (pipe \<Rightarrow> pipe) \<Rightarrow> 's pipest_scheme \<Rightarrow> 's pipest_scheme" where
  "upd_pipe pi f s = s\<lparr>pipes := (pipes s)(pi := f (pipes s pi))\<rparr>"

definition peterson_acquire :: "u64 \<Rightarrow> nat \<Rightarrow> 's pipest_scheme \<Rightarrow> ('s pipest_scheme, unit) kres" where
  "peterson_acquire pi i s =
     (let other = 1 - i;
          s = upd_pipe pi (\<lambda>q. q\<lparr>pi_flag := (pi_flag q)[i := 1]\<rparr>) s;
          s = upd_pipe pi (\<lambda>q. q\<lparr>pi_turn := int other\<rparr>) s
      in if pi_flag (pipe_at s pi) ! other = 1 \<and> pi_turn (pipe_at s pi) = int other
         then Inl (Spin s) else ret () s)"

definition peterson_release :: "u64 \<Rightarrow> nat \<Rightarrow> 's pipest_scheme \<Rightarrow> ('s pipest_scheme, unit) kres" where
  "peterson_release pi i s = ret () (upd_pipe pi (\<lambda>q. q\<lparr>pi_flag := (pi_flag q)[i := 0]\<rparr>) s)"

definition pipeclose :: "u64 \<Rightarrow> bool \<Rightarrow> 's pipest_scheme \<Rightarrow> ('s pipest_scheme, unit) kres" where
  "pipeclose pi writable s =
     (let i = (if writable then 0 else 1) in
      bindK (peterson_acquire pi i s) (\<lambda>_ s.
      bindK (if writable
             then wakeup (Some (Chan_nread pi)) (upd_pipe pi (\<lambda>q. q\<lparr>pi_writeopen := 0\<rparr>) s)
             else wakeup (Some (Chan_nwrite pi)) (upd_pipe pi (\<lambda>q. q\<lparr>pi_readopen := 0\<rparr>) s)) (\<lambda>_ s.
        if pi_readopen (pipe_at s pi) = 0 \<and> pi_writeopen (pipe_at s pi) = 0
        then bindK (peterson_release pi i s) (\<lambda>_ s. kfree pi s)
        else peterson_release pi i s)))"

text \<open>Storing a byte at the write index, and the byte at the read index.\<close>

definition pipe_put :: "byte \<Rightarrow> pipe \<Rightarrow> pipe" where
  "pipe_put c q =
     q\<lparr>pi_data := (pi_data q)[unat (pi_nwrite q mod of_nat PIPESIZE) := c],
       pi_nwrite := pi_nwrite q + 1\<rparr>"

definition pipe_get :: "pipe \<Rightarrow> byte" where
  "pipe_get q = pi_data q ! unat (pi_nread q mod of_nat PIPESIZE)"

definition pipe_full :: "pipe \<Rightarrow> bool" where
  "pipe_full q = (pi_nwrite q = pi_nread q + of_nat PIPESIZE)"

definition pipe_empty :: "pipe \<Rightarrow> bool" where
  "pipe_empty q = (pi_nread q = pi_nwrite q)"

text \<open>
  The loop of \<open>pipewrite\<close>; the first argument is \<open>n - i\<close>. The end of the function is
  \<open>pipewrite_end\<close>.
\<close>

definition pipewrite_end :: "u64 \<Rightarrow> int \<Rightarrow> 's pipest_scheme \<Rightarrow> ('s pipest_scheme, int) kres" where
  "pipewrite_end pi i s =
     bindK (wakeup (Some (Chan_nread pi)) s) (\<lambda>_ s.
     bindK (peterson_release pi 0 s) (\<lambda>_ s. ret i s))"

fun pipewrite_loop ::
  "nat \<Rightarrow> nat \<Rightarrow> u64 \<Rightarrow> u64 \<Rightarrow> int \<Rightarrow> 's pipest_scheme \<Rightarrow> ('s pipest_scheme, int) kres" where
  "pipewrite_loop 0 pr pi addr i s = pipewrite_end pi i s"
| "pipewrite_loop (Suc k) pr pi addr i s =
     bindK (if pi_readopen (pipe_at s pi) = 0 then ret 1 s else killed pr s) (\<lambda>stop s.
       if stop \<noteq> 0
       then bindK (peterson_release pi 0 s) (\<lambda>_ s. ret (- 1) s)
       else if pipe_full (pipe_at s pi)
       then bindK (wakeup (Some (Chan_nread pi)) s) (\<lambda>_ s.
            bindK (peterson_release pi 0 s) (\<lambda>_ s.
              sleep (Chan_nwrite pi) None s))
       else bindK (copyin (p_pagetable (proc_at s pr)) (addr + word_of_int i) 1 s) (\<lambda>(r, bs) s.
         if r = - 1 then pipewrite_end pi i s
         else pipewrite_loop k pr pi addr (i + 1) (upd_pipe pi (pipe_put (hd bs)) s)))"

definition pipewrite :: "u64 \<Rightarrow> u64 \<Rightarrow> int \<Rightarrow> 's pipest_scheme \<Rightarrow> ('s pipest_scheme, int) kres" where
  "pipewrite pi addr n s =
     (case myproc s of
        None \<Rightarrow> Inl Null_deref
      | Some pr \<Rightarrow>
          bindK (peterson_acquire pi 0 s) (\<lambda>_ s. pipewrite_loop (nat n) pr pi addr 0 s))"

text \<open>The copy loop of \<open>piperead\<close>; the first argument is \<open>n - i\<close>.\<close>

fun piperead_copy ::
  "nat \<Rightarrow> nat \<Rightarrow> u64 \<Rightarrow> u64 \<Rightarrow> int \<Rightarrow> 's pipest_scheme \<Rightarrow> ('s pipest_scheme, int) kres" where
  "piperead_copy 0 pr pi addr i s = ret i s"
| "piperead_copy (Suc k) pr pi addr i s =
     (if pipe_empty (pipe_at s pi) then ret i s
      else let c = pipe_get (pipe_at s pi) in
        bindK (copyout (p_pagetable (proc_at s pr)) (addr + word_of_int i) [c] s) (\<lambda>r s.
          if r = - 1 then ret (if i = 0 then - 1 else i) s
          else piperead_copy k pr pi addr (i + 1)
                 (upd_pipe pi (\<lambda>q. q\<lparr>pi_nread := pi_nread q + 1\<rparr>) s)))"

definition piperead :: "u64 \<Rightarrow> u64 \<Rightarrow> int \<Rightarrow> 's pipest_scheme \<Rightarrow> ('s pipest_scheme, int) kres" where
  "piperead pi addr n s =
     (case myproc s of
        None \<Rightarrow> Inl Null_deref
      | Some pr \<Rightarrow>
          bindK (peterson_acquire pi 1 s) (\<lambda>_ s.
            if pipe_empty (pipe_at s pi) \<and> pi_writeopen (pipe_at s pi) \<noteq> 0
            then bindK (killed pr s) (\<lambda>k s.
                   if k \<noteq> 0 then bindK (peterson_release pi 1 s) (\<lambda>_ s. ret (- 1) s)
                   else bindK (peterson_release pi 1 s) (\<lambda>_ s. sleep (Chan_nread pi) None s))
            else bindK (piperead_copy (nat n) pr pi addr 0 s) (\<lambda>i s.
                 bindK (wakeup (Some (Chan_nwrite pi)) s) (\<lambda>_ s.
                 bindK (peterson_release pi 1 s) (\<lambda>_ s. ret i s)))))"

definition new_pipe :: pipe where
  "new_pipe = \<lparr>pi_flag = [0, 0], pi_turn = 0, pi_data = replicate PIPESIZE 5, pi_nread = 0,
     pi_nwrite = 0, pi_readopen = 1, pi_writeopen = 1\<rparr>"

definition boot_pipest :: pipest where
  "boot_pipest = fsst.extend boot_fs (pipest.fields (\<lambda>_. new_pipe))"

section \<open>The ring of a pipe is a queue\<close>

definition pipe_bytes :: "pipe \<Rightarrow> byte list" where
  "pipe_bytes q = ring PIPESIZE (pi_data q) (pi_nread q) (pi_nwrite q)"

definition pipe_ok :: "pipe \<Rightarrow> bool" where
  "pipe_ok q \<longleftrightarrow> length (pi_data q) = PIPESIZE \<and> length (pi_flag q) = 2 \<and>
     unat (pi_nwrite q - pi_nread q) \<le> PIPESIZE"

definition pipe_drop :: "pipe \<Rightarrow> pipe" where
  "pipe_drop q = q\<lparr>pi_nread := pi_nread q + 1\<rparr>"

lemma length_pipe_bytes: "length (pipe_bytes q) = unat (pi_nwrite q - pi_nread q)"
  by (simp add: pipe_bytes_def)

lemma pipe_empty_iff: "pipe_empty q \<longleftrightarrow> pipe_bytes q = []"
proof -
  have "pipe_bytes q = [] \<longleftrightarrow> unat (pi_nwrite q - pi_nread q) = 0"
    using length_pipe_bytes [of q] by auto
  then show ?thesis by (auto simp: pipe_empty_def unat_eq_zero)
qed

lemma pipe_full_iff: "pipe_full q \<longleftrightarrow> length (pipe_bytes q) = PIPESIZE"
proof -
  have "pipe_full q \<longleftrightarrow> pi_nwrite q - pi_nread q = 512"
    by (simp add: pipe_full_def diff_eq_eq add.commute)
  also have "\<dots> \<longleftrightarrow> unat (pi_nwrite q - pi_nread q) = unat (512 :: u32)"
    by (simp only: word_unat_eq_iff)
  finally show ?thesis by (simp add: length_pipe_bytes)
qed

lemma pipe_put_ok:
  assumes "pipe_ok q" "length (pipe_bytes q) < PIPESIZE"
  shows "pipe_ok (pipe_put c q)" "pipe_bytes (pipe_put c q) = pipe_bytes q @ [c]"
proof -
  have lt: "unat (pi_nwrite q - pi_nread q) < PIPESIZE" using assms(2) by (simp add: length_pipe_bytes)
  have "unat (pi_nwrite q + 1 - pi_nread q) = Suc (unat (pi_nwrite q - pi_nread q))"
    by (rule unat_Suc_diff [OF lt]) simp
  then show "pipe_ok (pipe_put c q)" using assms(1) lt by (simp add: pipe_ok_def pipe_put_def)
  have "ring PIPESIZE ((pi_data q)[unat (pi_nwrite q) mod PIPESIZE := c]) (pi_nread q) (pi_nwrite q + 1) =
      ring PIPESIZE (pi_data q) (pi_nread q) (pi_nwrite q) @ [c]"
    by (rule ring_put) (use assms(1) lt in \<open>simp_all add: pipe_ok_def\<close>)
  then show "pipe_bytes (pipe_put c q) = pipe_bytes q @ [c]"
    by (simp add: pipe_bytes_def pipe_put_def unat_mod)
qed

lemma pipe_get_ok:
  assumes "pipe_ok q" "pipe_bytes q \<noteq> []"
  shows "pipe_bytes q = pipe_get q # pipe_bytes (pipe_drop q)" "pipe_ok (pipe_drop q)"
proof -
  have pos: "0 < unat (pi_nwrite q - pi_nread q)"
    using assms(2) length_pipe_bytes [of q] by (metis length_greater_0_conv)
  show "pipe_bytes q = pipe_get q # pipe_bytes (pipe_drop q)"
    using ring_get [OF pos, of PIPESIZE "pi_data q"]
    by (simp add: pipe_bytes_def pipe_get_def pipe_drop_def unat_mod)
  show "pipe_ok (pipe_drop q)"
    using assms(1) unat_diff_pred [OF pos] by (auto simp: pipe_ok_def pipe_drop_def)
qed

interpretation pipe_fifo: fifo pipe_ok pipe_bytes PIPESIZE pipe_put pipe_get pipe_drop
  by unfold_locales
    (simp add: pipe_ok_def length_pipe_bytes, (erule (1) pipe_put_ok pipe_get_ok)+)

section \<open>Writing and reading\<close>

lemma upd_pipe_simps [simp]:
  "pipe_at (upd_pipe pi f s) pi = f (pipe_at s pi)"
  "pi \<noteq> pi' \<Longrightarrow> pipe_at (upd_pipe pi f s) pi' = pipe_at s pi'"
  "held (upd_pipe pi f s) = held s" "procs (upd_pipe pi f s) = procs s"
  "curproc (upd_pipe pi f s) = curproc s"
  by (simp_all add: upd_pipe_def)

lemma tab_only_pipes: "tab_only s t \<Longrightarrow> pipes t = pipes s"
  by (auto simp: tab_only_def)

lemma mem_only_pipes: "mem_only s t \<Longrightarrow> pipes t = pipes s"
  by (auto simp: mem_only_def)

lemma wakeup_pipes: "wakeup c s = ret () t \<Longrightarrow> pipes t = pipes s"
  using keepsD [OF wakeup_tab] tab_only_pipes by blast

lemma killed_pipes: "killed p s = ret k t \<Longrightarrow> pipes t = pipes s"
  using keepsD [OF killed_tab] tab_only_pipes by blast

lemma copyin_pipes: "copyin pt a n s = ret r t \<Longrightarrow> pipes t = pipes s"
  using keepsD [OF copyin_mem] mem_only_pipes by blast

lemma copyout_pipes: "copyout pt a bs s = ret r t \<Longrightarrow> pipes t = pipes s"
  using keepsD [OF copyout_mem] mem_only_pipes by blast

text \<open>
  What a write has done to the pipes when it returns: bytes appended to its own, as many as
  the result says unless that is an error, and the writer's flag cleared.
\<close>

definition wrote :: "u64 \<Rightarrow> int \<Rightarrow> int \<Rightarrow> (u64 \<Rightarrow> pipe) \<Rightarrow> (u64 \<Rightarrow> pipe) \<Rightarrow> bool" where
  "wrote pi i r P Q \<longleftrightarrow>
     pipe_ok (Q pi) \<and> pi_flag (Q pi) ! 0 = 0 \<and> (\<forall>p. p \<noteq> pi \<longrightarrow> Q p = P p) \<and>
     (\<exists>bs. pipe_bytes (Q pi) = pipe_bytes (P pi) @ bs \<and> (r \<noteq> - 1 \<longrightarrow> r = i + int (length bs)))"

lemma clear_flag_pipe:
  "pipe_ok q \<Longrightarrow> pipe_ok (q\<lparr>pi_flag := (pi_flag q)[i := v]\<rparr>)"
  "pipe_bytes (q\<lparr>pi_flag := (pi_flag q)[i := v]\<rparr>) = pipe_bytes q"
  by (simp_all add: pipe_ok_def pipe_bytes_def)

lemma pipewrite_end_wrote:
  assumes "pipe_ok (pipe_at s pi)" "pipewrite_end pi i s = ret r t"
  shows "wrote pi i r (pipes s) (pipes t)"
proof -
  obtain v where v: "wakeup (Some (Chan_nread pi)) s = ret () v" "peterson_release pi 0 v = ret () t" "r = i"
    using assms(2) by (auto simp: pipewrite_end_def bindK_eq_ret peterson_release_def)
  then show ?thesis
    using assms(1) wakeup_pipes [OF v(1)]
    by (auto simp: wrote_def peterson_release_def upd_pipe_def clear_flag_pipe)
      (auto simp: pipe_ok_def)
qed

lemma pipewrite_loop_wrote:
  assumes "pipe_ok (pipe_at s pi)" "pipewrite_loop k pr pi addr i s = ret r t"
  shows "wrote pi i r (pipes s) (pipes t)"
  using assms
proof (induction k arbitrary: i s)
  case 0
  then show ?case by (simp add: pipewrite_end_wrote)
next
  case (Suc k)
  obtain st v where v: "(if pi_readopen (pipe_at s pi) = 0 then ret 1 s else killed pr s) = ret st v"
    using Suc.prems(2) by (cases "if pi_readopen (pipe_at s pi) = 0 then ret 1 s else killed pr s")
      (auto simp: ret_def)
  have pv: "pipes v = pipes s" using v killed_pipes by (auto split: if_splits)
  show ?case
  proof (cases "st \<noteq> 0 \<or> pipe_full (pipe_at v pi)")
    case True
    then have "r = - 1" "t = upd_pipe pi (\<lambda>q. q\<lparr>pi_flag := (pi_flag q)[0 := 0]\<rparr>) v"
      using Suc.prems(2) v
      by (auto simp: peterson_release_def sleep_def bindK_eq_ret sched_def split: if_splits option.splits)
    then show ?thesis using Suc.prems(1) pv
      by (auto simp: wrote_def upd_pipe_def clear_flag_pipe) (auto simp: pipe_ok_def)
  next
    case False
    then obtain rb bs w where w: "copyin (p_pagetable (proc_at v pr)) (addr + word_of_int i) 1 v = ret (rb, bs) w"
      "(if rb = - 1 then pipewrite_end pi i w
        else pipewrite_loop k pr pi addr (i + 1) (upd_pipe pi (pipe_put (hd bs)) w)) = ret r t"
      using Suc.prems(2) v by (auto simp: bindK_eq_ret)
    have pw: "pipes w = pipes s" using copyin_pipes [OF w(1)] pv by simp
    show ?thesis
    proof (cases "rb = - 1")
      case True
      then show ?thesis using w(2) pipewrite_end_wrote [of w pi i r t] pw Suc.prems(1) by simp
    next
      case rb: False
      have lt: "length (pipe_bytes (pipe_at s pi)) < PIPESIZE"
        using False pv Suc.prems(1) pipe_full_iff pipe_fifo.inv_cap [OF Suc.prems(1)] by fastforce
      note put = pipe_put_ok [OF Suc.prems(1) lt]
      have "wrote pi (i + 1) r (pipes (upd_pipe pi (pipe_put (hd bs)) w)) (pipes t)"
        using rb w(2) put(1) pw by (intro Suc.IH) simp_all
      then show ?thesis using put(2) pw by (fastforce simp: wrote_def upd_pipe_def)
    qed
  qed
qed

text \<open>What a read has done when it returns: bytes taken from the front, none on an error.\<close>

definition was_read :: "u64 \<Rightarrow> int \<Rightarrow> int \<Rightarrow> (u64 \<Rightarrow> pipe) \<Rightarrow> (u64 \<Rightarrow> pipe) \<Rightarrow> bool" where
  "was_read pi i r P Q \<longleftrightarrow>
     pipe_ok (Q pi) \<and> (\<forall>p. p \<noteq> pi \<longrightarrow> Q p = P p) \<and>
     (\<exists>bs. pipe_bytes (P pi) = bs @ pipe_bytes (Q pi) \<and>
        (r = - 1 \<and> bs = [] \<or> r = i + int (length bs)))"

lemma piperead_copy_pos: "0 < i \<Longrightarrow> piperead_copy k pr pi addr i s \<noteq> ret (- 1) t"
proof (induction k arbitrary: i s)
  case (Suc k)
  from Suc.prems Suc.IH [of "i + 1"] show ?case by (auto simp: Let_def bindK_eq_ret)
qed simp

lemma piperead_copy_read:
  assumes "pipe_ok (pipe_at s pi)" "0 \<le> i" "piperead_copy k pr pi addr i s = ret r t"
  shows "was_read pi i r (pipes s) (pipes t)"
  using assms
proof (induction k arbitrary: i s)
  case 0
  then show ?case by (auto simp: was_read_def)
next
  case (Suc k)
  show ?case
  proof (cases "pipe_empty (pipe_at s pi)")
    case True
    then show ?thesis using Suc.prems by (auto simp: was_read_def)
  next
    case False
    let ?c = "pipe_get (pipe_at s pi)"
    obtain ro v where v: "copyout (p_pagetable (proc_at s pr)) (addr + word_of_int i) [?c] s = ret ro v"
      "(if ro = - 1 then ret (if i = 0 then - 1 else i) v
        else piperead_copy k pr pi addr (i + 1) (upd_pipe pi pipe_drop v)) = ret r t"
      using Suc.prems(3) False unfolding pipe_drop_def [abs_def] by (auto simp: Let_def bindK_eq_ret)
    note pv = copyout_pipes [OF v(1)]
    show ?thesis
    proof (cases "ro = - 1")
      case True
      then show ?thesis using v(2) pv Suc.prems(1) by (auto simp: was_read_def split: if_splits)
    next
      case ro: False
      have ne: "pipe_bytes (pipe_at s pi) \<noteq> []" using False pipe_empty_iff by blast
      note get = pipe_get_ok [OF Suc.prems(1) ne]
      have "was_read pi (i + 1) r (pipes (upd_pipe pi pipe_drop v)) (pipes t)"
        using ro v(2) get(2) pv Suc.prems(2) by (intro Suc.IH) simp_all
      then obtain bs where bs: "pipe_ok (pipe_at t pi)" "\<forall>p. p \<noteq> pi \<longrightarrow> pipe_at t p = pipe_at s p"
        "pipe_bytes (pipe_drop (pipe_at s pi)) = bs @ pipe_bytes (pipe_at t pi)"
        "r = - 1 \<and> bs = [] \<or> r = i + 1 + int (length bs)"
        using pv by (auto simp: was_read_def upd_pipe_def)
      have "r \<noteq> - 1" using v(2) ro Suc.prems(2)
          piperead_copy_pos [of "i + 1" k pr pi addr "upd_pipe pi pipe_drop v" t] by auto
      then have "pipe_bytes (pipe_at s pi) = (?c # bs) @ pipe_bytes (pipe_at t pi)"
        "r = i + int (length (?c # bs))"
        using bs(3,4) get(1) by simp_all
      then show ?thesis using bs(1,2) unfolding was_read_def by blast
    qed
  qed
qed

lemma peterson_acquire_pipes:
  assumes "peterson_acquire pi i s = ret () t" "pipe_ok (pipe_at s pi)"
  shows "pipe_ok (pipe_at t pi)" "pipe_bytes (pipe_at t pi) = pipe_bytes (pipe_at s pi)"
    "p \<noteq> pi \<Longrightarrow> pipe_at t p = pipe_at s p"
  using assms
  by (auto simp: peterson_acquire_def Let_def pipe_ok_def pipe_bytes_def upd_pipe_def split: if_splits)


text \<open>
  C30. A pipe that would have to wait brings the kernel down: a write to a full pipe that has a
  reader and a read from an empty pipe that has a writer call \<open>sleep\<close> with a null lock, whose
  \<open>release\<close> dereferences it, for every process that has not been killed.
\<close>

theorem pipe_wait_faults:
  assumes "curproc s = Some p" "p < NPROC" "held s = []" "length (procs s) = NPROC"
    and "p_killed (proc_at s p) = 0" "length (pi_flag (pipe_at s pi)) = 2"
  shows "(0 < n \<and> pipe_full (pipe_at s pi) \<and> pi_readopen (pipe_at s pi) \<noteq> 0 \<and>
            pi_flag (pipe_at s pi) ! 1 \<noteq> 1 \<longrightarrow> pipewrite pi addr n s = Inl Null_deref) \<and>
         (pipe_empty (pipe_at s pi) \<and> pi_writeopen (pipe_at s pi) \<noteq> 0 \<and>
            pi_flag (pipe_at s pi) ! 0 \<noteq> 1 \<longrightarrow> piperead pi addr n s = Inl Null_deref)"
proof (intro conjI impI; elim conjE)
  let ?s = "\<lambda>i. upd_pipe pi (\<lambda>q. q\<lparr>pi_turn := 1 - int i\<rparr>)
                  (upd_pipe pi (\<lambda>q. q\<lparr>pi_flag := (pi_flag q)[i := 1]\<rparr>) s)"
  assume a: "0 < n" "pipe_full (pipe_at s pi)" "pi_readopen (pipe_at s pi) \<noteq> 0"
    "pi_flag (pipe_at s pi) ! 1 \<noteq> 1"
  then obtain k where k: "nat n = Suc k" by (metis gr0_implies_Suc zero_less_nat_eq)
  have acq: "peterson_acquire pi 0 s = ret () (?s 0)"
    using a(4) by (simp add: peterson_acquire_def Let_def)
  have "pipe_full (pipe_at (?s 0) pi)" "pi_readopen (pipe_at (?s 0) pi) \<noteq> 0"
    using a(2,3) by (simp_all add: pipe_full_def)
  then show "pipewrite pi addr n s = Inl Null_deref"
    using assms acq k
    by (simp add: pipewrite_def myproc_def killed_eq wakeup_eq peterson_release_def sleep_null)
next
  assume a: "pipe_empty (pipe_at s pi)" "pi_writeopen (pipe_at s pi) \<noteq> 0"
    "pi_flag (pipe_at s pi) ! 0 \<noteq> 1"
  then show "piperead pi addr n s = Inl Null_deref"
    using assms
    by (simp add: piperead_def myproc_def peterson_acquire_def Let_def killed_eq peterson_release_def
        sleep_null pipe_empty_def)
qed

definition pipe_reader :: pipest where
  "pipe_reader = boot_pipest\<lparr>curproc := Some 0,
     procs := (replicate NPROC no_proc)[0 := no_proc\<lparr>p_state := RUNNING, p_pid := 1\<rparr>]\<rparr>"

lemmas boot_pipest_defs = boot_pipest_def fsst.defs pipest.defs boot_fs_def logst.defs boot_log_def
  bcache.defs boot_bcache_def sltable.defs boot_sl_def boot_ptable_def ptable.defs

theorem pipe_wait_faults_witness:
  "piperead 0x87FFF000 0 1 pipe_reader = Inl Null_deref"
proof -
  have "curproc pipe_reader = Some 0" "held pipe_reader = []" "length (procs pipe_reader) = NPROC"
    "p_killed (proc_at pipe_reader 0) = 0" "pipe_at pipe_reader 0x87FFF000 = new_pipe"
    by (simp_all add: pipe_reader_def boot_pipest_defs no_proc_def)
  then show ?thesis
    using pipe_wait_faults [of pipe_reader 0 "0x87FFF000" 1 0] by (simp add: new_pipe_def pipe_empty_def)
qed


end
