(* ===== verification/Console.thy ===== *)
theory Console
  imports Pipe
begin

text \<open>
  The console, \<^verbatim>\<open>kernel/console.c\<close>, and the interrupt-driven part of the UART driver,
  \<^verbatim>\<open>kernel/uart.c\<close>. The UART itself is hardware: the bytes it has received and not yet handed
  over, whether its transmitter is idle, and the writes to its control registers. The calls
  that sleep have a \<open>_resume\<close> operation with the local variables as arguments.
\<close>

section \<open>Definitions\<close>

abbreviation (input) INPUT_BUF_SIZE :: nat where "INPUT_BUF_SIZE \<equiv> 128"

record consst = pipest +
  cons_buf :: "byte list"
  cons_r :: u32
  cons_w :: u32
  cons_e :: u32
  tx_busy :: int
  uart_in :: "byte list"
  uart_idle :: bool
  uart_ctl :: "(nat \<times> byte) list"
  devsw :: "nat \<Rightarrow> bool"

text \<open>The register writes of \<open>uartinit\<close>, register number and value.\<close>

definition uartinit :: "'s consst_scheme \<Rightarrow> 's consst_scheme" where
  "uartinit s =
     s\<lparr>uart_ctl := uart_ctl s @
         [(1, 0x00), (3, 0x80), (0, 0x03), (1, 0x00), (3, 0x03), (2, 0x07), (1, 0x03)]\<rparr>"

text \<open>The loop of \<open>uartwrite\<close> over the bytes that are left, with \<open>tx_lock\<close> held.\<close>

fun uartwrite_loop :: "byte list \<Rightarrow> 's consst_scheme \<Rightarrow> ('s consst_scheme, unit) kres" where
  "uartwrite_loop [] s = release Tx_lock s"
| "uartwrite_loop (b # bs) s =
     (if tx_busy s \<noteq> 0 then sleep Chan_tx (Some Tx_lock) s
      else uartwrite_loop bs (s\<lparr>uart_out := uart_out s @ [b], tx_busy := 1\<rparr>))"

definition uartwrite :: "byte list \<Rightarrow> 's consst_scheme \<Rightarrow> ('s consst_scheme, unit) kres" where
  "uartwrite bs s = bindK (acquire Tx_lock s) (\<lambda>_ s. uartwrite_loop bs s)"

definition uartwrite_resume :: "nat \<Rightarrow> byte list \<Rightarrow> 's consst_scheme \<Rightarrow> ('s consst_scheme, unit) kres" where
  "uartwrite_resume p bs s = bindK (sleep_return p Tx_lock s) (\<lambda>_ s. uartwrite_loop bs s)"

definition uartgetc :: "'s consst_scheme \<Rightarrow> int \<times> 's consst_scheme" where
  "uartgetc s =
     (case uart_in s of [] \<Rightarrow> (- 1, s) | c # cs \<Rightarrow> (uint c, s\<lparr>uart_in := cs\<rparr>))"

text \<open>
  The loop of \<open>consolewrite\<close>. Every round but the last sends 32 bytes, which bounds the
  rounds.
\<close>

fun consolewrite_loop ::
  "nat \<Rightarrow> src \<Rightarrow> int \<Rightarrow> int \<Rightarrow> 's consst_scheme \<Rightarrow> ('s consst_scheme, int) kres" where
  "consolewrite_loop 0 src i n s = (if i < n then Inl Undefined else ret i s)"
| "consolewrite_loop (Suc fuel) src i n s =
     (if i < n then
        let nn = (if 32 > n - i then n - i else 32) in
        bindK (either_copyin (src_add src (nat i)) (nat nn) s) (\<lambda>(r, buf) s.
          if r = - 1 then ret i s
          else bindK (uartwrite buf s) (\<lambda>_ s. consolewrite_loop fuel src (i + nn) n s))
      else ret i s)"

definition consolewrite :: "src \<Rightarrow> int \<Rightarrow> 's consst_scheme \<Rightarrow> ('s consst_scheme, int) kres" where
  "consolewrite src n s = consolewrite_loop (nat n div 32 + 1) src 0 n s"

definition consolewrite_resume ::
  "nat \<Rightarrow> byte list \<Rightarrow> src \<Rightarrow> int \<Rightarrow> int \<Rightarrow> 's consst_scheme \<Rightarrow> ('s consst_scheme, int) kres" where
  "consolewrite_resume p rest src i n s =
     bindK (uartwrite_resume p rest s) (\<lambda>_ s.
       let nn = (if 32 > n - i then n - i else 32)
       in consolewrite_loop (nat n div 32 + 1) src (i + nn) n s)"

text \<open>The loop of \<open>consoleread\<close>, with the number of bytes still wanted first.\<close>

definition consoleread_end :: "nat \<Rightarrow> nat \<Rightarrow> 's consst_scheme \<Rightarrow> ('s consst_scheme, int) kres" where
  "consoleread_end n target s = bindK (release Cons_lock s) (\<lambda>_ s. ret (int target - int n) s)"

fun consoleread_loop ::
  "nat \<Rightarrow> nat \<Rightarrow> dst \<Rightarrow> 's consst_scheme \<Rightarrow> ('s consst_scheme, int) kres" where
  "consoleread_loop 0 target dst s = consoleread_end 0 target s"
| "consoleread_loop (Suc n) target dst s =
     (if cons_r s = cons_w s then
        (case myproc s of
           None \<Rightarrow> Inl Null_deref
         | Some p \<Rightarrow>
             bindK (killed p s) (\<lambda>k s.
               if k \<noteq> 0 then bindK (release Cons_lock s) (\<lambda>_ s. ret (- 1) s)
               else sleep Chan_cons_r (Some Cons_lock) s))
      else
        let c = cons_buf s ! unat (cons_r s mod of_nat INPUT_BUF_SIZE);
            s = s\<lparr>cons_r := cons_r s + 1\<rparr> in
        if c = 4
        then consoleread_end (Suc n) target (if Suc n < target then s\<lparr>cons_r := cons_r s - 1\<rparr> else s)
        else bindK (either_copyout dst [c] s) (\<lambda>r s.
          if r = - 1 then consoleread_end (Suc n) target s
          else if c = 10 then consoleread_end n target s
          else consoleread_loop n target (dst_add dst 1) s))"

text \<open>With a negative count the loop is not entered and the result is 0.\<close>

definition consoleread :: "dst \<Rightarrow> int \<Rightarrow> 's consst_scheme \<Rightarrow> ('s consst_scheme, int) kres" where
  "consoleread dst n s =
     bindK (acquire Cons_lock s) (\<lambda>_ s. consoleread_loop (nat n) (nat n) dst s)"

definition consoleread_resume ::
  "nat \<Rightarrow> nat \<Rightarrow> nat \<Rightarrow> dst \<Rightarrow> 's consst_scheme \<Rightarrow> ('s consst_scheme, int) kres" where
  "consoleread_resume p n target dst s =
     bindK (sleep_return p Cons_lock s) (\<lambda>_ s. consoleread_loop n target dst s)"

text \<open>The loop for \<open>^U\<close>; the first argument is the number of bytes between \<open>w\<close> and \<open>e\<close>.\<close>

fun kill_line :: "nat \<Rightarrow> 's consst_scheme \<Rightarrow> 's consst_scheme" where
  "kill_line 0 s = s"
| "kill_line (Suc k) s =
     (if cons_e s \<noteq> cons_w s \<and> cons_buf s ! unat ((cons_e s - 1) mod of_nat INPUT_BUF_SIZE) \<noteq> 10
      then kill_line k (consputc BACKSPACE (s\<lparr>cons_e := cons_e s - 1\<rparr>))
      else s)"

definition consoleintr :: "int \<Rightarrow> 's consst_scheme \<Rightarrow> ('s consst_scheme, unit) kres" where
  "consoleintr c s =
     bindK (acquire Cons_lock s) (\<lambda>_ s.
     bindK (if c = 0x10 then procdump s
            else if c = 0x15 then ret () (kill_line (unat (cons_e s - cons_w s)) s)
            else if c = 0x08 \<or> c = 0x7F
            then if cons_e s \<noteq> cons_w s
                 then ret () (consputc BACKSPACE (s\<lparr>cons_e := cons_e s - 1\<rparr>))
                 else ret () s
            else if c \<noteq> 0 \<and> cons_e s - cons_r s < of_nat INPUT_BUF_SIZE
            then let c = (if c = 0x0D then 0x0A else c);
                     s = consputc (word_of_int c) s;
                     s = s\<lparr>cons_buf := (cons_buf s)[unat (cons_e s mod of_nat INPUT_BUF_SIZE) := word_of_int c],
                           cons_e := cons_e s + 1\<rparr>
                 in if c = 0x0A \<or> c = 4 \<or> cons_e s - cons_r s = of_nat INPUT_BUF_SIZE
                    then wakeup (Some Chan_cons_r) (s\<lparr>cons_w := cons_e s\<rparr>)
                    else ret () s
            else ret () s) (\<lambda>_ s.
       release Cons_lock s))"

text \<open>The loop of \<open>uartintr\<close> over the received bytes.\<close>

fun uartintr_loop :: "nat \<Rightarrow> 's consst_scheme \<Rightarrow> ('s consst_scheme, unit) kres" where
  "uartintr_loop 0 s = ret () s"
| "uartintr_loop (Suc k) s =
     (let (c, s) = uartgetc s
      in if c = - 1 then ret () s
         else bindK (consoleintr c s) (\<lambda>_ s. uartintr_loop k s))"

definition uartintr :: "'s consst_scheme \<Rightarrow> ('s consst_scheme, unit) kres" where
  "uartintr s =
     bindK (acquire Tx_lock s) (\<lambda>_ s.
     bindK (if uart_idle s then wakeup (Some Chan_tx) (s\<lparr>tx_busy := 0\<rparr>) else ret () s) (\<lambda>_ s.
     bindK (release Tx_lock s) (\<lambda>_ s.
       uartintr_loop (Suc (length (uart_in s))) s)))"

definition consoleinit :: "'s consst_scheme \<Rightarrow> 's consst_scheme" where
  "consoleinit s = uartinit s\<lparr>devsw := (devsw s)(1 := True)\<rparr>"

end
