(* ===== verification/File.thy ===== *)
theory File
  imports Console
begin

text \<open>
  The table of open files, \<^verbatim>\<open>kernel/file.c\<close>, and \<open>pipealloc\<close> of \<^verbatim>\<open>kernel/pipe.c\<close>. The device
  switch has one device, the console. \<open>stat_pad\<close> are the four padding bytes of a
  \<^verbatim>\<open>struct stat\<close> on the kernel stack, which nothing initialises.
\<close>

section \<open>Definitions\<close>

abbreviation (input) NFILE :: nat where "NFILE \<equiv> 100"
abbreviation (input) NDEV :: int where "NDEV \<equiv> 10"

datatype fdtype = FD_NONE | FD_PIPE | FD_INODE | FD_DEVICE

record kfile =
  f_type :: fdtype
  f_ref :: int
  f_readable :: bool
  f_writable :: bool
  f_pipe :: u64
  f_ip :: nat
  f_off :: u32
  f_major :: u16

record ftst = consst +
  ftable :: "kfile list"
  stat_pad :: "byte list"

abbreviation file_at :: "'s ftst_scheme \<Rightarrow> nat \<Rightarrow> kfile" where
  "file_at s f \<equiv> ftable s ! f"

definition upd_file :: "nat \<Rightarrow> (kfile \<Rightarrow> kfile) \<Rightarrow> 's ftst_scheme \<Rightarrow> 's ftst_scheme" where
  "upd_file f g s = s\<lparr>ftable := (ftable s)[f := g (ftable s ! f)]\<rparr>"

definition filealloc :: "'s ftst_scheme \<Rightarrow> ('s ftst_scheme, nat option) kres" where
  "filealloc s =
     bindK (acquire Ftable_lock s) (\<lambda>_ s.
       case find (\<lambda>f. f_ref (file_at s f) = 0) [0..<NFILE] of
         Some f \<Rightarrow>
           bindK (release Ftable_lock (upd_file f (\<lambda>x. x\<lparr>f_ref := 1\<rparr>) s)) (\<lambda>_ s. ret (Some f) s)
       | None \<Rightarrow> bindK (release Ftable_lock s) (\<lambda>_ s. ret None s))"

definition filedup :: "nat \<Rightarrow> 's ftst_scheme \<Rightarrow> ('s ftst_scheme, nat) kres" where
  "filedup f s =
     bindK (acquire Ftable_lock s) (\<lambda>_ s.
       if f_ref (file_at s f) < 1 then panic ''filedup''
       else bindK (release Ftable_lock (upd_file f (\<lambda>x. x\<lparr>f_ref := f_ref x + 1\<rparr>) s)) (\<lambda>_ s. ret f s))"

definition fileclose :: "nat \<Rightarrow> 's ftst_scheme \<Rightarrow> ('s ftst_scheme, unit) kres" where
  "fileclose f s =
     bindK (acquire Ftable_lock s) (\<lambda>_ s.
       if f_ref (file_at s f) < 1 then panic ''fileclose''
       else
         let s = upd_file f (\<lambda>x. x\<lparr>f_ref := f_ref x - 1\<rparr>) s in
         if f_ref (file_at s f) > 0 then release Ftable_lock s
         else
           let ff = file_at s f;
               s = upd_file f (\<lambda>x. x\<lparr>f_ref := 0, f_type := FD_NONE\<rparr>) s
           in bindK (release Ftable_lock s) (\<lambda>_ s.
                if f_type ff = FD_PIPE then pipeclose (f_pipe ff) (f_writable ff) s
                else if f_type ff = FD_INODE \<or> f_type ff = FD_DEVICE
                then bindK (begin_op s) (\<lambda>_ s.
                     bindK (iput (f_ip ff) s) (\<lambda>_ s.
                       end_op s))
                else ret () s))"

text \<open>\<^verbatim>\<open>struct stat\<close> in memory: the size is aligned to eight bytes.\<close>

definition stat_bytes :: "byte list \<Rightarrow> stat \<Rightarrow> byte list" where
  "stat_bytes pad st =
     le_bytes 4 (word_of_int (st_dev st) :: u32) @ le_bytes 4 (st_ino st) @ le_bytes 2 (st_type st) @
     le_bytes 2 (st_nlink st) @ pad @ le_bytes 8 (st_size st)"

definition filestat :: "nat \<Rightarrow> u64 \<Rightarrow> 's ftst_scheme \<Rightarrow> ('s ftst_scheme, int) kres" where
  "filestat f addr s =
     (case myproc s of
        None \<Rightarrow> Inl Null_deref
      | Some p \<Rightarrow>
          if f_type (file_at s f) = FD_INODE \<or> f_type (file_at s f) = FD_DEVICE
          then let ip = f_ip (file_at s f) in
               bindK (ilock (Some ip) s) (\<lambda>_ s.
                 let st = stati ip s in
               bindK (iunlock (Some ip) s) (\<lambda>_ s.
               bindK (copyout (p_pagetable (proc_at s p)) addr (stat_bytes (stat_pad s) st) s) (\<lambda>r s.
                 if r < 0 then ret (- 1) s else ret 0 s)))
          else ret (- 1) s)"

text \<open>Whether \<open>devsw\<close> has an entry for the major number of a file.\<close>

definition has_dev :: "nat \<Rightarrow> 's ftst_scheme \<Rightarrow> bool" where
  "has_dev f s =
     (let m = sint (f_major (file_at s f)) in \<not> (m < 0 \<or> m \<ge> NDEV \<or> \<not> devsw s (nat m)))"

definition fileread :: "nat \<Rightarrow> u64 \<Rightarrow> int \<Rightarrow> 's ftst_scheme \<Rightarrow> ('s ftst_scheme, int) kres" where
  "fileread f addr n s =
     (if \<not> f_readable (file_at s f) then ret (- 1) s
      else case f_type (file_at s f) of
        FD_PIPE \<Rightarrow> piperead (f_pipe (file_at s f)) addr n s
      | FD_DEVICE \<Rightarrow>
          if \<not> has_dev f s then ret (- 1) s else consoleread (User_dst addr) n s
      | FD_INODE \<Rightarrow>
          let ip = f_ip (file_at s f) in
          bindK (ilock (Some ip) s) (\<lambda>_ s.
          bindK (readi ip (User_dst addr) (f_off (file_at s f)) (word_of_int n) s) (\<lambda>(r, _) s.
            let s = (if r > 0 then upd_file f (\<lambda>x. x\<lparr>f_off := f_off x + word_of_int r\<rparr>) s else s) in
          bindK (iunlock (Some ip) s) (\<lambda>_ s. ret r s)))
      | FD_NONE \<Rightarrow> panic ''fileread'')"

text \<open>
  The loop of \<open>filewrite\<close> for inodes; the limit of a round is \<^verbatim>\<open>((MAXOPBLOCKS-1-1-2) / 2) * BSIZE\<close>.
  Every round but the last writes that many bytes, which bounds the rounds.
\<close>

fun filewrite_loop ::
  "nat \<Rightarrow> nat \<Rightarrow> u64 \<Rightarrow> int \<Rightarrow> int \<Rightarrow> 's ftst_scheme \<Rightarrow> ('s ftst_scheme, int) kres" where
  "filewrite_loop 0 f addr i n s =
     (if i < n then Inl Undefined else ret (if i = n then n else - 1) s)"
| "filewrite_loop (Suc fuel) f addr i n s =
     (if i < n then
        let mx = 3072; n1 = (if n - i > mx then mx else n - i); ip = f_ip (file_at s f) in
        bindK (begin_op s) (\<lambda>_ s.
        bindK (ilock (Some ip) s) (\<lambda>_ s.
        bindK (writei ip (User_src (addr + word_of_int i)) (f_off (file_at s f)) (word_of_int n1) s) (\<lambda>r s.
          let s = (if r > 0 then upd_file f (\<lambda>x. x\<lparr>f_off := f_off x + word_of_int r\<rparr>) s else s) in
        bindK (iunlock (Some ip) s) (\<lambda>_ s.
        bindK (end_op s) (\<lambda>_ s.
          if r \<noteq> n1 then ret (if i = n then n else - 1) s
          else filewrite_loop fuel f addr (i + r) n s)))))
      else ret (if i = n then n else - 1) s)"

definition filewrite :: "nat \<Rightarrow> u64 \<Rightarrow> int \<Rightarrow> 's ftst_scheme \<Rightarrow> ('s ftst_scheme, int) kres" where
  "filewrite f addr n s =
     (if \<not> f_writable (file_at s f) then ret (- 1) s
      else case f_type (file_at s f) of
        FD_PIPE \<Rightarrow> pipewrite (f_pipe (file_at s f)) addr n s
      | FD_DEVICE \<Rightarrow>
          if \<not> has_dev f s then ret (- 1) s else consolewrite (User_src addr) n s
      | FD_INODE \<Rightarrow> filewrite_loop (nat n div 3072 + 1) f addr 0 n s
      | FD_NONE \<Rightarrow> panic ''filewrite'')"

text \<open>\<open>pipealloc\<close>; the result is the value and the two files. Its label \<open>bad\<close> comes first.\<close>

definition pipealloc_bad ::
  "nat option \<Rightarrow> nat option \<Rightarrow> 's ftst_scheme \<Rightarrow> ('s ftst_scheme, (nat \<times> nat) option) kres" where
  "pipealloc_bad f0 f1 s =
     bindK (case f0 of None \<Rightarrow> ret () s | Some f \<Rightarrow> fileclose f s) (\<lambda>_ s.
     bindK (case f1 of None \<Rightarrow> ret () s | Some f \<Rightarrow> fileclose f s) (\<lambda>_ s.
       ret None s))"

definition pipealloc :: "'s ftst_scheme \<Rightarrow> ('s ftst_scheme, (nat \<times> nat) option) kres" where
  "pipealloc s =
     bindK (filealloc s) (\<lambda>f0 s.
       case f0 of
         None \<Rightarrow> pipealloc_bad None None s
       | Some a \<Rightarrow>
           bindK (filealloc s) (\<lambda>f1 s.
             case f1 of
               None \<Rightarrow> pipealloc_bad f0 None s
             | Some b \<Rightarrow>
                 bindK (kalloc s) (\<lambda>pi s.
                   if pi = 0 then pipealloc_bad f0 f1 s
                   else
                     let s = upd_pipe pi (\<lambda>q. q\<lparr>pi_readopen := 1, pi_writeopen := 1, pi_nwrite := 0,
                               pi_nread := 0, pi_flag := [0, 0], pi_turn := 0,
                               pi_data := read_bytes (ram s) (pi + 12) PIPESIZE\<rparr>) s;
                         s = upd_file a (\<lambda>x. x\<lparr>f_type := FD_PIPE, f_readable := True,
                               f_writable := False, f_pipe := pi\<rparr>) s;
                         s = upd_file b (\<lambda>x. x\<lparr>f_type := FD_PIPE, f_readable := False,
                               f_writable := True, f_pipe := pi\<rparr>) s
                     in ret (Some (a, b)) s)))"

end
