(* ===== verification/Sysfile.thy ===== *)
theory Sysfile
  imports File
begin

text \<open>
  Fetching system call arguments (\<^verbatim>\<open>kernel/syscall.c\<close>) and the file system calls
  (\<^verbatim>\<open>kernel/sysfile.c\<close>, without \<open>sys_exec\<close>). A system call reads its arguments from the trap
  frame of the process, and its result is the 64-bit value that goes into \<open>a0\<close>. A buffer
  that the code passes to be filled is part of the result.
\<close>

section \<open>Definitions\<close>

subsection \<open>Arguments\<close>

abbreviation (input) MAXPATH :: nat where "MAXPATH \<equiv> 128"

definition with_proc :: "'s ptable_scheme \<Rightarrow> (nat \<Rightarrow> ('s ptable_scheme, 'a) kres) \<Rightarrow> ('s ptable_scheme, 'a) kres" where
  "with_proc s f = (case myproc s of None \<Rightarrow> Inl Null_deref | Some p \<Rightarrow> f p)"

definition fetchaddr :: "u64 \<Rightarrow> 's ptable_scheme \<Rightarrow> ('s ptable_scheme, int \<times> u64) kres" where
  "fetchaddr addr s =
     with_proc s (\<lambda>p.
       let sz = p_sz (proc_at s p) in
       if addr \<ge> sz \<or> addr + 8 > sz then ret (- 1, 0) s
       else bindK (copyin (p_pagetable (proc_at s p)) addr 8 s) (\<lambda>(r, bs) s.
         if r \<noteq> 0 then ret (- 1, 0) s else ret (0, le_word bs) s))"

definition fetchstr :: "u64 \<Rightarrow> nat \<Rightarrow> 's ptable_scheme \<Rightarrow> ('s ptable_scheme, int \<times> byte list) kres" where
  "fetchstr addr mx s =
     with_proc s (\<lambda>p.
       bindK (copyinstr (p_pagetable (proc_at s p)) addr mx s) (\<lambda>(r, bs) s.
         if r < 0 then ret (- 1, bs) s else ret (int (strlen bs), bs) s))"

definition argraw :: "nat \<Rightarrow> 's ptable_scheme \<Rightarrow> ('s ptable_scheme, u64) kres" where
  "argraw n s =
     with_proc s (\<lambda>p.
       if n < 6 then ret (tf_get p (TF_a0 + 8 * of_nat n) s) s else panic ''argraw'')"

definition argint :: "nat \<Rightarrow> 's ptable_scheme \<Rightarrow> ('s ptable_scheme, int) kres" where
  "argint n s = bindK (argraw n s) (\<lambda>v s. ret (sint (ucast v :: u32)) s)"

definition argaddr :: "nat \<Rightarrow> 's ptable_scheme \<Rightarrow> ('s ptable_scheme, u64) kres" where
  "argaddr n s = argraw n s"

definition argstr :: "nat \<Rightarrow> nat \<Rightarrow> 's ptable_scheme \<Rightarrow> ('s ptable_scheme, int \<times> byte list) kres" where
  "argstr n mx s = bindK (argaddr n s) (\<lambda>addr s. fetchstr addr mx s)"

subsection \<open>File descriptors\<close>

text \<open>The descriptor and its file, \<open>None\<close> for the result -1.\<close>

definition argfd :: "nat \<Rightarrow> 's ptable_scheme \<Rightarrow> ('s ptable_scheme, (nat \<times> nat) option) kres" where
  "argfd n s =
     bindK (argint n s) (\<lambda>fd s.
       if fd < 0 \<or> fd \<ge> int NOFILE then ret None s
       else with_proc s (\<lambda>p.
         case p_ofile (proc_at s p) ! nat fd of
           None \<Rightarrow> ret None s
         | Some f \<Rightarrow> ret (Some (nat fd, f)) s))"

definition fdalloc :: "nat \<Rightarrow> 's ptable_scheme \<Rightarrow> ('s ptable_scheme, int) kres" where
  "fdalloc f s =
     with_proc s (\<lambda>p.
       case find (\<lambda>fd. p_ofile (proc_at s p) ! fd = None) [0..<NOFILE] of
         Some fd \<Rightarrow> ret (int fd) (upd_proc p (\<lambda>q. q\<lparr>p_ofile := (p_ofile q)[fd := Some f]\<rparr>) s)
       | None \<Rightarrow> ret (- 1) s)"

abbreviation (input) ret_int :: "int \<Rightarrow> 's \<Rightarrow> ('s, u64) kres" where "ret_int r s \<equiv> ret (word_of_int r) s"

definition sys_dup :: "'s ftst_scheme \<Rightarrow> ('s ftst_scheme, u64) kres" where
  "sys_dup s =
     bindK (argfd 0 s) (\<lambda>a s.
       case a of
         None \<Rightarrow> ret_int (- 1) s
       | Some (_, f) \<Rightarrow>
           bindK (fdalloc f s) (\<lambda>fd s.
             if fd < 0 then ret_int (- 1) s
             else bindK (filedup f s) (\<lambda>_ s. ret_int fd s)))"

definition sys_read :: "'s ftst_scheme \<Rightarrow> ('s ftst_scheme, u64) kres" where
  "sys_read s =
     bindK (argaddr 1 s) (\<lambda>p s.
     bindK (argint 2 s) (\<lambda>n s.
     bindK (argfd 0 s) (\<lambda>a s.
       case a of
         None \<Rightarrow> ret_int (- 1) s
       | Some (_, f) \<Rightarrow> bindK (fileread f p n s) (\<lambda>r s. ret_int r s))))"

definition sys_write :: "'s ftst_scheme \<Rightarrow> ('s ftst_scheme, u64) kres" where
  "sys_write s =
     bindK (argaddr 1 s) (\<lambda>p s.
     bindK (argint 2 s) (\<lambda>n s.
     bindK (argfd 0 s) (\<lambda>a s.
       case a of
         None \<Rightarrow> ret_int (- 1) s
       | Some (_, f) \<Rightarrow> bindK (filewrite f p n s) (\<lambda>r s. ret_int r s))))"

definition sys_close :: "'s ftst_scheme \<Rightarrow> ('s ftst_scheme, u64) kres" where
  "sys_close s =
     bindK (argfd 0 s) (\<lambda>a s.
       case a of
         None \<Rightarrow> ret_int (- 1) s
       | Some (fd, f) \<Rightarrow>
           with_proc s (\<lambda>p.
             bindK (fileclose f (upd_proc p (\<lambda>q. q\<lparr>p_ofile := (p_ofile q)[fd := None]\<rparr>) s)) (\<lambda>_ s.
               ret_int 0 s)))"

definition sys_fstat :: "'s ftst_scheme \<Rightarrow> ('s ftst_scheme, u64) kres" where
  "sys_fstat s =
     bindK (argaddr 1 s) (\<lambda>st s.
     bindK (argfd 0 s) (\<lambda>a s.
       case a of
         None \<Rightarrow> ret_int (- 1) s
       | Some (_, f) \<Rightarrow> bindK (filestat f st s) (\<lambda>r s. ret_int r s)))"

subsection \<open>Links\<close>

text \<open>The label \<open>bad\<close> of \<open>sys_link\<close>.\<close>

definition sys_link_bad :: "nat \<Rightarrow> 's fsst_scheme \<Rightarrow> ('s fsst_scheme, u64) kres" where
  "sys_link_bad ip s =
     bindK (ilock (Some ip) s) (\<lambda>_ s.
     bindK (iupdate ip (upd_inode ip (\<lambda>x. x\<lparr>i_nlink := i_nlink x - 1\<rparr>) s)) (\<lambda>_ s.
     bindK (iunlockput ip s) (\<lambda>_ s.
     bindK (end_op s) (\<lambda>_ s. ret_int (- 1) s))))"

definition sys_link :: "'s fsst_scheme \<Rightarrow> ('s fsst_scheme, u64) kres" where
  "sys_link s =
     bindK (argstr 0 MAXPATH s) (\<lambda>(r, old) s.
       if r < 0 then ret_int (- 1) s
       else
     bindK (argstr 1 MAXPATH s) (\<lambda>(r, new) s.
       if r < 0 then ret_int (- 1) s
       else
     bindK (begin_op s) (\<lambda>_ s.
     bindK (namei old s) (\<lambda>ipo s.
       case ipo of
         None \<Rightarrow> bindK (end_op s) (\<lambda>_ s. ret_int (- 1) s)
       | Some ip \<Rightarrow>
           bindK (ilock (Some ip) s) (\<lambda>_ s.
             if i_type (inode_at s ip) = T_DIR
             then bindK (iunlockput ip s) (\<lambda>_ s. bindK (end_op s) (\<lambda>_ s. ret_int (- 1) s))
             else
               bindK (iupdate ip (upd_inode ip (\<lambda>x. x\<lparr>i_nlink := i_nlink x + 1\<rparr>) s)) (\<lambda>_ s.
               bindK (iunlock (Some ip) s) (\<lambda>_ s.
               bindK (nameiparent new (replicate DIRSIZ 0) s) (\<lambda>(dpo, name) s.
                 case dpo of
                   None \<Rightarrow> sys_link_bad ip s
                 | Some dp \<Rightarrow>
                     bindK (ilock (Some dp) s) (\<lambda>_ s.
                     bindK (if i_dev (inode_at s dp) \<noteq> i_dev (inode_at s ip) then ret (- 1) s
                            else dirlink dp name (i_inum (inode_at s ip)) s) (\<lambda>r s.
                       if r < 0
                       then bindK (iunlockput dp s) (\<lambda>_ s. sys_link_bad ip s)
                       else bindK (iunlockput dp s) (\<lambda>_ s.
                            bindK (iput ip s) (\<lambda>_ s.
                            bindK (end_op s) (\<lambda>_ s. ret_int 0 s)))))))))))))"

text \<open>The loop of \<open>isdirempty\<close> over the offsets from the third entry on.\<close>

fun isdirempty_loop :: "u32 list \<Rightarrow> nat \<Rightarrow> 's fsst_scheme \<Rightarrow> ('s fsst_scheme, bool) kres" where
  "isdirempty_loop [] dp s = ret True s"
| "isdirempty_loop (off # offs) dp s =
     bindK (read_dirent ''isdirempty: readi'' dp off s) (\<lambda>de s.
       if de_inum de \<noteq> 0 then ret False s else isdirempty_loop offs dp s)"

definition isdirempty :: "nat \<Rightarrow> 's fsst_scheme \<Rightarrow> ('s fsst_scheme, bool) kres" where
  "isdirempty dp s = isdirempty_loop (drop 2 (dirent_offs (i_size (inode_at s dp)))) dp s"

text \<open>The label \<open>bad\<close> of \<open>sys_unlink\<close>.\<close>

definition sys_unlink_bad :: "nat \<Rightarrow> 's fsst_scheme \<Rightarrow> ('s fsst_scheme, u64) kres" where
  "sys_unlink_bad dp s =
     bindK (iunlockput dp s) (\<lambda>_ s. bindK (end_op s) (\<lambda>_ s. ret_int (- 1) s))"

text \<open>\<open>sys_unlink\<close> from the point where it has found the entry and locked its inode.\<close>

definition unlink_found :: "nat \<Rightarrow> nat \<Rightarrow> u32 \<Rightarrow> 's fsst_scheme \<Rightarrow> ('s fsst_scheme, u64) kres" where
  "unlink_found dp ip off s =
     (if sint (i_nlink (inode_at s ip)) < 1 then panic ''unlink: nlink < 1''
      else
        bindK (if i_type (inode_at s ip) = T_DIR then isdirempty ip s else ret True s) (\<lambda>ok s.
          if \<not> ok then bindK (iunlockput ip s) (\<lambda>_ s. sys_unlink_bad dp s)
          else
            bindK (writei dp (Local_src (replicate DIRENT_SIZE 0)) off (of_nat DIRENT_SIZE) s) (\<lambda>r s.
              if r \<noteq> int DIRENT_SIZE then panic ''unlink: writei''
              else
                bindK (if i_type (inode_at s ip) = T_DIR
                       then iupdate dp (upd_inode dp (\<lambda>x. x\<lparr>i_nlink := i_nlink x - 1\<rparr>) s)
                       else ret () s) (\<lambda>_ s.
                bindK (iunlockput dp s) (\<lambda>_ s.
                bindK (iupdate ip (upd_inode ip (\<lambda>x. x\<lparr>i_nlink := i_nlink x - 1\<rparr>) s)) (\<lambda>_ s.
                bindK (iunlockput ip s) (\<lambda>_ s.
                bindK (end_op s) (\<lambda>_ s. ret_int 0 s))))))))"

definition sys_unlink :: "'s fsst_scheme \<Rightarrow> ('s fsst_scheme, u64) kres" where
  "sys_unlink s =
     bindK (argstr 0 MAXPATH s) (\<lambda>(r, path) s.
       if r < 0 then ret_int (- 1) s
       else
     bindK (begin_op s) (\<lambda>_ s.
     bindK (nameiparent path (replicate DIRSIZ 0) s) (\<lambda>(dpo, name) s.
       case dpo of
         None \<Rightarrow> bindK (end_op s) (\<lambda>_ s. ret_int (- 1) s)
       | Some dp \<Rightarrow>
           bindK (ilock (Some dp) s) (\<lambda>_ s.
             if namecmp name (bytes ''.'') = 0 \<or> namecmp name (bytes ''..'') = 0
             then sys_unlink_bad dp s
             else
               bindK (dirlookup dp name s) (\<lambda>r s.
                 case r of
                   None \<Rightarrow> sys_unlink_bad dp s
                 | Some (ip, off) \<Rightarrow>
                     bindK (ilock (Some ip) s) (\<lambda>_ s. unlink_found dp ip off s))))))"

subsection \<open>Creating and opening\<close>

text \<open>The label \<open>fail\<close> of \<open>create\<close>.\<close>

definition create_fail :: "nat \<Rightarrow> nat \<Rightarrow> 's fsst_scheme \<Rightarrow> ('s fsst_scheme, nat option) kres" where
  "create_fail dp ip s =
     bindK (iupdate ip (upd_inode ip (\<lambda>x. x\<lparr>i_nlink := 0\<rparr>) s)) (\<lambda>_ s.
     bindK (iunlockput ip s) (\<lambda>_ s.
     bindK (iunlockput dp s) (\<lambda>_ s. ret None s)))"

text \<open>\<open>create\<close> from the point where the new inode is allocated and locked.\<close>

definition create_new ::
  "nat \<Rightarrow> nat \<Rightarrow> byte list \<Rightarrow> u16 \<Rightarrow> u16 \<Rightarrow> u16 \<Rightarrow> 's fsst_scheme \<Rightarrow> ('s fsst_scheme, nat option) kres" where
  "create_new dp ip name type major minor s =
     bindK (iupdate ip (upd_inode ip (\<lambda>x. x\<lparr>i_major := major, i_minor := minor, i_nlink := 1\<rparr>) s)) (\<lambda>_ s.
     bindK (if type = T_DIR
            then bindK (dirlink ip (bytes ''.'') (i_inum (inode_at s ip)) s) (\<lambda>r s.
                   if r < 0 then ret r s
                   else dirlink ip (bytes ''..'') (i_inum (inode_at s dp)) s)
            else ret 0 s) (\<lambda>r s.
       if r < 0 then create_fail dp ip s
       else
     bindK (dirlink dp name (i_inum (inode_at s ip)) s) (\<lambda>r s.
       if r < 0 then create_fail dp ip s
       else
     bindK (if type = T_DIR
            then iupdate dp (upd_inode dp (\<lambda>x. x\<lparr>i_nlink := i_nlink x + 1\<rparr>) s)
            else ret () s) (\<lambda>_ s.
     bindK (iunlockput dp s) (\<lambda>_ s. ret (Some ip) s)))))"

definition create ::
  "byte list \<Rightarrow> u16 \<Rightarrow> u16 \<Rightarrow> u16 \<Rightarrow> 's fsst_scheme \<Rightarrow> ('s fsst_scheme, nat option) kres" where
  "create path type major minor s =
     bindK (nameiparent path (replicate DIRSIZ 0) s) (\<lambda>(dpo, name) s.
       case dpo of
         None \<Rightarrow> ret None s
       | Some dp \<Rightarrow>
           bindK (ilock (Some dp) s) (\<lambda>_ s.
           bindK (dirlookup dp name s) (\<lambda>r s.
             case r of
               Some (ip, _) \<Rightarrow>
                 bindK (iunlockput dp s) (\<lambda>_ s.
                 bindK (ilock (Some ip) s) (\<lambda>_ s.
                   if type = T_FILE \<and> (i_type (inode_at s ip) = T_FILE \<or> i_type (inode_at s ip) = T_DEVICE)
                   then ret (Some ip) s
                   else bindK (iunlockput ip s) (\<lambda>_ s. ret None s)))
             | None \<Rightarrow>
                 bindK (ialloc (i_dev (inode_at s dp)) type s) (\<lambda>ipo s.
                   case ipo of
                     None \<Rightarrow> bindK (iunlockput dp s) (\<lambda>_ s. ret None s)
                   | Some ip \<Rightarrow>
                       bindK (ilock (Some ip) s) (\<lambda>_ s. create_new dp ip name type major minor s)))))"

text \<open>\<^verbatim>\<open>kernel/fcntl.h\<close>.\<close>

abbreviation (input) O_WRONLY :: u32 where "O_WRONLY \<equiv> 1"
abbreviation (input) O_RDWR :: u32 where "O_RDWR \<equiv> 2"
abbreviation (input) O_CREATE :: u32 where "O_CREATE \<equiv> 0x200"
abbreviation (input) O_TRUNC :: u32 where "O_TRUNC \<equiv> 0x400"

definition fail_put :: "nat \<Rightarrow> 's fsst_scheme \<Rightarrow> ('s fsst_scheme, u64) kres" where
  "fail_put ip s = bindK (iunlockput ip s) (\<lambda>_ s. bindK (end_op s) (\<lambda>_ s. ret_int (- 1) s))"

text \<open>\<open>sys_open\<close> from the point where it holds the locked inode.\<close>

definition open_inode :: "nat \<Rightarrow> u32 \<Rightarrow> 's ftst_scheme \<Rightarrow> ('s ftst_scheme, u64) kres" where
  "open_inode ip omode s =
     (if i_type (inode_at s ip) = T_DEVICE \<and>
         (sint (i_major (inode_at s ip)) < 0 \<or> sint (i_major (inode_at s ip)) \<ge> NDEV)
      then fail_put ip s
      else
        bindK (filealloc s) (\<lambda>fo s.
          case fo of
            None \<Rightarrow> fail_put ip s
          | Some f \<Rightarrow>
              bindK (fdalloc f s) (\<lambda>fd s.
                if fd < 0 then bindK (fileclose f s) (\<lambda>_ s. fail_put ip s)
                else
                  let x = inode_at s ip;
                      s = upd_file f (\<lambda>x'. if i_type x = T_DEVICE
                            then x'\<lparr>f_type := FD_DEVICE, f_major := i_major x\<rparr>
                            else x'\<lparr>f_type := FD_INODE, f_off := 0\<rparr>) s;
                      s = upd_file f (\<lambda>x'. x'\<lparr>f_ip := ip, f_readable := (omode AND O_WRONLY = 0),
                            f_writable := (omode AND O_WRONLY \<noteq> 0 \<or> omode AND O_RDWR \<noteq> 0)\<rparr>) s
                  in bindK (if omode AND O_TRUNC \<noteq> 0 \<and> i_type (inode_at s ip) = T_FILE
                            then itrunc ip s else ret () s) (\<lambda>_ s.
                     bindK (iunlock (Some ip) s) (\<lambda>_ s.
                     bindK (end_op s) (\<lambda>_ s. ret_int fd s))))))"

definition sys_open :: "'s ftst_scheme \<Rightarrow> ('s ftst_scheme, u64) kres" where
  "sys_open s =
     bindK (argint 1 s) (\<lambda>om s.
       let omode = (word_of_int om :: u32) in
     bindK (argstr 0 MAXPATH s) (\<lambda>(n, path) s.
       if n < 0 then ret_int (- 1) s
       else
     bindK (begin_op s) (\<lambda>_ s.
       if omode AND O_CREATE \<noteq> 0
       then bindK (create path T_FILE 0 0 s) (\<lambda>ipo s.
              case ipo of
                None \<Rightarrow> bindK (end_op s) (\<lambda>_ s. ret_int (- 1) s)
              | Some ip \<Rightarrow> open_inode ip omode s)
       else bindK (namei path s) (\<lambda>ipo s.
              case ipo of
                None \<Rightarrow> bindK (end_op s) (\<lambda>_ s. ret_int (- 1) s)
              | Some ip \<Rightarrow>
                  bindK (ilock (Some ip) s) (\<lambda>_ s.
                    if i_type (inode_at s ip) = T_DIR \<and> omode \<noteq> 0 then fail_put ip s
                    else open_inode ip omode s)))))"

text \<open>\<open>sys_mkdir\<close> and \<open>sys_mknod\<close> after they have read their arguments.\<close>

definition make_node :: "u16 \<Rightarrow> u16 \<Rightarrow> u16 \<Rightarrow> 's fsst_scheme \<Rightarrow> ('s fsst_scheme, u64) kres" where
  "make_node type major minor s =
     bindK (argstr 0 MAXPATH s) (\<lambda>(r, path) s.
     bindK (if r < 0 then ret None s else create path type major minor s) (\<lambda>ipo s.
       case ipo of
         None \<Rightarrow> bindK (end_op s) (\<lambda>_ s. ret_int (- 1) s)
       | Some ip \<Rightarrow>
           bindK (iunlockput ip s) (\<lambda>_ s.
           bindK (end_op s) (\<lambda>_ s. ret_int 0 s))))"

definition sys_mkdir :: "'s fsst_scheme \<Rightarrow> ('s fsst_scheme, u64) kres" where
  "sys_mkdir s = bindK (begin_op s) (\<lambda>_ s. make_node T_DIR 0 0 s)"

definition sys_mknod :: "'s fsst_scheme \<Rightarrow> ('s fsst_scheme, u64) kres" where
  "sys_mknod s =
     bindK (begin_op s) (\<lambda>_ s.
     bindK (argint 1 s) (\<lambda>major s.
     bindK (argint 2 s) (\<lambda>minor s.
       make_node T_DEVICE (word_of_int major) (word_of_int minor) s)))"

definition sys_chdir :: "'s fsst_scheme \<Rightarrow> ('s fsst_scheme, u64) kres" where
  "sys_chdir s =
     with_proc s (\<lambda>p.
     bindK (begin_op s) (\<lambda>_ s.
     bindK (argstr 0 MAXPATH s) (\<lambda>(r, path) s.
     bindK (if r < 0 then ret None s else namei path s) (\<lambda>ipo s.
       case ipo of
         None \<Rightarrow> bindK (end_op s) (\<lambda>_ s. ret_int (- 1) s)
       | Some ip \<Rightarrow>
           bindK (ilock (Some ip) s) (\<lambda>_ s.
             if i_type (inode_at s ip) \<noteq> T_DIR then fail_put ip s
             else
               bindK (iunlock (Some ip) s) (\<lambda>_ s.
               bindK (case p_cwd (proc_at s p) of None \<Rightarrow> Inl Null_deref | Some c \<Rightarrow> iput c s) (\<lambda>_ s.
               bindK (end_op s) (\<lambda>_ s.
                 ret_int 0 (upd_proc p (\<lambda>q. q\<lparr>p_cwd := Some ip\<rparr>) s)))))))))"

text \<open>Closing both ends again when \<open>sys_pipe\<close> fails.\<close>

definition close_both :: "nat \<Rightarrow> nat \<Rightarrow> 's ftst_scheme \<Rightarrow> ('s ftst_scheme, u64) kres" where
  "close_both rfile wfile s =
     bindK (fileclose rfile s) (\<lambda>_ s. bindK (fileclose wfile s) (\<lambda>_ s. ret_int (- 1) s))"

definition clear_fd :: "nat \<Rightarrow> int \<Rightarrow> 's ptable_scheme \<Rightarrow> 's ptable_scheme" where
  "clear_fd p fd s = upd_proc p (\<lambda>q. q\<lparr>p_ofile := (p_ofile q)[nat fd := None]\<rparr>) s"

definition sys_pipe :: "'s ftst_scheme \<Rightarrow> ('s ftst_scheme, u64) kres" where
  "sys_pipe s =
     with_proc s (\<lambda>p.
     bindK (argaddr 0 s) (\<lambda>fdarray s.
     bindK (pipealloc s) (\<lambda>r s.
       case r of
         None \<Rightarrow> ret_int (- 1) s
       | Some (rfile, wfile) \<Rightarrow>
           bindK (fdalloc rfile s) (\<lambda>fd0 s.
             if fd0 < 0 then close_both rfile wfile s
             else
           bindK (fdalloc wfile s) (\<lambda>fd1 s.
             if fd1 < 0 then close_both rfile wfile (clear_fd p fd0 s)
             else
           bindK (copyout (p_pagetable (proc_at s p)) fdarray (le_bytes 4 (word_of_int fd0 :: u32)) s) (\<lambda>r s.
           bindK (if r < 0 then ret r s
                  else copyout (p_pagetable (proc_at s p)) (fdarray + 4) (le_bytes 4 (word_of_int fd1 :: u32)) s)
             (\<lambda>r s.
             if r < 0 then close_both rfile wfile (clear_fd p fd1 (clear_fd p fd0 s))
             else ret_int 0 s)))))))"

end
