(* ===== verification/Exec.thy ===== *)
theory Exec
  imports Sysfile
begin

text \<open>
  \<^verbatim>\<open>kernel/exec.c\<close>, the ELF headers of \<^verbatim>\<open>kernel/elf.h\<close> and \<open>sys_exec\<close> of \<^verbatim>\<open>kernel/sysfile.c\<close>. The
  argument strings of \<open>kexec\<close> are given by their bytes.
\<close>

section \<open>Definitions\<close>

abbreviation (input) MAXARG :: nat where "MAXARG \<equiv> 32"
abbreviation (input) USERSTACK :: u64 where "USERSTACK \<equiv> 1"
abbreviation (input) ELF_MAGIC :: u32 where "ELF_MAGIC \<equiv> 0x464C457F"
abbreviation (input) ELFHDR_SIZE :: nat where "ELFHDR_SIZE \<equiv> 64"
abbreviation (input) PROGHDR_SIZE :: nat where "PROGHDR_SIZE \<equiv> 56"

definition get64 :: "byte list \<Rightarrow> nat \<Rightarrow> u64" where
  "get64 d off = le_word (field d off 8)"

text \<open>The fields that \<open>kexec\<close> uses.\<close>

record elfhdr =
  elf_magic :: u32
  elf_entry :: u64
  elf_phoff :: u64
  elf_phnum :: u16

definition get_elfhdr :: "byte list \<Rightarrow> elfhdr" where
  "get_elfhdr d = \<lparr>elf_magic = get32 d 0, elf_entry = get64 d 24, elf_phoff = get64 d 32,
     elf_phnum = get16 d 56\<rparr>"

record proghdr =
  ph_type :: u32
  ph_flags :: u32
  ph_off :: u64
  ph_vaddr :: u64
  ph_filesz :: u64
  ph_memsz :: u64

definition get_proghdr :: "byte list \<Rightarrow> proghdr" where
  "get_proghdr d = \<lparr>ph_type = get32 d 0, ph_flags = get32 d 4, ph_off = get64 d 8, ph_vaddr = get64 d 16,
     ph_filesz = get64 d 32, ph_memsz = get64 d 40\<rparr>"

definition flags2perm :: "u32 \<Rightarrow> u64" where
  "flags2perm flags =
     (let perm = (if flags AND 1 \<noteq> 0 then PTE_X else 0)
      in if flags AND 2 \<noteq> 0 then perm OR PTE_W else perm)"

text \<open>The loop of \<open>loadseg\<close> over the page offsets \<open>i\<close>; a result of -1 is \<open>False\<close>.\<close>

fun loadseg_loop ::
  "u32 list \<Rightarrow> u64 \<Rightarrow> u64 \<Rightarrow> nat \<Rightarrow> u32 \<Rightarrow> u32 \<Rightarrow> 's fsst_scheme \<Rightarrow> ('s fsst_scheme, int) kres" where
  "loadseg_loop [] pagetable va ip offset sz s = ret 0 s"
| "loadseg_loop (i # is) pagetable va ip offset sz s =
     bindK (walkaddr pagetable (va + ucast i) s) (\<lambda>pa s.
       if pa = 0 then panic ''loadseg: address should exist''
       else
         let n = (if sz - i < 4096 then sz - i else 4096) in
         bindK (readi ip (Kernel_dst pa) (offset + i) n s) (\<lambda>(r, _) s.
           if (word_of_int r :: u32) \<noteq> n then ret (- 1) s
           else loadseg_loop is pagetable va ip offset sz s))"

definition loadseg ::
  "u64 \<Rightarrow> u64 \<Rightarrow> nat \<Rightarrow> u32 \<Rightarrow> u32 \<Rightarrow> 's fsst_scheme \<Rightarrow> ('s fsst_scheme, int) kres" where
  "loadseg pagetable va ip offset sz s =
     loadseg_loop (map (\<lambda>k. of_nat (k * 4096)) [0..<(unat sz + 4095) div 4096]) pagetable va ip offset sz s"

text \<open>
  The label \<open>bad\<close> of \<open>kexec\<close>; \<open>ipo\<close> is the inode while it is still locked.
\<close>

definition kexec_bad ::
  "u64 \<Rightarrow> u64 \<Rightarrow> nat option \<Rightarrow> 's fsst_scheme \<Rightarrow> ('s fsst_scheme, int) kres" where
  "kexec_bad pagetable sz ipo s =
     bindK (if pagetable \<noteq> 0 then proc_freepagetable pagetable sz s else ret () s) (\<lambda>_ s.
     bindK (case ipo of
              None \<Rightarrow> ret () s
            | Some ip \<Rightarrow> bindK (iunlockput ip s) (\<lambda>_ s. end_op s)) (\<lambda>_ s.
       ret (- 1) s))"

text \<open>
  The loop of \<open>kexec\<close> over the program headers, by their offsets. The result is the size, and
  whether a header sent it to \<open>bad\<close>.
\<close>

fun load_segments ::
  "u32 list \<Rightarrow> u64 \<Rightarrow> nat \<Rightarrow> u64 \<Rightarrow> 's fsst_scheme \<Rightarrow> ('s fsst_scheme, bool \<times> u64) kres" where
  "load_segments [] pagetable ip sz s = ret (True, sz) s"
| "load_segments (off # offs) pagetable ip sz s =
     bindK (readi ip Local_dst off (of_nat PROGHDR_SIZE) s) (\<lambda>(r, bs) s.
       if r \<noteq> int PROGHDR_SIZE then ret (False, sz) s
       else
         let ph = get_proghdr bs in
         if ph_type ph \<noteq> 1 then load_segments offs pagetable ip sz s
         else if ph_memsz ph < ph_filesz ph then ret (False, sz) s
         else if ph_vaddr ph + ph_memsz ph < ph_vaddr ph then ret (False, sz) s
         else if ph_vaddr ph mod PGSIZE \<noteq> 0 then ret (False, sz) s
         else
           bindK (uvmalloc pagetable sz (ph_vaddr ph + ph_memsz ph) (flags2perm (ph_flags ph)) s) (\<lambda>sz1 s.
             if sz1 = 0 then ret (False, sz) s
             else
               bindK (loadseg pagetable (ph_vaddr ph) ip (ucast (ph_off ph)) (ucast (ph_filesz ph)) s) (\<lambda>r s.
                 if r < 0 then ret (False, sz1) s
                 else load_segments offs pagetable ip sz1 s)))"

text \<open>
  The loop that copies the argument strings to the new stack; \<open>ustack\<close> are the addresses so
  far. \<open>None\<close> is \<^verbatim>\<open>goto bad\<close>.
\<close>

fun push_args ::
  "byte list list \<Rightarrow> u64 \<Rightarrow> u64 \<Rightarrow> u64 \<Rightarrow> u64 list \<Rightarrow> 's ptable_scheme
     \<Rightarrow> ('s ptable_scheme, (u64 \<times> u64 list) option) kres" where
  "push_args [] pagetable stackbase sp ustack s = ret (Some (sp, ustack)) s"
| "push_args (a # as) pagetable stackbase sp ustack s =
     (if length ustack \<ge> MAXARG then ret None s
      else
        let sp = sp - (of_nat (strlen a) + 1); sp = sp - sp mod 16 in
        if sp < stackbase then ret None s
        else bindK (copyout pagetable sp (take (strlen a + 1) (a @ [0])) s) (\<lambda>r s.
          if r < 0 then ret None s
          else push_args as pagetable stackbase sp (ustack @ [sp]) s))"

text \<open>The program name: what follows the last slash of the path.\<close>

definition last_elem :: "byte list \<Rightarrow> byte list" where
  "last_elem path = rev (takeWhile (\<lambda>c. c \<noteq> slash) (rev (cstr path)))"

text \<open>\<open>kexec\<close> from the point where the file is closed and only the new page table is at stake.\<close>

definition kexec_stack ::
  "nat \<Rightarrow> byte list \<Rightarrow> byte list list \<Rightarrow> elfhdr \<Rightarrow> u64 \<Rightarrow> u64 \<Rightarrow> 's fsst_scheme \<Rightarrow> ('s fsst_scheme, int) kres" where
  "kexec_stack p path argv elf pagetable sz s =
     (let oldsz = p_sz (proc_at s p); sz = PGROUNDUP sz in
      bindK (uvmalloc pagetable sz (sz + (USERSTACK + 1) * PGSIZE) PTE_W s) (\<lambda>sz1 s.
        if sz1 = 0 then kexec_bad pagetable sz None s
        else
          let sz = sz1; stackbase = sz - USERSTACK * PGSIZE in
          bindK (uvmclear pagetable (sz - (USERSTACK + 1) * PGSIZE) s) (\<lambda>_ s.
          bindK (push_args argv pagetable stackbase sz [] s) (\<lambda>r s.
            case r of
              None \<Rightarrow> kexec_bad pagetable sz None s
            | Some (sp, ustack) \<Rightarrow>
                if length ustack \<ge> MAXARG then Inl Undefined
                else
                  let argc = length ustack;
                      sp = sp - (of_nat argc + 1) * 8; sp = sp - sp mod 16 in
                  if sp < stackbase then kexec_bad pagetable sz None s
                  else bindK (copyout pagetable sp (concat (map (le_bytes 8) (ustack @ [0]))) s) (\<lambda>r s.
                    if r < 0 then kexec_bad pagetable sz None s
                    else
                      let s = tf_set p TF_a1 sp s;
                          s = upd_proc p (\<lambda>q. q\<lparr>p_name := safestrcpy (p_name q) (last_elem path) 16\<rparr>) s;
                          oldpagetable = p_pagetable (proc_at s p);
                          s = upd_proc p (\<lambda>q. q\<lparr>p_pagetable := pagetable, p_sz := sz\<rparr>) s;
                          s = tf_set p TF_epc (elf_entry elf) s;
                          s = tf_set p TF_sp sp s
                      in bindK (proc_freepagetable oldpagetable oldsz s) (\<lambda>_ s.
                           ret (int argc) s))))))"

definition kexec :: "byte list \<Rightarrow> byte list list \<Rightarrow> 's fsst_scheme \<Rightarrow> ('s fsst_scheme, int) kres" where
  "kexec path argv s =
     with_proc s (\<lambda>p.
     bindK (begin_op s) (\<lambda>_ s.
     bindK (namei path s) (\<lambda>ipo s.
       case ipo of
         None \<Rightarrow> bindK (end_op s) (\<lambda>_ s. ret (- 1) s)
       | Some ip \<Rightarrow>
           bindK (ilock ipo s) (\<lambda>_ s.
           bindK (readi ip Local_dst 0 (of_nat ELFHDR_SIZE) s) (\<lambda>(r, bs) s.
             if r \<noteq> int ELFHDR_SIZE then kexec_bad 0 0 ipo s
             else
               let elf = get_elfhdr bs in
               if elf_magic elf \<noteq> ELF_MAGIC then kexec_bad 0 0 ipo s
               else bindK (proc_pagetable p s) (\<lambda>pagetable s.
                 if pagetable = 0 then kexec_bad 0 0 ipo s
                 else
                   bindK (load_segments
                            (map (\<lambda>k. ucast (elf_phoff elf) + of_nat (k * PROGHDR_SIZE)) [0..<unat (elf_phnum elf)])
                            pagetable ip 0 s) (\<lambda>(ok, sz) s.
                     if \<not> ok then kexec_bad pagetable sz ipo s
                     else
                       bindK (iunlockput ip s) (\<lambda>_ s.
                       bindK (end_op s) (\<lambda>_ s.
                         kexec_stack p path argv elf pagetable sz s)))))))))"

text \<open>
  The loop of \<open>sys_exec\<close> over the argument vector: the pages it has allocated and their
  contents. The first argument is the number of slots of \<open>argv\<close> that are left.
\<close>

fun fetch_args ::
  "nat \<Rightarrow> u64 \<Rightarrow> u64 list \<Rightarrow> byte list list \<Rightarrow> 's ptable_scheme
     \<Rightarrow> ('s ptable_scheme, bool \<times> u64 list \<times> byte list list) kres" where
  "fetch_args 0 uargv pages args s = ret (False, pages, args) s"
| "fetch_args (Suc k) uargv pages args s =
     bindK (fetchaddr (uargv + 8 * of_nat (length pages)) s) (\<lambda>(r, uarg) s.
       if r < 0 then ret (False, pages, args) s
       else if uarg = 0 then ret (True, pages, args) s
       else bindK (kalloc s) (\<lambda>page s.
         if page = 0 then ret (False, pages, args) s
         else bindK (fetchstr uarg 4096 s) (\<lambda>(r, bs) s.
           let s = s\<lparr>ram := write_bytes (ram s) page bs\<rparr> in
           if r < 0 then ret (False, pages @ [page], args) s
           else fetch_args k uargv (pages @ [page]) (args @ [bs]) s)))"

definition sys_exec :: "'s fsst_scheme \<Rightarrow> ('s fsst_scheme, u64) kres" where
  "sys_exec s =
     bindK (argaddr 1 s) (\<lambda>uargv s.
     bindK (argstr 0 MAXPATH s) (\<lambda>(r, path) s.
       if r < 0 then ret_int (- 1) s
       else bindK (fetch_args MAXARG uargv [] [] s) (\<lambda>(ok, pages, args) s.
         bindK (if ok then kexec path args s else ret (- 1) s) (\<lambda>r s.
         bindK (forK pages kfree s) (\<lambda>_ s.
           ret_int r s)))))"

end
