(* ===== verification/Trap.thy ===== *)
theory Trap
  imports Scheduler Deadlock
begin

text \<open>
  The timer part of \<^verbatim>\<open>kernel/trap.c\<close>: the clock interrupt with its energy accounting, and what
  \<open>usertrap\<close> and \<open>kerneltrap\<close> do when the device that interrupted is the timer.
\<close>

section \<open>Definitions\<close>

definition cpuid :: "'s ptable_scheme \<Rightarrow> nat" where
  "cpuid s = hartid s"

text \<open>The two places that charge a tick to a process.\<close>

definition charge_clock :: "proc \<Rightarrow> proc" where
  "charge_clock q =
     (let q = q\<lparr>p_energy_consumed := p_energy_consumed q + ENERGY_PER_TICK\<rparr>;
          q = (if p_energy_budget q \<ge> ENERGY_PER_TICK
               then q\<lparr>p_energy_budget := p_energy_budget q - ENERGY_PER_TICK\<rparr>
               else q\<lparr>p_energy_budget := 0\<rparr>)
      in q\<lparr>p_last_scheduled_tick := p_last_scheduled_tick q + 1\<rparr>)"

definition charge_user :: "proc \<Rightarrow> proc" where
  "charge_user q =
     (let q = q\<lparr>p_energy_consumed := p_energy_consumed q + ENERGY_PER_TICK\<rparr>;
          q = (if p_energy_budget q > 0
               then q\<lparr>p_energy_budget := p_energy_budget q - ENERGY_PER_TICK\<rparr>
               else q)
      in q\<lparr>p_last_scheduled_tick := p_last_scheduled_tick q + 1\<rparr>)"

definition clockintr :: "'s ptable_scheme \<Rightarrow> ('s ptable_scheme, unit) kres" where
  "clockintr s =
     bindK (if cpuid s = 0
            then bindK (acquire Ticks_lock s) (\<lambda>_ s.
                 bindK (wakeup (Some Chan_ticks) (s\<lparr>ticks := ticks s + 1\<rparr>)) (\<lambda>_ s.
                   release Ticks_lock s))
            else ret () s) (\<lambda>_ s.
     bindK (case myproc s of None \<Rightarrow> ret () s | Some p \<Rightarrow> locked_upd p charge_clock s) (\<lambda>_ s.
       ret () (s\<lparr>stimecmp := rtime s + timer_interval s\<rparr>)))"

text \<open>The branch \<^verbatim>\<open>which_dev == 2\<close> of \<open>usertrap\<close>, up to the switch in \<open>yield\<close>.\<close>

definition usertrap_timer :: "nat \<Rightarrow> 's ptable_scheme \<Rightarrow> ('s ptable_scheme, unit) kres" where
  "usertrap_timer p s =
     (let s = upd_proc p charge_user s in
      bindK (acquire Ticks_lock s) (\<lambda>_ s.
        let current_ticks = ticks s in
        bindK (release Ticks_lock s) (\<lambda>_ s.
        bindK (if current_ticks mod DEADLOCK_CHECK_INTERVAL = 0 then deadlock_recover s else ret () s)
          (\<lambda>_ s. yield s))))"

text \<open>The same test in \<open>kerneltrap\<close>.\<close>

definition kerneltrap_timer :: "'s ptable_scheme \<Rightarrow> ('s ptable_scheme, unit) kres" where
  "kerneltrap_timer s = (if myproc s \<noteq> None then yield s else ret () s)"

definition sys_uptime :: "'s ptable_scheme \<Rightarrow> ('s ptable_scheme, u64) kres" where
  "sys_uptime s =
     bindK (acquire Ticks_lock s) (\<lambda>_ s.
       let xticks = ticks s in
       bindK (release Ticks_lock s) (\<lambda>_ s. ret (ucast xticks) s))"

text \<open>
  The loop of \<open>sys_pause\<close>, entered with \<open>tickslock\<close> held; the comparison of the \<^verbatim>\<open>uint\<close>
  difference with the \<^verbatim>\<open>int\<close> is unsigned.
\<close>

definition pause_loop :: "u32 \<Rightarrow> u32 \<Rightarrow> 's ptable_scheme \<Rightarrow> ('s ptable_scheme, int) kres" where
  "pause_loop ticks0 n s =
     (if ticks s - ticks0 < n then
        case myproc s of
          None \<Rightarrow> Inl Null_deref
        | Some p \<Rightarrow>
            bindK (killed p s) (\<lambda>k s.
              if k \<noteq> 0 then bindK (release Ticks_lock s) (\<lambda>_ s. ret (- 1) s)
              else sleep Chan_ticks (Some Ticks_lock) s)
      else bindK (release Ticks_lock s) (\<lambda>_ s. ret 0 s))"

definition sys_pause :: "int \<Rightarrow> 's ptable_scheme \<Rightarrow> ('s ptable_scheme, int) kres" where
  "sys_pause n s =
     (let n = (if n < 0 then 0 else n) in
      bindK (acquire Ticks_lock s) (\<lambda>_ s. pause_loop (ticks s) (word_of_int n) s))"

definition sys_pause_resume ::
  "nat \<Rightarrow> u32 \<Rightarrow> int \<Rightarrow> 's ptable_scheme \<Rightarrow> ('s ptable_scheme, int) kres" where
  "sys_pause_resume p ticks0 n s =
     bindK (sleep_return p Ticks_lock s) (\<lambda>_ s. pause_loop ticks0 (word_of_int n) s)"

section \<open>Energy accounting\<close>

text \<open>What remains of a budget after \<open>n\<close> units, without going below zero.\<close>

definition drain :: "u64 \<Rightarrow> nat \<Rightarrow> u64" where
  "drain b n = of_nat (unat b - n)"

lemma drain_1: "drain b (Suc 0) = (if b > 0 then b - 1 else 0)"
proof (cases "b = 0")
  case False
  then have "unat (b - 1) = unat b - 1" by (simp add: unat_minus_one)
  then have "b - 1 = of_nat (unat b - 1)" by (metis of_nat_unat ucast_id)
  with False show ?thesis by (simp add: drain_def word_gt_0)
qed (simp add: drain_def)

lemma drain_add: "drain (drain b m) n = drain b (m + n)"
proof -
  have "unat b - m < 2 ^ 64" using unsigned_less [of b, where ?'a = nat] by simp
  then show ?thesis by (simp add: drain_def unat_of_nat_u64)
qed

lemma charge_clock_simps [simp]:
  "p_energy_consumed (charge_clock q) = p_energy_consumed q + 1"
  "p_energy_budget (charge_clock q) = drain (p_energy_budget q) (Suc 0)"
  "p_state (charge_clock q) = p_state q" "p_chan (charge_clock q) = p_chan q"
  by (auto simp: charge_clock_def Let_def drain_1 word_gt_0 word_le_nat_alt unat_gt_0 Suc_le_eq)

lemma charge_user_simps [simp]:
  "p_energy_consumed (charge_user q) = p_energy_consumed q + 1"
  "p_energy_budget (charge_user q) = drain (p_energy_budget q) (Suc 0)"
  "p_state (charge_user q) = p_state q"
  by (auto simp: charge_user_def Let_def drain_1 word_gt_0)

definition energy :: "proc \<Rightarrow> u64 \<times> u64" where
  "energy q = (p_energy_consumed q, p_energy_budget q)"

text \<open>The effect of charging \<open>n\<close> units.\<close>

definition spend :: "nat \<Rightarrow> u64 \<times> u64 \<Rightarrow> u64 \<times> u64" where
  "spend n e = (fst e + of_nat n, drain (snd e) n)"

lemma spend_spend: "spend m (spend n e) = spend (n + m) e"
  by (simp add: spend_def drain_add add.commute add.left_commute)

lemma energy_charge [simp]:
  "energy (charge_clock q) = spend 1 (energy q)" "energy (charge_user q) = spend 1 (energy q)"
  "energy (wake chn q) = energy q" "energy (q\<lparr>p_state := st\<rparr>) = energy q"
  "energy (strip_victim q) = energy q"
  by (simp_all add: energy_def spend_def wake_def strip_victim_def Let_def)

lemma clockintr_eq:
  assumes "curproc s = Some p" "\<And>i. Proc_lock i \<notin> set (held s)" "Ticks_lock \<notin> set (held s)"
    and "length (procs s) = NPROC"
  shows "clockintr s =
     (let s' = (if hartid s = 0
                then upd_all (\<lambda>i. if i = p then (\<lambda>q. q) else wake (Some Chan_ticks)) (s\<lparr>ticks := ticks s + 1\<rparr>)
                else s)
      in ret () (upd_proc p charge_clock s'\<lparr>stimecmp := rtime s + timer_interval s\<rparr>))"
proof -
  have w: "wakeup (Some Chan_ticks) (s\<lparr>held := Ticks_lock # held s, ticks := ticks s + 1\<rparr>) =
      ret () (upd_all (\<lambda>i. if curproc s = Some i then (\<lambda>q. q) else wake (Some Chan_ticks))
        (s\<lparr>held := Ticks_lock # held s, ticks := ticks s + 1\<rparr>))"
    by (subst wakeup_eq) (use assms in simp_all)
  have eq: "(\<lambda>i. if curproc s = Some i then (\<lambda>q. q) else wake (Some Chan_ticks)) =
      (\<lambda>i. if i = p then (\<lambda>q. q) else wake (Some Chan_ticks))"
    using assms(1) by auto
  show ?thesis
    using assms w unfolding clockintr_def eq
    by (auto simp: cpuid_def myproc_def kres_simps upd_all_def Let_def)
qed

lemma deadlock_recover_energy:
  assumes "Pr_lock \<notin> set (held s)" "\<And>i. Proc_lock i \<notin> set (held s)" "length (procs s) = NPROC"
  shows "\<exists>t. deadlock_recover s = ret () t \<and> held t = held s \<and> curproc t = curproc s \<and>
     ticks t = ticks s \<and> stimecmp t = stimecmp s \<and>
     length (procs t) = NPROC \<and> (\<forall>i < NPROC. energy (proc_at t i) = energy (proc_at s i))"
proof (rule check_deadlock_cases [OF assms])
  assume "check_deadlock s = ret 0 s"
  then show ?thesis using assms(3) by (simp add: deadlock_recover_def)
next
  fix ds v out
  assume "v < NPROC" "check_deadlock s =
    ret (p_pid (proc_at s v)) (upd_proc v strip_victim (s\<lparr>uart_out := uart_out s @ out\<rparr>))"
  then show ?thesis using assms(3)
    by (auto simp: deadlock_recover_def nth_list_update)
qed

lemma usertrap_timer_ok:
  assumes "curproc s = Some p" "p < NPROC" "held s = []" "length (procs s) = NPROC"
  shows "\<exists>t. usertrap_timer p s = Inl (Switch t) \<and> held t = [Proc_lock p] \<and> ticks t = ticks s \<and>
     stimecmp t = stimecmp s \<and> p_state (proc_at t p) = RUNNABLE \<and>
     (\<forall>i < NPROC. energy (proc_at t i) =
        (if i = p then spend 1 (energy (proc_at s i)) else energy (proc_at s i)))"
proof -
  let ?s = "upd_proc p charge_user s"
  have "\<exists>u. (if ticks s mod DEADLOCK_CHECK_INTERVAL = 0 then deadlock_recover ?s else ret () ?s) =
      ret () u \<and> held u = held ?s \<and> curproc u = curproc ?s \<and> ticks u = ticks ?s \<and>
      stimecmp u = stimecmp ?s \<and> length (procs u) = NPROC \<and>
      (\<forall>i < NPROC. energy (proc_at u i) = energy (proc_at ?s i))"
    using deadlock_recover_energy [of ?s] assms by auto
  then obtain u where u: "(if ticks s mod DEADLOCK_CHECK_INTERVAL = 0 then deadlock_recover ?s
      else ret () ?s) = ret () u"
    "held u = []" "curproc u = Some p" "ticks u = ticks s" "stimecmp u = stimecmp s"
    "length (procs u) = NPROC" "\<forall>i < NPROC. energy (proc_at u i) = energy (proc_at ?s i)"
    using assms by auto
  have h: "?s\<lparr>held := []\<rparr> = ?s" using assms(3) by (cases s) (simp add: upd_proc_def)
  have "usertrap_timer p s = yield u"
    using u(1) assms(3) by (simp add: usertrap_timer_def kres_simps Let_def h split: if_splits)
  also have "\<dots> = Inl (Switch (upd_proc p (\<lambda>q. q\<lparr>p_state := RUNNABLE\<rparr>) u\<lparr>held := [Proc_lock p]\<rparr>))"
    using u assms(2) by (simp add: yield_def myproc_def kres_simps sched_def upd_proc_held_update)
  finally show ?thesis
    using u assms by (auto simp: nth_list_update)
qed


definition running_first :: ptable where
  "running_first = boot_ptable\<lparr>curproc := Some 0, ticks := 99,
     procs := (replicate NPROC no_proc)
       [0 := no_proc\<lparr>p_state := RUNNING, p_pid := 1, p_energy_budget := 1\<rparr>]\<rparr>"


section \<open>Pausing\<close>

text \<open>
  C14. \<open>sys_pause\<close> with the tick counter wrapping around at 32 bits. When the process that paused
  at tick \<open>t0\<close> is resumed by the scheduler \<open>d\<close> ticks later, it returns 0 if the requested
  number of ticks has passed, sleeps again on the tick channel if not, and returns -1 if it
  was killed meanwhile; in each case it gives back every lock but the one \<open>sleep\<close> passes on.
\<close>

theorem pause_exact:
  assumes "curproc s = Some p" "p < NPROC" "held s = [Proc_lock p]" "length (procs s) = NPROC"
    and "0 \<le> n" "n < 2 ^ 31" "ticks s = t0 + of_nat d" "d < 2 ^ 32"
  shows "(int d \<ge> n \<longrightarrow> (\<exists>t. sys_pause_resume p t0 n s = ret 0 t \<and> held t = [])) \<and>
    (int d < n \<and> p_killed (proc_at s p) \<noteq> 0 \<longrightarrow>
       (\<exists>t. sys_pause_resume p t0 n s = ret (- 1) t \<and> held t = [])) \<and>
    (int d < n \<and> p_killed (proc_at s p) = 0 \<longrightarrow>
       (\<exists>t. sys_pause_resume p t0 n s = Inl (Switch t) \<and> held t = [Proc_lock p] \<and>
          p_state (proc_at t p) = SLEEPING \<and> p_chan (proc_at t p) = Some Chan_ticks))"
proof -
  have un: "unat (word_of_int n :: u32) = nat n"
    using assms(5,6) by (simp add: unsigned_of_int take_bit_int_eq_self)
  have ud: "unat (of_nat d :: u32) = d" using assms(8) by (simp add: unat_of_nat)
  have lt: "(ticks s - t0 < word_of_int n) = (int d < n)"
    using assms(5,7) un ud by (auto simp: word_less_nat_alt)
  let ?s = "upd_proc p (\<lambda>q. q\<lparr>p_chan := None\<rparr>) s\<lparr>held := [Ticks_lock]\<rparr>"
  have r: "sys_pause_resume p t0 n s = pause_loop t0 (word_of_int n) ?s"
    using assms(3) by (simp add: sys_pause_resume_def sleep_return_def kres_simps Let_def)
  show ?thesis
    unfolding r pause_loop_def
    using lt assms(1-4)
    by (auto simp: kres_simps myproc_def killed_eq sleep_eq)
qed

theorem pause_exact_witness:
  "\<exists>t. sys_pause_resume 0 0xFFFFFFFF 3 (running_first\<lparr>held := [Proc_lock 0], ticks := 2\<rparr>) = ret 0 t \<and>
     held t = []"
  using pause_exact [of "running_first\<lparr>held := [Proc_lock 0], ticks := 2\<rparr>" 0 3 "0xFFFFFFFF" 3]
  by (simp add: running_first_def boot_ptable_def)

end
