(* ===== verification/Proc_Life.thy ===== *)
theory Proc_Life
  imports Exec Trap
begin

text \<open>
  The life of a process (\<^verbatim>\<open>kernel/proc.c\<close>): \<open>userinit\<close>, \<open>kfork\<close>, \<open>kexit\<close>, \<open>kwait\<close> and \<open>forkret\<close>,
  and the system calls of \<^verbatim>\<open>kernel/sysproc.c\<close> that reach them. \<open>kwait\<close> sleeps in a loop and has
  a \<open>_resume\<close> operation.
\<close>

section \<open>Definitions\<close>

definition userinit :: "'s fsst_scheme \<Rightarrow> ('s fsst_scheme, unit) kres" where
  "userinit s =
     bindK (allocproc s) (\<lambda>po s.
       let s = s\<lparr>initproc := po\<rparr> in
       case po of
         None \<Rightarrow> bindK (namei (bytes ''/'') s) (\<lambda>_ _. Inl Null_deref)
       | Some p \<Rightarrow>
           bindK (namei (bytes ''/'') s) (\<lambda>ip s.
             release (Proc_lock p) (upd_proc p (\<lambda>q. q\<lparr>p_cwd := ip, p_state := RUNNABLE\<rparr>) s)))"

definition kfork :: "'s ftst_scheme \<Rightarrow> ('s ftst_scheme, int) kres" where
  "kfork s =
     with_proc s (\<lambda>p.
     bindK (allocproc s) (\<lambda>npo s.
       case npo of
         None \<Rightarrow> ret (- 1) s
       | Some np \<Rightarrow>
           bindK (uvmcopy (p_pagetable (proc_at s p)) (p_pagetable (proc_at s np)) (p_sz (proc_at s p)) s) (\<lambda>r s.
             if r < 0
             then bindK (freeproc np s) (\<lambda>_ s. bindK (release (Proc_lock np) s) (\<lambda>_ s. ret (- 1) s))
             else
               let s = upd_proc np (\<lambda>q. q\<lparr>p_sz := p_sz (proc_at s p)\<rparr>) s;
                   s = s\<lparr>ram := write_bytes (ram s) (p_trapframe (proc_at s np))
                                 (read_bytes (ram s) (p_trapframe (proc_at s p)) TF_SIZE)\<rparr>;
                   s = tf_set np TF_a0 0 s in
               bindK (forK [0..<NOFILE]
                 (\<lambda>i s. case p_ofile (proc_at s p) ! i of
                          None \<Rightarrow> ret () s
                        | Some f \<Rightarrow> bindK (filedup f s) (\<lambda>f s.
                            ret () (upd_proc np (\<lambda>q. q\<lparr>p_ofile := (p_ofile q)[i := Some f]\<rparr>) s))) s) (\<lambda>_ s.
               case p_cwd (proc_at s p) of
                 None \<Rightarrow> Inl Null_deref
               | Some c \<Rightarrow>
                   bindK (idup c s) (\<lambda>c s.
                     let s = upd_proc np (\<lambda>q. q\<lparr>p_cwd := Some c,
                               p_name := safestrcpy (p_name q) (p_name (proc_at s p)) 16\<rparr>) s;
                         pid = p_pid (proc_at s np) in
                   bindK (release (Proc_lock np) s) (\<lambda>_ s.
                   bindK (acquire Wait_lock s) (\<lambda>_ s.
                   bindK (release Wait_lock (upd_proc np (\<lambda>q. q\<lparr>p_parent := Some p\<rparr>) s)) (\<lambda>_ s.
                   bindK (locked_upd np (\<lambda>q. q\<lparr>p_state := RUNNABLE\<rparr>) s) (\<lambda>_ s.
                     ret pid s)))))))))"

definition kexit :: "int \<Rightarrow> 's ftst_scheme \<Rightarrow> ('s ftst_scheme, 'a) kres" where
  "kexit status s =
     with_proc s (\<lambda>p.
       if Some p = initproc s then panic ''init exiting''
       else
         bindK (forK [0..<NOFILE]
           (\<lambda>fd s. case p_ofile (proc_at s p) ! fd of
                     None \<Rightarrow> ret () s
                   | Some f \<Rightarrow> bindK (fileclose f s) (\<lambda>_ s.
                       ret () (upd_proc p (\<lambda>q. q\<lparr>p_ofile := (p_ofile q)[fd := None]\<rparr>) s))) s) (\<lambda>_ s.
         bindK (begin_op s) (\<lambda>_ s.
         bindK (case p_cwd (proc_at s p) of None \<Rightarrow> Inl Null_deref | Some c \<Rightarrow> iput c s) (\<lambda>_ s.
         bindK (end_op s) (\<lambda>_ s.
           let s = upd_proc p (\<lambda>q. q\<lparr>p_cwd := None\<rparr>) s in
         bindK (acquire Wait_lock s) (\<lambda>_ s.
         bindK (reparent p s) (\<lambda>_ s.
         bindK (wakeup (map_option Chan_proc (p_parent (proc_at s p))) s) (\<lambda>_ s.
         bindK (acquire (Proc_lock p) s) (\<lambda>_ s.
           let s = upd_proc p (\<lambda>q. q\<lparr>p_xstate := status, p_state := ZOMBIE\<rparr>) s in
         bindK (release Wait_lock s) (\<lambda>_ s.
         bindK (sched s) (\<lambda>(_ :: unit) _. panic ''zombie exit'')))))))))))"

text \<open>
  The scan of \<open>kwait\<close> over the table. The result is \<open>Some\<close> return value, or \<open>None\<close> and whether
  there are children.
\<close>

fun kwait_scan ::
  "nat list \<Rightarrow> nat \<Rightarrow> u64 \<Rightarrow> bool \<Rightarrow> 's ptable_scheme \<Rightarrow> ('s ptable_scheme, int option \<times> bool) kres" where
  "kwait_scan [] p addr havekids s = ret (None, havekids) s"
| "kwait_scan (pp # pps) p addr havekids s =
     (if p_parent (proc_at s pp) = Some p then
        bindK (acquire (Proc_lock pp) s) (\<lambda>_ s.
          if p_state (proc_at s pp) = ZOMBIE then
            bindK (printf (''schedstats: pid=%d waiting_tick=%d'' @ nl)
                     [vint (p_pid (proc_at s pp)), vint (p_waiting_tick (proc_at s pp))] s) (\<lambda>_ s.
              let pid = p_pid (proc_at s pp) in
            bindK (if addr \<noteq> 0
                   then copyout (p_pagetable (proc_at s p)) addr
                          (le_bytes 4 (word_of_int (p_xstate (proc_at s pp)) :: u32)) s
                   else ret 0 s) (\<lambda>r s.
              if r < 0
              then bindK (release (Proc_lock pp) s) (\<lambda>_ s.
                   bindK (release Wait_lock s) (\<lambda>_ s. ret (Some (- 1), True) s))
              else bindK (freeproc pp s) (\<lambda>_ s.
                   bindK (release (Proc_lock pp) s) (\<lambda>_ s.
                   bindK (release Wait_lock s) (\<lambda>_ s. ret (Some pid, True) s)))))
          else bindK (release (Proc_lock pp) s) (\<lambda>_ s. kwait_scan pps p addr True s))
      else kwait_scan pps p addr havekids s)"

text \<open>One round of the endless loop of \<open>kwait\<close>, entered with \<open>wait_lock\<close> held.\<close>

definition kwait_loop :: "nat \<Rightarrow> u64 \<Rightarrow> 's ptable_scheme \<Rightarrow> ('s ptable_scheme, int) kres" where
  "kwait_loop p addr s =
     bindK (kwait_scan [0..<NPROC] p addr False s) (\<lambda>(r, havekids) s.
       case r of
         Some v \<Rightarrow> ret v s
       | None \<Rightarrow>
           bindK (if \<not> havekids then ret 1 s else killed p s) (\<lambda>stop s.
             if stop \<noteq> 0 then bindK (release Wait_lock s) (\<lambda>_ s. ret (- 1) s)
             else sleep (Chan_proc p) (Some Wait_lock) s))"

definition kwait :: "u64 \<Rightarrow> 's ptable_scheme \<Rightarrow> ('s ptable_scheme, int) kres" where
  "kwait addr s =
     with_proc s (\<lambda>p. bindK (acquire Wait_lock s) (\<lambda>_ s. kwait_loop p addr s))"

definition kwait_resume :: "nat \<Rightarrow> u64 \<Rightarrow> 's ptable_scheme \<Rightarrow> ('s ptable_scheme, int) kres" where
  "kwait_resume p addr s = bindK (sleep_return p Wait_lock s) (\<lambda>_ s. kwait_loop p addr s)"

subsection \<open>System calls\<close>

text \<open>The buffer of \<open>sys_kps\<close> has four bytes, but \<open>argstr\<close> may store up to 128.\<close>

definition sys_kps :: "'s ptable_scheme \<Rightarrow> ('s ptable_scheme, u64) kres" where
  "sys_kps s =
     bindK (argstr 0 128 s) (\<lambda>(r, bs) s.
       if length bs > 4 then Inl Undefined
       else if r < 0 then ret_int (- 1) s
       else bindK (kps bs s) (\<lambda>r s. ret_int r s))"

definition sys_exit :: "'s ftst_scheme \<Rightarrow> ('s ftst_scheme, u64) kres" where
  "sys_exit s = bindK (argint 0 s) (\<lambda>n s. kexit n s)"

definition sys_getpid :: "'s ptable_scheme \<Rightarrow> ('s ptable_scheme, u64) kres" where
  "sys_getpid s = with_proc s (\<lambda>p. ret_int (p_pid (proc_at s p)) s)"

definition sys_fork :: "'s ftst_scheme \<Rightarrow> ('s ftst_scheme, u64) kres" where
  "sys_fork s = bindK (kfork s) (\<lambda>r s. ret_int r s)"

definition sys_wait :: "'s ptable_scheme \<Rightarrow> ('s ptable_scheme, u64) kres" where
  "sys_wait s = bindK (argaddr 0 s) (\<lambda>p s. bindK (kwait p s) (\<lambda>r s. ret_int r s))"

definition sys_kill :: "'s ptable_scheme \<Rightarrow> ('s ptable_scheme, u64) kres" where
  "sys_kill s = bindK (argint 0 s) (\<lambda>pid s. bindK (kkill pid s) (\<lambda>r s. ret_int r s))"

definition sys_getenergy :: "'s ptable_scheme \<Rightarrow> ('s ptable_scheme, u64) kres" where
  "sys_getenergy s =
     with_proc s (\<lambda>p.
     bindK (argaddr 0 s) (\<lambda>addr s.
       if addr = 0 then ret_int (- 1) s
       else
     bindK (acquire (Proc_lock p) s) (\<lambda>_ s.
       let q = proc_at s p;
           energy_data = [p_energy_budget q, p_energy_consumed q, word_of_int (p_pid q)] in
     bindK (release (Proc_lock p) s) (\<lambda>_ s.
     bindK (copyout (p_pagetable (proc_at s p)) addr (concat (map (le_bytes 8) energy_data)) s) (\<lambda>r s.
       if r < 0 then ret_int (- 1) s else ret_int 0 s)))))"

end
