(* ===== verification/Virtio.thy ===== *)
theory Virtio
  imports File
begin

text \<open>
  The driver for the virtio disk, \<^verbatim>\<open>kernel/virtio_disk.c\<close>, with its descriptor table, the two
  rings and its own book-keeping. The addresses that it writes into descriptors are those
  of a command header, of a buffer's data or of a status byte. The device is hardware: what
  its registers read is an argument, and it fills the used ring. \<open>virtio_disk_rw\<close> sleeps twice;
  each wait has a \<open>_resume\<close> operation.
\<close>

section \<open>Definitions\<close>

abbreviation (input) NUM :: nat where "NUM \<equiv> 8"
abbreviation (input) VRING_DESC_F_NEXT :: u16 where "VRING_DESC_F_NEXT \<equiv> 1"
abbreviation (input) VRING_DESC_F_WRITE :: u16 where "VRING_DESC_F_WRITE \<equiv> 2"
abbreviation (input) VIRTIO_BLK_T_IN :: u32 where "VIRTIO_BLK_T_IN \<equiv> 0"
abbreviation (input) VIRTIO_BLK_T_OUT :: u32 where "VIRTIO_BLK_T_OUT \<equiv> 1"

datatype daddr = Null_addr | Ops_addr nat | Data_addr nat | Status_addr nat

record virtq_desc =
  d_addr :: daddr
  d_len :: u32
  d_flags :: u16
  d_next :: u16

record virtio_blk_req =
  r_type :: u32
  r_reserved :: u32
  r_sector :: u64

record vdisk = ftst +
  v_desc :: "virtq_desc list"
  v_avail_ring :: "u16 list"
  v_avail_idx :: u16
  v_used_ring :: "u32 list"
  v_used_idx :: u16
  v_free :: "int list"
  v_seen_idx :: u16
  v_info_b :: "nat option list"
  v_info_status :: "byte list"
  v_ops :: "virtio_blk_req list"
  v_regs :: "(nat \<times> u32) list"

definition zero_desc :: virtq_desc where
  "zero_desc = \<lparr>d_addr = Null_addr, d_len = 0, d_flags = 0, d_next = 0\<rparr>"

definition write_reg :: "nat \<Rightarrow> u32 \<Rightarrow> 's vdisk_scheme \<Rightarrow> 's vdisk_scheme" where
  "write_reg r v s = s\<lparr>v_regs := v_regs s @ [(r, v)]\<rparr>"

text \<open>
  \<open>virtio_disk_init\<close>; \<open>reg\<close> is what the device's registers read. The pages of the three rings
  come from \<open>kalloc\<close> and are zeroed.
\<close>

definition virtio_features :: "u32 \<Rightarrow> u32" where
  "virtio_features f =
     f AND NOT (push_bit 5 1) AND NOT (push_bit 7 1) AND NOT (push_bit 11 1) AND NOT (push_bit 12 1)
       AND NOT (push_bit 27 1) AND NOT (push_bit 29 1) AND NOT (push_bit 28 1)"

definition virtio_disk_init ::
  "(nat \<Rightarrow> u32) \<Rightarrow> 's vdisk_scheme \<Rightarrow> ('s vdisk_scheme, unit) kres" where
  "virtio_disk_init reg s =
     (if reg 0x000 \<noteq> 0x74726976 \<or> reg 0x004 \<noteq> 2 \<or> reg 0x008 \<noteq> 2 \<or> reg 0x00c \<noteq> 0x554d4551
      then panic ''could not find virtio disk''
      else
        let s = write_reg 0x070 0 s;
            s = write_reg 0x070 1 s;
            s = write_reg 0x070 3 s;
            s = write_reg 0x020 (virtio_features (reg 0x010)) s;
            s = write_reg 0x070 11 s;
            status = reg 0x070 in
        if status AND 8 = 0 then panic ''virtio disk FEATURES_OK unset''
        else
          let s = write_reg 0x030 0 s in
          if reg 0x044 \<noteq> 0 then panic ''virtio disk should not be ready''
          else if reg 0x034 = 0 then panic ''virtio disk has no queue 0''
          else if reg 0x034 < of_nat NUM then panic ''virtio disk max queue too short''
          else
            bindK (kalloc s) (\<lambda>desc s.
            bindK (kalloc s) (\<lambda>avail s.
            bindK (kalloc s) (\<lambda>used s.
              if desc = 0 \<or> avail = 0 \<or> used = 0 then panic ''virtio disk kalloc''
              else
                let s = zero_page used (zero_page avail (zero_page desc s));
                    s = s\<lparr>v_desc := replicate NUM zero_desc, v_avail_ring := replicate NUM 0,
                          v_avail_idx := 0, v_used_ring := replicate NUM 0, v_used_idx := 0\<rparr>;
                    s = write_reg 0x038 (of_nat NUM) s;
                    s = write_reg 0x080 (ucast desc) s;
                    s = write_reg 0x084 (ucast (drop_bit 32 desc)) s;
                    s = write_reg 0x090 (ucast avail) s;
                    s = write_reg 0x094 (ucast (drop_bit 32 avail)) s;
                    s = write_reg 0x0a0 (ucast used) s;
                    s = write_reg 0x0a4 (ucast (drop_bit 32 used)) s;
                    s = write_reg 0x044 1 s;
                    s = s\<lparr>v_free := replicate NUM 1\<rparr>
                in ret () (write_reg 0x070 (status OR 4) s)))))"

definition alloc_desc :: "'s vdisk_scheme \<Rightarrow> int \<times> 's vdisk_scheme" where
  "alloc_desc s =
     (case find (\<lambda>i. v_free s ! i \<noteq> 0) [0..<NUM] of
        Some i \<Rightarrow> (int i, s\<lparr>v_free := (v_free s)[i := 0]\<rparr>)
      | None \<Rightarrow> (- 1, s))"

definition free_desc :: "int \<Rightarrow> 's vdisk_scheme \<Rightarrow> ('s vdisk_scheme, unit) kres" where
  "free_desc i s =
     (if i \<ge> int NUM then panic ''free_desc 1''
      else if v_free s ! nat i \<noteq> 0 then panic ''free_desc 2''
      else wakeup (Some Chan_disk_free)
             (s\<lparr>v_desc := (v_desc s)[nat i := zero_desc], v_free := (v_free s)[nat i := 1]\<rparr>))"

text \<open>The loop of \<open>free_chain\<close>. Freeing a descriptor twice panics, which bounds the rounds.\<close>

fun free_chain_loop :: "nat \<Rightarrow> int \<Rightarrow> 's vdisk_scheme \<Rightarrow> ('s vdisk_scheme, unit) kres" where
  "free_chain_loop 0 i s = Inl Undefined"
| "free_chain_loop (Suc fuel) i s =
     (let flag = d_flags (v_desc s ! nat i); nxt = d_next (v_desc s ! nat i)
      in bindK (free_desc i s) (\<lambda>_ s.
           if flag AND VRING_DESC_F_NEXT \<noteq> 0 then free_chain_loop fuel (uint nxt) s else ret () s))"

definition free_chain :: "int \<Rightarrow> 's vdisk_scheme \<Rightarrow> ('s vdisk_scheme, unit) kres" where
  "free_chain i s = free_chain_loop (Suc NUM) i s"

text \<open>The loop of \<open>alloc3_desc\<close>; \<open>idx\<close> are the descriptors so far. \<open>None\<close> is the result -1.\<close>

fun alloc3_loop :: "nat \<Rightarrow> int list \<Rightarrow> 's vdisk_scheme \<Rightarrow> ('s vdisk_scheme, int list option) kres" where
  "alloc3_loop 0 idx s = ret (Some idx) s"
| "alloc3_loop (Suc k) idx s =
     (let (i, s) = alloc_desc s
      in if i < 0 then bindK (forK idx free_desc s) (\<lambda>_ s. ret None s)
         else alloc3_loop k (idx @ [i]) s)"

definition alloc3_desc :: "'s vdisk_scheme \<Rightarrow> ('s vdisk_scheme, int list option) kres" where
  "alloc3_desc s = alloc3_loop 3 [] s"

text \<open>Formatting the three descriptors of a request and handing it to the device.\<close>

definition set_desc :: "nat \<Rightarrow> virtq_desc \<Rightarrow> 's vdisk_scheme \<Rightarrow> 's vdisk_scheme" where
  "set_desc i d s = s\<lparr>v_desc := (v_desc s)[i := d]\<rparr>"

definition submit :: "nat \<Rightarrow> bool \<Rightarrow> nat \<Rightarrow> nat \<Rightarrow> nat \<Rightarrow> 's vdisk_scheme \<Rightarrow> 's vdisk_scheme" where
  "submit b write i0 i1 i2 s =
     (let sector = ucast (b_blockno (buf_at s b) * 2);
          s = s\<lparr>v_ops := (v_ops s)[i0 := \<lparr>r_type = (if write then VIRTIO_BLK_T_OUT else VIRTIO_BLK_T_IN),
                                      r_reserved = 0, r_sector = sector\<rparr>]\<rparr>;
          s = set_desc i0 \<lparr>d_addr = Ops_addr i0, d_len = 16, d_flags = VRING_DESC_F_NEXT,
                           d_next = of_nat i1\<rparr> s;
          s = set_desc i1 \<lparr>d_addr = Data_addr b, d_len = of_nat BSIZE,
                           d_flags = (if write then 0 else VRING_DESC_F_WRITE) OR VRING_DESC_F_NEXT,
                           d_next = of_nat i2\<rparr> s;
          s = s\<lparr>v_info_status := (v_info_status s)[i0 := 0xFF]\<rparr>;
          s = set_desc i2 \<lparr>d_addr = Status_addr i0, d_len = 1, d_flags = VRING_DESC_F_WRITE,
                           d_next = 0\<rparr> s;
          s = upd_buf b (\<lambda>x. x\<lparr>b_disk := 1\<rparr>) s;
          s = s\<lparr>v_info_b := (v_info_b s)[i0 := Some b]\<rparr>;
          s = s\<lparr>v_avail_ring := (v_avail_ring s)[unat (v_avail_idx s mod of_nat NUM) := of_nat i0]\<rparr>;
          s = s\<lparr>v_avail_idx := v_avail_idx s + 1\<rparr>
      in write_reg 0x050 0 s)"

text \<open>The second wait and what follows it, with \<open>vdisk_lock\<close> held.\<close>

definition rw_wait :: "nat \<Rightarrow> nat \<Rightarrow> 's vdisk_scheme \<Rightarrow> ('s vdisk_scheme, unit) kres" where
  "rw_wait b i0 s =
     (if b_disk (buf_at s b) = 1 then sleep (Chan_buf b) (Some Vdisk_lock) s
      else bindK (free_chain (int i0) (s\<lparr>v_info_b := (v_info_b s)[i0 := None]\<rparr>)) (\<lambda>_ s.
             release Vdisk_lock s))"

text \<open>The first wait and what follows it, with \<open>vdisk_lock\<close> held.\<close>

definition rw_alloc :: "nat \<Rightarrow> bool \<Rightarrow> 's vdisk_scheme \<Rightarrow> ('s vdisk_scheme, unit) kres" where
  "rw_alloc b write s =
     bindK (alloc3_desc s) (\<lambda>r s.
       case r of
         Some [i0, i1, i2] \<Rightarrow> rw_wait b (nat i0) (submit b write (nat i0) (nat i1) (nat i2) s)
       | _ \<Rightarrow> sleep Chan_disk_free (Some Vdisk_lock) s)"

definition virtio_disk_rw :: "nat \<Rightarrow> bool \<Rightarrow> 's vdisk_scheme \<Rightarrow> ('s vdisk_scheme, unit) kres" where
  "virtio_disk_rw b write s = bindK (acquire Vdisk_lock s) (\<lambda>_ s. rw_alloc b write s)"

definition virtio_disk_rw_retry :: "nat \<Rightarrow> nat \<Rightarrow> bool \<Rightarrow> 's vdisk_scheme \<Rightarrow> ('s vdisk_scheme, unit) kres" where
  "virtio_disk_rw_retry p b write s =
     bindK (sleep_return p Vdisk_lock s) (\<lambda>_ s. rw_alloc b write s)"

definition virtio_disk_rw_resume :: "nat \<Rightarrow> nat \<Rightarrow> nat \<Rightarrow> 's vdisk_scheme \<Rightarrow> ('s vdisk_scheme, unit) kres" where
  "virtio_disk_rw_resume p b i0 s =
     bindK (sleep_return p Vdisk_lock s) (\<lambda>_ s. rw_wait b i0 s)"

text \<open>
  The loop of \<open>virtio_disk_intr\<close>; the first argument is the number of entries of the used ring
  that have not been looked at.
\<close>

fun intr_loop :: "nat \<Rightarrow> 's vdisk_scheme \<Rightarrow> ('s vdisk_scheme, unit) kres" where
  "intr_loop 0 s = ret () s"
| "intr_loop (Suc k) s =
     (if v_seen_idx s \<noteq> v_used_idx s then
        let i = unat (v_used_ring s ! unat (v_seen_idx s mod of_nat NUM)) in
        if v_info_status s ! i \<noteq> 0 then panic ''virtio_disk_intr status''
        else case v_info_b s ! i of
               None \<Rightarrow> Inl Null_deref
             | Some b \<Rightarrow>
                 bindK (wakeup (Some (Chan_buf b)) (upd_buf b (\<lambda>x. x\<lparr>b_disk := 0\<rparr>) s)) (\<lambda>_ s.
                   intr_loop k (s\<lparr>v_seen_idx := v_seen_idx s + 1\<rparr>))
      else ret () s)"

definition virtio_disk_intr :: "(nat \<Rightarrow> u32) \<Rightarrow> 's vdisk_scheme \<Rightarrow> ('s vdisk_scheme, unit) kres" where
  "virtio_disk_intr reg s =
     bindK (acquire Vdisk_lock s) (\<lambda>_ s.
       let s = write_reg 0x064 (reg 0x060 AND 3) s in
     bindK (intr_loop (unat (v_used_idx s - v_seen_idx s)) s) (\<lambda>_ s.
       release Vdisk_lock s))"

end
