(* ===== verification/Kernel.thy ===== *)
theory Kernel
  imports Proc_Life Virtio
begin

text \<open>
  The top of the kernel: the system call table (\<^verbatim>\<open>kernel/syscall.c\<close>), traps (\<^verbatim>\<open>kernel/trap.c\<close>),
  the interrupt controller (\<^verbatim>\<open>kernel/plic.c\<close>), \<open>forkret\<close> and \<open>main\<close>. The supervisor registers and
  the addresses of the trap vectors are fields of the state; \<open>reg\<close> is what the registers of
  the virtio device read.
\<close>

section \<open>Definitions\<close>

text \<open>\<open>plic_irq\<close> is what the claim register reads, \<open>plic_regs\<close> the writes to the controller.\<close>

record kernel = vdisk +
  sstatus :: u64
  sepc :: u64
  scause :: u64
  stval :: u64
  stvec :: u64
  plic_irq :: u32
  plic_regs :: "(u64 \<times> u32) list"
  kernelvec :: u64
  uservec :: u64
  userret :: u64
  usertrap_addr :: u64
  forkret_first :: int

abbreviation (input) SSTATUS_SPP :: u64 where "SSTATUS_SPP \<equiv> 0x100"
abbreviation (input) SSTATUS_SPIE :: u64 where "SSTATUS_SPIE \<equiv> 0x20"
abbreviation (input) SSTATUS_SIE :: u64 where "SSTATUS_SIE \<equiv> 2"
abbreviation (input) PLIC :: u64 where "PLIC \<equiv> 0x0c000000"

subsection \<open>Interrupt controller\<close>

definition plic_write :: "u64 \<Rightarrow> u32 \<Rightarrow> 's kernel_scheme \<Rightarrow> 's kernel_scheme" where
  "plic_write a v s = s\<lparr>plic_regs := plic_regs s @ [(a, v)]\<rparr>"

definition plicinit :: "'s kernel_scheme \<Rightarrow> 's kernel_scheme" where
  "plicinit s = plic_write (PLIC + 1 * 4) 1 (plic_write (PLIC + 10 * 4) 1 s)"

definition plicinithart :: "'s kernel_scheme \<Rightarrow> 's kernel_scheme" where
  "plicinithart s =
     (let hart = of_nat (cpuid s);
          s = plic_write (PLIC + 0x2080 + hart * 0x100) (push_bit 10 1 OR push_bit 1 1) s
      in plic_write (PLIC + 0x201000 + hart * 0x2000) 0 s)"

definition plic_claim :: "'s kernel_scheme \<Rightarrow> int" where
  "plic_claim s = sint (plic_irq s)"

definition plic_complete :: "int \<Rightarrow> 's kernel_scheme \<Rightarrow> 's kernel_scheme" where
  "plic_complete irq s = plic_write (PLIC + 0x201004 + of_nat (cpuid s) * 0x2000) (word_of_int irq) s"

subsection \<open>System calls\<close>

text \<open>The table \<open>syscalls\<close>.\<close>

definition syscalls :: "int \<Rightarrow> ('s kernel_scheme \<Rightarrow> ('s kernel_scheme, u64) kres) option" where
  "syscalls num =
     (if num = 1 then Some sys_fork
      else if num = 2 then Some sys_exit
      else if num = 3 then Some sys_wait
      else if num = 4 then Some sys_pipe
      else if num = 5 then Some sys_read
      else if num = 6 then Some sys_kill
      else if num = 7 then Some sys_exec
      else if num = 8 then Some sys_fstat
      else if num = 9 then Some sys_chdir
      else if num = 10 then Some sys_dup
      else if num = 11 then Some sys_getpid
      else if num = 12 then Some (\<lambda>s. bindK (argint 0 s) (\<lambda>n s. bindK (argint 1 s) (\<lambda>t s. sys_sbrk n t s)))
      else if num = 13 then Some (\<lambda>s. bindK (argint 0 s) (\<lambda>n s. bindK (sys_pause n s) (\<lambda>r s. ret_int r s)))
      else if num = 14 then Some sys_uptime
      else if num = 15 then Some sys_open
      else if num = 16 then Some sys_write
      else if num = 17 then Some sys_mknod
      else if num = 18 then Some sys_unlink
      else if num = 19 then Some sys_link
      else if num = 20 then Some sys_mkdir
      else if num = 21 then Some sys_close
      else if num = 22 then Some sys_kps
      else if num = 23 then Some sys_getenergy
      else if num = 24 then Some (\<lambda>s. bindK (argint 0 s) (\<lambda>l s. bindK (sys_dlockacq l s) (\<lambda>r s. ret_int r s)))
      else if num = 25 then Some (\<lambda>s. bindK (argint 0 s) (\<lambda>l s. bindK (sys_dlockrel l s) (\<lambda>r s. ret_int r s)))
      else if num = 26 then Some (\<lambda>s. bindK (sys_check_deadlock s) (\<lambda>r s. ret_int r s))
      else None)"

definition syscall :: "'s kernel_scheme \<Rightarrow> ('s kernel_scheme, unit) kres" where
  "syscall s =
     with_proc s (\<lambda>p.
       let num = sint (ucast (tf_get p TF_a7 s) :: u32) in
       case syscalls num of
         Some f \<Rightarrow> bindK (f s) (\<lambda>r s. ret () (tf_set p TF_a0 r s))
       | None \<Rightarrow>
           bindK (printf (''%d %s: unknown sys call %d'' @ nl)
                   [vint (p_pid (proc_at s p)), VStr (Some (p_name (proc_at s p))), vint num] s) (\<lambda>_ s.
             ret () (tf_set p TF_a0 (- 1) s)))"

subsection \<open>Traps\<close>

definition trapinithart :: "'s kernel_scheme \<Rightarrow> 's kernel_scheme" where
  "trapinithart s = s\<lparr>stvec := kernelvec s\<rparr>"

definition prepare_return :: "'s kernel_scheme \<Rightarrow> ('s kernel_scheme, unit) kres" where
  "prepare_return s =
     with_proc s (\<lambda>p.
       let s = s\<lparr>sstatus := sstatus s AND NOT SSTATUS_SIE\<rparr>;
           s = s\<lparr>stvec := TRAMPOLINE + (uservec s - trampoline s)\<rparr>;
           s = tf_set p TF_kernel_satp (satp s) s;
           s = tf_set p TF_kernel_sp (p_kstack (proc_at s p) + PGSIZE) s;
           s = tf_set p TF_kernel_trap (usertrap_addr s) s;
           s = tf_set p TF_kernel_hartid (of_nat (hartid s)) s;
           x = sstatus s AND NOT SSTATUS_SPP OR SSTATUS_SPIE;
           s = s\<lparr>sstatus := x\<rparr>
       in ret () (s\<lparr>sepc := tf_get p TF_epc s\<rparr>))"

definition devintr :: "(nat \<Rightarrow> u32) \<Rightarrow> 's kernel_scheme \<Rightarrow> ('s kernel_scheme, int) kres" where
  "devintr reg s =
     (if scause s = 0x8000000000000009 then
        let irq = plic_claim s in
        bindK (if irq = 10 then uartintr s
               else if irq = 1 then virtio_disk_intr reg s
               else if irq \<noteq> 0 then printf (''unexpected interrupt irq=%d'' @ nl) [vint irq] s
               else ret () s) (\<lambda>_ s.
          ret 1 (if irq \<noteq> 0 then plic_complete irq s else s))
      else if scause s = 0x8000000000000005 then
        bindK (clockintr s) (\<lambda>_ s. ret 2 s)
      else ret 0 s)"

text \<open>What \<open>usertrap\<close> does before it looks at \<open>killed\<close> again: the device that interrupted.\<close>

definition usertrap_cause :: "(nat \<Rightarrow> u32) \<Rightarrow> nat \<Rightarrow> 's kernel_scheme \<Rightarrow> ('s kernel_scheme, int) kres" where
  "usertrap_cause reg p s =
     (if scause s = 8 then
        bindK (killed p s) (\<lambda>k s.
        bindK (if k \<noteq> 0 then kexit (- 1) s else ret () s) (\<lambda>_ s.
          let s = tf_set p TF_epc (tf_get p TF_epc s + 4) s;
              s = s\<lparr>sstatus := sstatus s OR SSTATUS_SIE\<rparr> in
        bindK (syscall s) (\<lambda>_ s. ret 0 s)))
      else
        bindK (devintr reg s) (\<lambda>which_dev s.
          if which_dev \<noteq> 0 then ret which_dev s
          else
            bindK (if scause s = 15 \<or> scause s = 13
                   then vmfault (p_pagetable (proc_at s p)) (stval s) s else ret 0 s) (\<lambda>r s.
              if r \<noteq> 0 then ret 0 s
              else
                bindK (printf (''usertrap(): unexpected scause 0x%lx pid=%d'' @ nl)
                        [VNum (scause s), vint (p_pid (proc_at s p))] s) (\<lambda>_ s.
                bindK (printf (''            sepc=0x%lx stval=0x%lx'' @ nl)
                        [VNum (sepc s), VNum (stval s)] s) (\<lambda>_ s.
                bindK (setkilled p s) (\<lambda>_ s. ret 0 s))))))"

text \<open>
  The whole handler. The timer branch ends with the switch in \<open>yield\<close>; \<open>usertrap_resume\<close> is
  what follows it.
\<close>

definition usertrap_end :: "nat \<Rightarrow> 's kernel_scheme \<Rightarrow> ('s kernel_scheme, u64) kres" where
  "usertrap_end p s =
     bindK (prepare_return s) (\<lambda>_ s. ret (MAKE_SATP (p_pagetable (proc_at s p))) s)"

definition usertrap :: "(nat \<Rightarrow> u32) \<Rightarrow> 's kernel_scheme \<Rightarrow> ('s kernel_scheme, u64) kres" where
  "usertrap reg s =
     (if sstatus s AND SSTATUS_SPP \<noteq> 0 then panic ''usertrap: not from user mode''
      else
        let s = s\<lparr>stvec := kernelvec s\<rparr> in
        with_proc s (\<lambda>p.
        bindK (usertrap_cause reg p (tf_set p TF_epc (sepc s) s)) (\<lambda>which_dev s.
        bindK (killed p s) (\<lambda>k s.
        bindK (if k \<noteq> 0 then kexit (- 1) s else ret () s) (\<lambda>_ s.
        bindK (if which_dev = 2 then usertrap_timer p s else ret () s) (\<lambda>_ s.
          usertrap_end p s))))))"

definition usertrap_resume :: "nat \<Rightarrow> 's kernel_scheme \<Rightarrow> ('s kernel_scheme, u64) kres" where
  "usertrap_resume p s = bindK (yield_return p s) (\<lambda>_ s. usertrap_end p s)"

text \<open>
  \<open>kerneltrap\<close>; interrupts are enabled when the bit \<open>SIE\<close> is set. After \<open>yield\<close> the saved
  registers are restored by \<open>kerneltrap_resume\<close>.
\<close>

definition kerneltrap :: "(nat \<Rightarrow> u32) \<Rightarrow> 's kernel_scheme \<Rightarrow> ('s kernel_scheme, unit) kres" where
  "kerneltrap reg s =
     (let sepc0 = sepc s; sstatus0 = sstatus s; scause0 = scause s in
      if sstatus0 AND SSTATUS_SPP = 0 then panic ''kerneltrap: not from supervisor mode''
      else if sstatus s AND SSTATUS_SIE \<noteq> 0 then panic ''kerneltrap: interrupts enabled''
      else
        bindK (devintr reg s) (\<lambda>which_dev s.
          if which_dev = 0
          then bindK (printf (''scause=0x%lx sepc=0x%lx stval=0x%lx'' @ nl)
                       [VNum scause0, VNum (sepc s), VNum (stval s)] s) (\<lambda>_ _. panic ''kerneltrap'')
          else
            bindK (if which_dev = 2 then kerneltrap_timer s else ret () s) (\<lambda>_ s.
              ret () (s\<lparr>sepc := sepc0, sstatus := sstatus0\<rparr>))))"

definition kerneltrap_resume ::
  "nat \<Rightarrow> u64 \<Rightarrow> u64 \<Rightarrow> 's kernel_scheme \<Rightarrow> ('s kernel_scheme, unit) kres" where
  "kerneltrap_resume p sepc0 sstatus0 s =
     bindK (yield_return p s) (\<lambda>_ s. ret () (s\<lparr>sepc := sepc0, sstatus := sstatus0\<rparr>))"

subsection \<open>The first process and boot\<close>

text \<open>\<open>forkret\<close> up to the jump into the trampoline; the result is the argument of the jump.\<close>

definition forkret :: "'s kernel_scheme \<Rightarrow> ('s kernel_scheme, u64 \<times> u64) kres" where
  "forkret s =
     with_proc s (\<lambda>p.
     bindK (release (Proc_lock p) s) (\<lambda>_ s.
     bindK (if forkret_first s \<noteq> 0
            then bindK (fsinit 1 s) (\<lambda>_ s.
                 bindK (kexec (bytes ''/init'') [bytes ''/init''] (s\<lparr>forkret_first := 0\<rparr>)) (\<lambda>r s.
                   let s = tf_set p TF_a0 (word_of_int r) s
                   in if r = - 1 then panic ''exec'' else ret () s))
            else ret () s) (\<lambda>_ s.
     bindK (prepare_return s) (\<lambda>_ s.
       ret (TRAMPOLINE + (userret s - trampoline s), MAKE_SATP (p_pagetable (proc_at s p))) s))))"

text \<open>
  \<open>main\<close> on hart 0, up to the call of \<open>scheduler\<close>. \<open>kinit\<close> is defined with fuel, and \<open>None\<close>
  is running out of it.
\<close>

definition main_hart0 :: "(nat \<Rightarrow> u32) \<Rightarrow> 's kernel_scheme \<Rightarrow> ('s kernel_scheme, unit) kres" where
  "main_hart0 reg s =
     bindK (printf nl [] (consoleinit s)) (\<lambda>_ s.
     bindK (printf (''xv6 kernel is booting'' @ nl) [] s) (\<lambda>_ s.
     bindK (printf nl [] s) (\<lambda>_ s.
     bindK (case kinit s of None \<Rightarrow> Inl Undefined | Some r \<Rightarrow> r) (\<lambda>_ s.
     bindK (kvminit s) (\<lambda>_ s.
       let s = iinit (binit (plicinithart (plicinit (trapinithart (procinit (kvminithart s)))))) in
     bindK (virtio_disk_init reg s) (\<lambda>_ s.
       userinit s))))))"

definition main_other :: "'s kernel_scheme \<Rightarrow> ('s kernel_scheme, unit) kres" where
  "main_other s =
     bindK (printf (''hart %d starting'' @ nl) [vint (int (cpuid s))] s) (\<lambda>_ s.
       ret () (plicinithart (trapinithart (kvminithart s))))"

end
