(* ===== verification/Buffer_List.thy ===== *)
theory Buffer_List
  imports Bio
begin

text \<open>
  The doubly linked list of the buffer cache refines a list of buffers, the most recently
  used first: \<open>lru bs xs\<close> says that the \<open>next\<close> and \<open>prev\<close> indices of the buffers \<open>bs\<close> run
  through \<open>xs\<close> and back to the head. The pointer operations of \<^verbatim>\<open>kernel/bio.c\<close> are the
  corresponding list operations.
\<close>

section \<open>The links\<close>

fun links :: "buf list \<Rightarrow> nat list \<Rightarrow> bool" where
  "links bs (a # b # ys) \<longleftrightarrow> b_next (bs ! a) = b \<and> b_prev (bs ! b) = a \<and> links bs (b # ys)"
| "links bs _ \<longleftrightarrow> True"

definition lru :: "buf list \<Rightarrow> nat list \<Rightarrow> bool" where
  "lru bs xs \<longleftrightarrow> length bs = Suc NBUF \<and> distinct xs \<and> set xs \<subseteq> {..<NBUF} \<and> links bs (head # xs @ [head])"

text \<open>Each link as a fact about the list before and after it.\<close>

lemma links_append: "links bs (xs @ a # b # ys) \<longleftrightarrow>
    links bs (xs @ [a]) \<and> b_next (bs ! a) = b \<and> b_prev (bs ! b) = a \<and> links bs (b # ys)"
proof (induction xs)
  case (Cons x xs)
  then show ?case by (cases xs) auto
qed simp

lemma links_snoc: "links bs (xs @ [a, b]) \<longleftrightarrow> links bs (xs @ [a]) \<and> b_next (bs ! a) = b \<and> b_prev (bs ! b) = a"
  using links_append [of bs xs a b "[]"] by simp

text \<open>The links depend only on the \<open>next\<close> fields of all but the last and the \<open>prev\<close> fields of all but the first.\<close>

lemma links_cong:
  assumes "\<And>a. a \<in> set (butlast xs) \<Longrightarrow> b_next (bs ! a) = b_next (cs ! a)"
    and "\<And>a. a \<in> set (tl xs) \<Longrightarrow> b_prev (bs ! a) = b_prev (cs ! a)"
  shows "links bs xs = links cs xs"
  using assms
proof (induction bs xs rule: links.induct)
  case (1 bs a b ys)
  have "links bs (b # ys) = links cs (b # ys)"
    by (rule "1.IH") (use "1.prems" in \<open>auto dest: list.set_sel(2)\<close>)
  then show ?case using "1.prems" by auto
qed auto

lemma lru_cong:
  assumes "\<And>a. a \<le> NBUF \<Longrightarrow> b_next (bs ! a) = b_next (cs ! a) \<and> b_prev (bs ! a) = b_prev (cs ! a)"
    and "length bs = length cs"
  shows "lru bs xs = lru cs xs"
proof (cases "set xs \<subseteq> {..<NBUF}")
  case True
  have le: "a \<le> NBUF" if "a \<in> set (head # xs @ [head])" for a
    using that True by (auto dest: subsetD)
  have "links bs (head # xs @ [head]) = links cs (head # xs @ [head])"
  proof (rule links_cong)
    fix a assume "a \<in> set (butlast (head # xs @ [head]))"
    from in_set_butlastD [OF this] show "b_next (bs ! a) = b_next (cs ! a)"
      using assms(1) [OF le] by blast
  next
    fix a assume "a \<in> set (tl (head # xs @ [head]))"
    then have "a \<in> set (head # xs @ [head])" by (auto)
    then show "b_prev (bs ! a) = b_prev (cs ! a)" using assms(1) [OF le] by blast
  qed
  then show ?thesis using assms(2) by (simp add: lru_def)
qed (simp add: lru_def)

section \<open>Searching\<close>

lemma scan_cached_find:
  assumes "links bs (a # ys @ [head])" "head \<notin> set ys" "length ys < fuel"
  shows "scan_cached fuel (b_next (bs ! a)) dev bn bs =
           find (\<lambda>b. b_dev (bs ! b) = dev \<and> b_blockno (bs ! b) = bn) ys"
  using assms
proof (induction ys arbitrary: a fuel)
  case Nil
  then show ?case by (cases fuel) auto
next
  case (Cons y ys)
  then show ?case by (cases fuel) auto
qed

lemma scan_unused_find:
  assumes "links bs (head # ys @ [a])" "head \<notin> set ys" "length ys < fuel"
  shows "scan_unused fuel (b_prev (bs ! a)) bs = find (\<lambda>b. b_refcnt (bs ! b) = 0) (rev ys)"
  using assms
proof (induction ys arbitrary: a fuel rule: rev_induct)
  case Nil
  then show ?case by (cases fuel) auto
next
  case (snoc y ys)
  have "links bs ((head # ys) @ [y, a])" using snoc.prems(1) by simp
  then have l: "links bs (head # ys @ [y])" "b_prev (bs ! a) = y"
    unfolding links_snoc by simp_all
  obtain f where f: "fuel = Suc f" using snoc.prems(3) by (cases fuel) auto
  show ?case
    using snoc.prems(2,3) l(2) f snoc.IH [OF l(1), of f] by auto
qed

lemma lru_find:
  assumes "lru bs xs" "length xs \<le> NBUF"
  shows "scan_cached (Suc NBUF) (b_next (bs ! head)) dev bn bs =
           find (\<lambda>b. b_dev (bs ! b) = dev \<and> b_blockno (bs ! b) = bn) xs"
    "scan_unused (Suc NBUF) (b_prev (bs ! head)) bs = find (\<lambda>b. b_refcnt (bs ! b) = 0) (rev xs)"
proof -
  have h: "head \<notin> set xs" "links bs (head # xs @ [head])" using assms(1) by (auto simp: lru_def)
  show "scan_cached (Suc NBUF) (b_next (bs ! head)) dev bn bs =
      find (\<lambda>b. b_dev (bs ! b) = dev \<and> b_blockno (bs ! b) = bn) xs"
    by (rule scan_cached_find [OF h(2,1)]) (use assms(2) in simp)
  show "scan_unused (Suc NBUF) (b_prev (bs ! head)) bs = find (\<lambda>b. b_refcnt (bs ! b) = 0) (rev xs)"
    by (rule scan_unused_find [OF h(2,1)]) (use assms(2) in simp)
qed

section \<open>Moving a buffer\<close>

lemma link_front_simps:
  assumes "lru bs xs" "b < NBUF" "b \<notin> set xs"
  shows "length (link_front b bs) = Suc NBUF"
    "a \<le> NBUF \<Longrightarrow> b_next (link_front b bs ! a) =
       (if a = head then b else if a = b then b_next (bs ! head) else b_next (bs ! a))"
    "a \<le> NBUF \<Longrightarrow> b_prev (link_front b bs ! a) =
       (if a = b_next (bs ! head) then b else if a = b then head else b_prev (bs ! a))"
proof -
  have len: "length bs = Suc NBUF" using assms(1) by (simp add: lru_def)
  have n: "b_next (bs ! head) < Suc NBUF" "b_next (bs ! head) \<noteq> b"
    using assms by (cases xs; auto simp: lru_def)+
  show "length (link_front b bs) = Suc NBUF" using len by (simp add: link_front_def Let_def)
  show "b_next (link_front b bs ! a) =
       (if a = head then b else if a = b then b_next (bs ! head) else b_next (bs ! a))" if "a \<le> NBUF"
    using len n that assms(2) by (auto simp: link_front_def Let_def nth_list_update)
  show "b_prev (link_front b bs ! a) =
       (if a = b_next (bs ! head) then b else if a = b then head else b_prev (bs ! a))" if "a \<le> NBUF"
    using len n that assms(2) by (auto simp: link_front_def Let_def nth_list_update)
qed

lemma link_front_lru:
  assumes "lru bs xs" "b < NBUF" "b \<notin> set xs"
  shows "lru (link_front b bs) (b # xs)"
proof -
  note lf = link_front_simps [OF assms]
  have xs: "distinct xs" "set xs \<subseteq> {..<NBUF}" "links bs (head # xs @ [head])"
    using assms(1) by (simp_all add: lru_def)
  obtain n ys where ny: "xs @ [head] = n # ys" by (cases xs) auto
  have n: "b_next (bs ! head) = n" "n \<le> NBUF" using xs ny by (cases xs; auto)+
  have le: "a \<le> NBUF" if "a \<in> set (xs @ [head])" for a using that xs(2) by auto
  have bn: "b \<notin> set (n # ys)" using assms(2,3) ny [symmetric] by auto
  have dist: "distinct (n # ys)" using xs(1,2) ny [symmetric] by (auto dest: subsetD)
  have hd_last: "head \<notin> set (butlast (n # ys))" using xs(2) ny [symmetric] by (auto dest: subsetD)
  have "links (link_front b bs) (n # ys) = links bs (n # ys)"
  proof (rule links_cong)
    fix a assume a: "a \<in> set (butlast (n # ys))"
    then have "a \<in> set (n # ys)" by (rule in_set_butlastD)
    then show "b_next (link_front b bs ! a) = b_next (bs ! a)"
      using lf(2) [of a] le bn hd_last a ny by auto
  next
    fix a assume a: "a \<in> set (tl (n # ys))"
    then have "a \<in> set (xs @ [head])" "a \<noteq> n" "a \<noteq> b" using ny dist bn by auto
    then show "b_prev (link_front b bs ! a) = b_prev (bs ! a)"
      using lf(3) [of a] le n by auto
  qed
  moreover have "links bs (n # ys)" using xs(3) ny by (cases "xs @ [head]") auto
  ultimately have "links (link_front b bs) (head # b # n # ys)"
    using lf(2) [of head] lf(2) [of b] lf(3) [of b] lf(3) [of n] n assms(2) bn by auto
  then show ?thesis using lf(1) xs(1,2) assms(2,3) ny by (simp add: lru_def)
qed

lemma unlink_simps:
  assumes "lru bs (xs @ b # ys)"
  shows "length (unlink b bs) = Suc NBUF"
    "a \<le> NBUF \<Longrightarrow> b_next (unlink b bs ! a) =
       (if a = b_prev (bs ! b) then b_next (bs ! b) else b_next (bs ! a))"
    "a \<le> NBUF \<Longrightarrow> b_prev (unlink b bs ! a) =
       (if a = b_next (bs ! b) then b_prev (bs ! b) else b_prev (bs ! a))"
proof -
  have len: "length bs = Suc NBUF" using assms by (simp add: lru_def)
  have l: "links bs ((head # xs) @ b # (ys @ [head]))" using assms by (simp add: lru_def)
  have sub: "set (xs @ b # ys) \<subseteq> {..<NBUF}" "distinct (xs @ b # ys)" using assms by (auto simp: lru_def)
  have "links bs ((head # xs) @ b # hd (ys @ [head]) # tl (ys @ [head]))"
    using l by (cases ys) simp_all
  then have nx: "b_next (bs ! b) = hd (ys @ [head])" unfolding links_append by blast
  have pv: "b_prev (bs ! b) = last (head # xs)"
  proof (cases xs rule: rev_cases)
    case Nil
    then show ?thesis using l by auto
  next
    case (snoc zs z)
    then have "links bs ((head # zs) @ z # b # (ys @ [head]))" using l by simp
    then have "b_prev (bs ! b) = z" unfolding links_append by blast
    then show ?thesis using snoc by simp
  qed
  note nx_pv = nx pv
  have nb: "b_next (bs ! b) \<noteq> b" "b_next (bs ! b) \<le> NBUF" "b_prev (bs ! b) \<noteq> b" "b_prev (bs ! b) \<le> NBUF"
    using nx pv sub by (cases ys; auto; cases xs rule: rev_cases; auto)+
  show "length (unlink b bs) = Suc NBUF" using len by (simp add: unlink_def Let_def)
  show "b_next (unlink b bs ! a) =
       (if a = b_prev (bs ! b) then b_next (bs ! b) else b_next (bs ! a))" if "a \<le> NBUF"
    using len nb that by (auto simp: unlink_def Let_def nth_list_update)
  show "b_prev (unlink b bs ! a) =
       (if a = b_next (bs ! b) then b_prev (bs ! b) else b_prev (bs ! a))" if "a \<le> NBUF"
    using len nb that by (auto simp: unlink_def Let_def nth_list_update)
qed

lemma lru_neighbours:
  assumes "lru bs (xs @ b # ys)"
  shows "b_next (bs ! b) = hd (ys @ [head])" "b_prev (bs ! b) = last (head # xs)"
    "links bs (head # xs)" "links bs (ys @ [head])"
proof -
  have l: "links bs ((head # xs) @ b # (ys @ [head]))" using assms by (simp add: lru_def)
  have "links bs ((head # xs) @ b # hd (ys @ [head]) # tl (ys @ [head]))"
    using l by (cases ys) simp_all
  then have a: "links bs ((head # xs) @ [b])" "b_next (bs ! b) = hd (ys @ [head])"
    "links bs (hd (ys @ [head]) # tl (ys @ [head]))"
    unfolding links_append by blast+
  show "b_next (bs ! b) = hd (ys @ [head])" by (rule a(2))
  show "links bs (ys @ [head])" using a(3) by (cases ys) simp_all
  obtain zs z where z: "head # xs = zs @ [z]" by (metis append_butlast_last_id list.distinct(1))
  then have "links bs (zs @ [z, b])" using a(1) by simp
  then show "b_prev (bs ! b) = last (head # xs)" "links bs (head # xs)"
    using z unfolding links_snoc by simp_all
qed

lemma unlink_lru:
  assumes "lru bs (xs @ b # ys)"
  shows "lru (unlink b bs) (xs @ ys)"
proof -
  note ul = unlink_simps [OF assms] and nb = lru_neighbours [OF assms]
  have sub: "set (xs @ b # ys) \<subseteq> {..<NBUF}" and dist: "distinct (xs @ b # ys)"
    using assms by (auto simp: lru_def)
  have dh: "distinct (head # xs @ ys)" using sub dist by auto
  obtain zs z where z: "head # xs = zs @ [z]" by (metis append_butlast_last_id list.distinct(1))
  obtain n ns where n: "ys @ [head] = n # ns" by (cases ys) auto
  have nz: "b_next (bs ! b) = n" "b_prev (bs ! b) = z" using nb(1,2) z n by simp_all
  have le: "a \<le> NBUF" if "a \<in> set (head # xs) \<or> a \<in> set (ys @ [head])" for a
    using that sub by auto
  have "links (unlink b bs) (zs @ [z]) = links bs (zs @ [z])"
  proof (rule links_cong)
    fix a assume "a \<in> set (butlast (zs @ [z]))"
    then have "a \<noteq> z" "a \<in> set (head # xs)" using dh z by (cases zs; auto)+
    then show "b_next (unlink b bs ! a) = b_next (bs ! a)" using ul(2) [of a] le nz by simp
  next
    fix a assume "a \<in> set (tl (zs @ [z]))"
    then have a: "a \<in> set xs" using arg_cong [OF z, of tl] by simp
    then have "a \<noteq> n" using dh n by (cases ys) auto
    then show "b_prev (unlink b bs ! a) = b_prev (bs ! a)" using ul(3) [of a] le nz a by simp
  qed
  moreover have "links (unlink b bs) (n # ns) = links bs (n # ns)"
  proof (rule links_cong)
    fix a assume "a \<in> set (butlast (n # ns))"
    then have a: "a \<in> set ys" using arg_cong [OF n, of butlast] by simp
    then have "a \<noteq> z" using dh z by (cases xs rule: rev_cases) auto
    then show "b_next (unlink b bs ! a) = b_next (bs ! a)" using ul(2) [of a] le nz a by simp
  next
    fix a assume "a \<in> set (tl (n # ns))"
    then have a: "a \<in> set ns" by simp
    have "distinct (ys @ [head])" using dh by auto
    then have "a \<noteq> n" "a \<in> set (ys @ [head])" using a n by auto
    then show "b_prev (unlink b bs ! a) = b_prev (bs ! a)" using ul(3) [of a] le nz by simp
  qed
  moreover have "b_next (unlink b bs ! z) = n" "b_prev (unlink b bs ! n) = z"
    using ul(2) [of z] ul(3) [of n] nz le z n by auto
  ultimately have "links (unlink b bs) (zs @ z # n # ns)"
    using nb(3,4) z n by (simp add: links_append)
  then have "links (unlink b bs) (head # (xs @ ys) @ [head])"
    using z n by (metis append.assoc append_Cons append_Nil)
  then show ?thesis using ul(1) sub dist by (simp add: lru_def)
qed

lemma move_front_lru:
  assumes "lru bs xs" "b \<in> set xs"
  shows "lru (link_front b (unlink b bs)) (b # remove1 b xs)"
proof -
  obtain us vs where u: "xs = us @ b # vs" "b \<notin> set us" using assms(2) by (meson split_list_first)
  have r: "remove1 b xs = us @ vs" using u by (simp add: remove1_append)
  have "distinct xs" "set xs \<subseteq> {..<NBUF}" using assms(1) by (auto simp: lru_def)
  then have "b \<notin> set (us @ vs)" "b < NBUF" using u by auto
  then show ?thesis
    unfolding r using unlink_lru [OF assms(1) [unfolded u(1)]] by (intro link_front_lru)
qed

text \<open>Neither operation touches any other field.\<close>

definition core :: "buf \<Rightarrow> buf" where
  "core x = x\<lparr>b_prev := 0, b_next := 0\<rparr>"

lemma core_upd: "core y = core (bs ! k) \<Longrightarrow> map core (bs[k := y]) = map core bs"
  by (cases "k < length bs") (auto simp: map_update list_update_same_conv list_update_beyond)

lemma core_links [simp]: "core (x\<lparr>b_prev := p\<rparr>) = core x" "core (x\<lparr>b_next := n\<rparr>) = core x"
  by (simp_all add: core_def)

lemma link_front_core: "map core (link_front b bs) = map core bs"
  by (cases "b < length bs") (simp_all add: link_front_def Let_def core_upd list_update_beyond)

lemma unlink_core: "map core (unlink b bs) = map core bs"
  by (simp add: unlink_def Let_def core_upd)

lemma core_nth:
  assumes "map core cs = map core bs" "a < length bs"
  shows "b_valid (cs ! a) = b_valid (bs ! a)" "b_dev (cs ! a) = b_dev (bs ! a)"
    "b_blockno (cs ! a) = b_blockno (bs ! a)" "b_refcnt (cs ! a) = b_refcnt (bs ! a)"
    "b_data (cs ! a) = b_data (bs ! a)"
proof -
  have "length cs = length bs" using assms(1) by (metis length_map)
  then have "core (cs ! a) = core (bs ! a)" using assms by (metis nth_map)
  then show "b_valid (cs ! a) = b_valid (bs ! a)" "b_dev (cs ! a) = b_dev (bs ! a)"
    "b_blockno (cs ! a) = b_blockno (bs ! a)" "b_refcnt (cs ! a) = b_refcnt (bs ! a)"
    "b_data (cs ! a) = b_data (bs ! a)"
    unfolding core_def by (cases "cs ! a"; cases "bs ! a"; simp)+
qed

text \<open>\<open>binit\<close> links all buffers, the last one first.\<close>

lemma binit_loop:
  assumes "lru (bufs s) []" "k \<le> NBUF"
  shows "lru (bufs (fold (\<lambda>b s. initsleeplock (Buf_lock b) nm (s\<lparr>bufs := link_front b (bufs s)\<rparr>)) [0..<k] s))
           (rev [0..<k])"
  using assms(2)
proof (induction k)
  case (Suc k)
  then show ?case by (auto simp: initsleeplock_def upd_sl_def intro!: link_front_lru)
qed (simp add: assms(1))

lemma binit_lru:
  assumes "length (bufs s) = Suc NBUF"
  shows "lru (bufs (binit s)) (rev [0..<NBUF])"
proof -
  have "lru (bufs (upd_buf head (\<lambda>x. x\<lparr>b_prev := head, b_next := head\<rparr>) s)) []"
    using assms by (simp add: lru_def upd_buf_def)
  then show ?thesis unfolding binit_def Let_def by (rule binit_loop) simp
qed

end
