(* ===== verification/Buffer_Cache.thy ===== *)
theory Buffer_Cache
  imports Buffer_List Log
begin

text \<open>
  What the buffer cache promises to the file system. \<open>cache d s D R H\<close> says that the cache in
  \<open>s\<close> represents the blocks \<open>D\<close> of device \<open>d\<close> with reference counts \<open>R\<close>, and that the running
  process has locked the buffers \<open>H\<close>. A referenced block may differ from the disk, an
  unreferenced one may not. The operations of \<^verbatim>\<open>kernel/bio.c\<close> transform \<open>D\<close>, \<open>R\<close>, \<open>H\<close> and the
  disk in the expected way; in particular \<open>bread\<close> always delivers the contents of the block
  and fails only if every buffer is in use.
\<close>

section \<open>Sleep locks of a thread that runs undisturbed\<close>

definition same_pids :: "proc list \<Rightarrow> proc list \<Rightarrow> bool" where
  "same_pids ps qs \<longleftrightarrow> length qs = length ps \<and> (\<forall>i < length ps. p_pid (qs ! i) = p_pid (ps ! i))"

lemma same_pids_refl [simp]: "same_pids ps ps"
  by (simp add: same_pids_def)

lemma same_pids_trans: "same_pids ps qs \<Longrightarrow> same_pids qs rs \<Longrightarrow> same_pids ps rs"
  by (simp add: same_pids_def)

definition runs :: "nat \<Rightarrow> 's ptable_scheme \<Rightarrow> bool" where
  "runs p s \<longleftrightarrow> curproc s = Some p \<and> p < NPROC \<and> length (procs s) = NPROC \<and> held s = []"

lemma acquiresleep_quiet:
  assumes "runs p s" "sl_locked (sleeplocks s lk) = 0"
  shows "\<exists>ps. acquiresleep lk s = ret () (s\<lparr>procs := ps, sleeplocks := (sleeplocks s)
      (lk := (sleeplocks s lk)\<lparr>sl_locked := 1, sl_pid := p_pid (proc_at s p)\<rparr>)\<rparr>) \<and> same_pids (procs s) ps"
proof -
  have r: "held s = []" "curproc s = Some p" "p < NPROC" "length (procs s) = NPROC"
    using assms(1) by (simp_all add: runs_def)
  let ?ps = "(procs s)[p := proc_at s p\<lparr>p_waiting_for_lock := None\<rparr>]"
  have "acquiresleep lk s = ret () (s\<lparr>procs := ?ps, sleeplocks := (sleeplocks s)
      (lk := (sleeplocks s lk)\<lparr>sl_locked := 1, sl_pid := p_pid (proc_at s p)\<rparr>)\<rparr>)"
    using r assms(2) by (cases s)
      (simp add: acquiresleep_enter acquiresleep_loop_free upd_sl_def upd_proc_def)
  moreover have "same_pids (procs s) ?ps"
    using r by (auto simp: same_pids_def nth_list_update)
  ultimately show ?thesis by blast
qed

lemma releasesleep_quiet:
  assumes "runs p s"
  shows "\<exists>ps. releasesleep lk s = ret () (s\<lparr>procs := ps, sleeplocks := (sleeplocks s)
      (lk := (sleeplocks s lk)\<lparr>sl_locked := 0, sl_pid := 0\<rparr>)\<rparr>) \<and> same_pids (procs s) ps"
proof -
  have r: "held s = []" "length (procs s) = NPROC" using assms by (simp_all add: runs_def)
  let ?ps = "map (\<lambda>i. (if curproc s = Some i then (\<lambda>q. q) else wake (Some (Chan_sleeplock lk))) (proc_at s i))
    [0..<length (procs s)]"
  have "releasesleep lk s = ret () (s\<lparr>procs := ?ps, sleeplocks := (sleeplocks s)
      (lk := (sleeplocks s lk)\<lparr>sl_locked := 0, sl_pid := 0\<rparr>)\<rparr>)"
    unfolding releasesleep_eq [OF r] upd_all_def upd_sl_def by (cases s) simp
  moreover have "same_pids (procs s) ?ps" by (simp add: same_pids_def wake_def)
  ultimately show ?thesis by blast
qed

lemma holdingsleep_quiet:
  assumes "runs p s"
  shows "holdingsleep lk s =
    ret (sl_locked (sleeplocks s lk) \<noteq> 0 \<and> sl_pid (sleeplocks s lk) = p_pid (proc_at s p)) s"
  using assms by (cases s) (auto simp: holdingsleep_def runs_def kres_simps myproc_def Let_def)

lemma runs_upd [simp]:
  "runs p (s\<lparr>sleeplocks := f\<rparr>) = runs p s" "runs p (s\<lparr>bufs := bs\<rparr>) = runs p s"
  "runs p (s\<lparr>disk := dk\<rparr>) = runs p s" "runs p (s\<lparr>disk_writes := w\<rparr>) = runs p s"
  by (simp_all add: runs_def)

lemma runs_procs: "runs p s \<Longrightarrow> same_pids (procs s) ps \<Longrightarrow> runs p (s\<lparr>procs := ps\<rparr>)"
  by (simp add: runs_def same_pids_def)

section \<open>The blocks that a cache represents\<close>

definition cached ::
  "u32 \<Rightarrow> buf list \<Rightarrow> disk \<Rightarrow> (u32 \<Rightarrow> byte list) \<Rightarrow> (u32 \<Rightarrow> nat) \<Rightarrow> bool" where
  "cached d bs dk D R \<longleftrightarrow>
     (\<forall>b < NBUF. b_dev (bs ! b) = d \<longrightarrow> R (b_blockno (bs ! b)) = unat (b_refcnt (bs ! b))) \<and>
     (\<forall>b < NBUF. b_dev (bs ! b) \<noteq> d \<longrightarrow> b_refcnt (bs ! b) = 0) \<and>
     (\<forall>bn. 0 < R bn \<longrightarrow> (\<exists>b < NBUF. b_dev (bs ! b) = d \<and> b_blockno (bs ! b) = bn)) \<and>
     (\<forall>b < NBUF. \<forall>c < NBUF. b_dev (bs ! b) = d \<and> b_dev (bs ! c) = d \<and>
        b_blockno (bs ! b) = b_blockno (bs ! c) \<longrightarrow> b = c) \<and>
     (\<forall>b < NBUF. b_dev (bs ! b) = d \<and> b_valid (bs ! b) \<noteq> 0 \<longrightarrow> b_data (bs ! b) = D (b_blockno (bs ! b))) \<and>
     (\<forall>b < NBUF. b_dev (bs ! b) = d \<and> b_refcnt (bs ! b) = 0 \<longrightarrow>
        D (b_blockno (bs ! b)) = dk (b_blockno (bs ! b))) \<and>
     (\<forall>bn. (\<forall>b < NBUF. b_dev (bs ! b) = d \<and> b_blockno (bs ! b) = bn \<longrightarrow> b_valid (bs ! b) = 0) \<longrightarrow>
        D bn = dk bn) \<and>
     (\<forall>bn. length (D bn) = BSIZE)"

text \<open>Each clause by name.\<close>

lemma cachedD:
  assumes "cached d bs dk D R"
  shows "b < NBUF \<Longrightarrow> b_dev (bs ! b) = d \<Longrightarrow> R (b_blockno (bs ! b)) = unat (b_refcnt (bs ! b))"
    "b < NBUF \<Longrightarrow> b_dev (bs ! b) \<noteq> d \<Longrightarrow> b_refcnt (bs ! b) = 0"
    "0 < R bn \<Longrightarrow> \<exists>b < NBUF. b_dev (bs ! b) = d \<and> b_blockno (bs ! b) = bn"
    "b < NBUF \<Longrightarrow> c < NBUF \<Longrightarrow> b_dev (bs ! b) = d \<Longrightarrow> b_dev (bs ! c) = d \<Longrightarrow>
       b_blockno (bs ! b) = b_blockno (bs ! c) \<Longrightarrow> b = c"
    "b < NBUF \<Longrightarrow> b_dev (bs ! b) = d \<Longrightarrow> b_valid (bs ! b) \<noteq> 0 \<Longrightarrow> b_data (bs ! b) = D (b_blockno (bs ! b))"
    "b < NBUF \<Longrightarrow> b_dev (bs ! b) = d \<Longrightarrow> b_refcnt (bs ! b) = 0 \<Longrightarrow> D (b_blockno (bs ! b)) = dk (b_blockno (bs ! b))"
    "(\<And>b. b < NBUF \<Longrightarrow> b_dev (bs ! b) = d \<Longrightarrow> b_blockno (bs ! b) = bn \<Longrightarrow> b_valid (bs ! b) = 0) \<Longrightarrow> D bn = dk bn"
    "length (D bn) = BSIZE"
  using assms unfolding cached_def by blast+

text \<open>
  Replacing buffer \<open>b\<close> by one that holds the contents \<open>v\<close> of block \<open>bn\<close>, the disk changing at
  most in that block.
\<close>

lemma cached_upd:
  assumes c: "cached d bs dk D R" and b: "b < NBUF" "length bs = Suc NBUF"
    and x: "b_dev x = d" "b_blockno x = bn" "b_valid x \<noteq> 0" "b_data x = v" "length v = BSIZE"
    and uniq: "\<And>c. c < NBUF \<Longrightarrow> c \<noteq> b \<Longrightarrow> b_dev (bs ! c) = d \<Longrightarrow> b_blockno (bs ! c) \<noteq> bn"
    and old: "b_dev (bs ! b) = d \<Longrightarrow> b_blockno (bs ! b) \<noteq> bn \<Longrightarrow> b_refcnt (bs ! b) = 0"
    and clean: "b_refcnt x = 0 \<Longrightarrow> v = dk' bn"
    and dk: "\<And>n. n \<noteq> bn \<Longrightarrow> dk' n = dk n"
  shows "cached d (bs[b := x]) dk' (D(bn := v)) (R(bn := unat (b_refcnt x)))"
proof -
  have nth: "bs[b := x] ! c = (if c = b then x else bs ! c)" if "c < NBUF" for c
    using b that by (simp add: nth_list_update)
  have R: "0 < R n \<Longrightarrow> n \<noteq> bn \<Longrightarrow> \<exists>c < NBUF. c \<noteq> b \<and> b_dev (bs ! c) = d \<and> b_blockno (bs ! c) = n" for n
  proof -
    assume n: "0 < R n" "n \<noteq> bn"
    obtain c where cc: "c < NBUF" "b_dev (bs ! c) = d" "b_blockno (bs ! c) = n"
      using cachedD(3) [OF c n(1)] by blast
    have "c \<noteq> b"
    proof
      assume e: "c = b"
      then have "b_refcnt (bs ! b) = 0" using old cc n(2) by simp
      then show False using cachedD(1) [OF c cc(1,2)] cc n(1) e by simp
    qed
    then show ?thesis using cc by blast
  qed
  have D: "D n = dk n"
    if n: "n \<noteq> bn" and nv: "\<And>c. c < NBUF \<Longrightarrow> c \<noteq> b \<Longrightarrow> b_dev (bs ! c) = d \<Longrightarrow> b_blockno (bs ! c) = n \<Longrightarrow>
      b_valid (bs ! c) = 0" for n
  proof (cases "b_dev (bs ! b) = d \<and> b_blockno (bs ! b) = n")
    case True
    then have "b_refcnt (bs ! b) = 0" using old n by simp
    then show ?thesis using cachedD(6) [OF c b(1)] True by simp
  next
    case False
    then show ?thesis using nv cachedD(7) [OF c] by metis
  qed
  show ?thesis
    unfolding cached_def
  proof (intro conjI allI impI)
    fix n assume "\<forall>c < NBUF. b_dev (bs[b := x] ! c) = d \<and> b_blockno (bs[b := x] ! c) = n \<longrightarrow>
        b_valid (bs[b := x] ! c) = 0"
    then have nv: "\<And>c. c < NBUF \<Longrightarrow> b_dev (bs[b := x] ! c) = d \<Longrightarrow> b_blockno (bs[b := x] ! c) = n \<Longrightarrow>
        b_valid (bs[b := x] ! c) = 0" by blast
    have "n \<noteq> bn" using nv [OF b(1)] nth [OF b(1)] x by auto
    then show "(D(bn := v)) n = dk' n" using D [of n] nv nth dk by fastforce
  next
    fix n assume "0 < (R(bn := unat (b_refcnt x))) n"
    then show "\<exists>c < NBUF. b_dev (bs[b := x] ! c) = d \<and> b_blockno (bs[b := x] ! c) = n"
      using R [of n] nth b(1) x by (cases "n = bn") (auto split: if_splits)
  next
    fix c e assume "c < NBUF" "e < NBUF" "b_dev (bs[b := x] ! c) = d \<and> b_dev (bs[b := x] ! e) = d \<and>
        b_blockno (bs[b := x] ! c) = b_blockno (bs[b := x] ! e)"
    then show "c = e" using nth x(2) uniq cachedD(4) [OF c, of c e] by (auto split: if_splits)
  qed (use nth x uniq clean dk cachedD [OF c] in \<open>auto split: if_splits\<close>)
qed

section \<open>The contract of the cache\<close>

definition buf_locks :: "nat \<Rightarrow> 's sltable_scheme \<Rightarrow> (nat \<rightharpoonup> u32) \<Rightarrow> bool" where
  "buf_locks p s H \<longleftrightarrow>
     (\<forall>b < NBUF. (sl_locked (sleeplocks s (Buf_lock b)) \<noteq> 0) = (b \<in> dom H)) \<and>
     (\<forall>b \<in> dom H. sl_pid (sleeplocks s (Buf_lock b)) = p_pid (proc_at s p))"

definition locked_bufs :: "u32 \<Rightarrow> buf list \<Rightarrow> (nat \<rightharpoonup> u32) \<Rightarrow> bool" where
  "locked_bufs d bs H \<longleftrightarrow>
     (\<forall>b bn. H b = Some bn \<longrightarrow> b < NBUF \<and> b_dev (bs ! b) = d \<and> b_blockno (bs ! b) = bn \<and>
        b_valid (bs ! b) \<noteq> 0 \<and> b_refcnt (bs ! b) \<noteq> 0)"

definition cache ::
  "u32 \<Rightarrow> 's bcache_scheme \<Rightarrow> (u32 \<Rightarrow> byte list) \<Rightarrow> (u32 \<Rightarrow> nat) \<Rightarrow> (nat \<rightharpoonup> u32) \<Rightarrow> bool" where
  "cache d s D R H \<longleftrightarrow>
     (\<exists>xs. lru (bufs s) xs \<and> length xs = NBUF) \<and> cached d (bufs s) (disk s) D R \<and>
     locked_bufs d (bufs s) H \<and> (\<exists>p. runs p s \<and> buf_locks p s H)"

lemma lru_all: "lru bs xs \<Longrightarrow> length xs = NBUF \<Longrightarrow> set xs = {..<NBUF}"
  by (intro card_subset_eq) (auto simp: lru_def distinct_card)

lemma lru_upd:
  assumes "lru bs xs" "b_next x = b_next (bs ! b)" "b_prev x = b_prev (bs ! b)"
  shows "lru (bs[b := x]) xs"
proof (cases "b < length bs")
  case True
  have "lru (bs[b := x]) xs = lru bs xs"
  proof (rule lru_cong)
    fix a assume "a \<le> NBUF"
    show "b_next (bs[b := x] ! a) = b_next (bs ! a) \<and> b_prev (bs[b := x] ! a) = b_prev (bs ! a)"
      using assms(2,3) True by (cases "a = b") auto
  qed simp
  then show ?thesis using assms(1) by simp
qed (simp add: assms(1) list_update_beyond)

lemma lru_upd_ex:
  assumes "lru bs xs" "b_next x = b_next (bs ! b)" "b_prev x = b_prev (bs ! b)"
  shows "\<exists>ys. lru (bs[b := x]) ys \<and> length ys = length xs"
  using lru_upd [OF assms] by blast

text \<open>A buffer is free as long as fewer blocks than buffers are referenced.\<close>

lemma unused_buffer:
  assumes "cached d bs dk D R" "card {bn. 0 < R bn} < NBUF"
  shows "\<exists>b < NBUF. b_refcnt (bs ! b) = 0"
proof (rule ccontr)
  assume "\<not> ?thesis"
  then have used: "b_refcnt (bs ! b) \<noteq> 0" if "b < NBUF" for b using that by blast
  then have dev: "b_dev (bs ! b) = d" if "b < NBUF" for b using cachedD(2) [OF assms(1) that] that by blast
  have "inj_on (\<lambda>b. b_blockno (bs ! b)) {..<NBUF}"
    using cachedD(4) [OF assms(1)] dev by (auto intro: inj_onI)
  then have "card ((\<lambda>b. b_blockno (bs ! b)) ` {..<NBUF}) = NBUF" by (simp add: card_image)
  moreover have "(\<lambda>b. b_blockno (bs ! b)) ` {..<NBUF} \<subseteq> {bn. 0 < R bn}"
    using cachedD(1) [OF assms(1)] dev used by (auto simp: unat_gt_0)
  ultimately show False using assms(2) card_mono [of "{bn. 0 < R bn}"] by (metis finite not_less)
qed

lemma find_Some_set: "find P xs = Some x \<Longrightarrow> P x \<and> x \<in> set xs"
  by (auto simp: find_Some_iff)

lemma find_ex: "\<exists>x \<in> set xs. P x \<Longrightarrow> \<exists>x. find P xs = Some x"
  by (metis find_None_iff not_None_eq)

lemma held_same:
  fixes s :: "'s bcache_scheme"
  assumes "held s = []"
  shows "s\<lparr>held := []\<rparr> = s" "s\<lparr>bufs := bs, held := []\<rparr> = s\<lparr>bufs := bs\<rparr>"
  using assms by (cases s; simp)+

text \<open>
  \<open>bget\<close> picks the buffer of the block, or a buffer that is not referenced, gives it one more
  reference and locks it.
\<close>

definition take_buf :: "u32 \<Rightarrow> u32 \<Rightarrow> buf \<Rightarrow> buf" where
  "take_buf d bn x =
     (if b_dev x = d \<and> b_blockno x = bn then x\<lparr>b_refcnt := b_refcnt x + 1\<rparr>
      else x\<lparr>b_dev := d, b_blockno := bn, b_valid := 0, b_refcnt := 1\<rparr>)"

lemma bget_ok:
  assumes "cache d s D R H" "bn \<notin> ran H" "0 < R bn \<or> card {n. 0 < R n} < NBUF"
  obtains b p ps where "b < NBUF" "b \<notin> dom H" "runs p s" "buf_locks p s H" "same_pids (procs s) ps"
    "b_dev (buf_at s b) = d \<and> b_blockno (buf_at s b) = bn \<or>
     b_refcnt (buf_at s b) = 0 \<and> (\<forall>c < NBUF. \<not> (b_dev (buf_at s c) = d \<and> b_blockno (buf_at s c) = bn))"
    "bget d bn s = ret b (s\<lparr>bufs := (bufs s)[b := take_buf d bn (buf_at s b)], procs := ps,
       sleeplocks := (sleeplocks s)(Buf_lock b :=
         (sleeplocks s (Buf_lock b))\<lparr>sl_locked := 1, sl_pid := p_pid (proc_at s p)\<rparr>)\<rparr>)"
proof -
  obtain xs p where xs: "lru (bufs s) xs" "length xs = NBUF" and c: "cached d (bufs s) (disk s) D R"
    and lb: "locked_bufs d (bufs s) H" and p: "runs p s" "buf_locks p s H"
    using assms(1) by (auto simp: cache_def)
  have held: "held s = []" using p(1) by (simp add: runs_def)
  have set_xs: "set xs = {..<NBUF}" by (rule lru_all [OF xs])
  let ?m = "\<lambda>b. b_dev (buf_at s b) = d \<and> b_blockno (buf_at s b) = bn"
  note scan = lru_find(1) [OF xs(1) eq_refl [OF xs(2)], of d bn] lru_find(2) [OF xs(1) eq_refl [OF xs(2)]]
  have free: "b \<notin> dom H \<and> sl_locked (sleeplocks s (Buf_lock b)) = 0"
    if "b < NBUF" "?m b \<or> b_refcnt (buf_at s b) = 0" for b
  proof -
    have "b \<notin> dom H"
      using that(2) lb assms(2) unfolding locked_bufs_def by (auto simp: ran_def)
    then show ?thesis using p(2) that(1) by (auto simp: buf_locks_def)
  qed
  show ?thesis
  proof (cases "find ?m xs")
    case (Some b)
    then have b: "?m b" "b < NBUF" using find_Some_set [OF Some] set_xs by auto
    let ?s = "s\<lparr>bufs := (bufs s)[b := take_buf d bn (buf_at s b)]\<rparr>"
    obtain ps where ps: "acquiresleep (Buf_lock b) ?s = ret () (?s\<lparr>procs := ps, sleeplocks := (sleeplocks ?s)
      (Buf_lock b := (sleeplocks ?s (Buf_lock b))\<lparr>sl_locked := 1, sl_pid := p_pid (proc_at ?s p)\<rparr>)\<rparr>)"
      "same_pids (procs s) ps"
      using acquiresleep_quiet [of p ?s "Buf_lock b"] p(1) free b by auto
    have "bget d bn s = ret b (s\<lparr>bufs := (bufs s)[b := take_buf d bn (buf_at s b)], procs := ps,
       sleeplocks := (sleeplocks s)(Buf_lock b :=
         (sleeplocks s (Buf_lock b))\<lparr>sl_locked := 1, sl_pid := p_pid (proc_at s p)\<rparr>)\<rparr>)"
      using Some scan held ps(1) b(1)
      by (simp add: bget_def kres_simps upd_buf_def take_buf_def held_same)
    then show ?thesis using that [OF b(2) _ p ps(2)] free b by blast
  next
    case None
    then have no: "\<not> ?m b" if "b < NBUF" for b using that set_xs by (auto simp: find_None_iff)
    have "R bn = 0" using cachedD(3) [OF c, of bn] no by auto
    then have "\<exists>b < NBUF. b_refcnt (buf_at s b) = 0" using unused_buffer [OF c] assms(3) by simp
    then obtain b where fb: "find (\<lambda>b. b_refcnt (buf_at s b) = 0) (rev xs) = Some b"
      using find_ex [of "rev xs" "\<lambda>b. b_refcnt (buf_at s b) = 0"] set_xs by auto
    then have b: "b_refcnt (buf_at s b) = 0" "b < NBUF" using find_Some_set [OF fb] set_xs by auto
    let ?s = "s\<lparr>bufs := (bufs s)[b := take_buf d bn (buf_at s b)]\<rparr>"
    obtain ps where ps: "acquiresleep (Buf_lock b) ?s = ret () (?s\<lparr>procs := ps, sleeplocks := (sleeplocks ?s)
      (Buf_lock b := (sleeplocks ?s (Buf_lock b))\<lparr>sl_locked := 1, sl_pid := p_pid (proc_at ?s p)\<rparr>)\<rparr>)"
      "same_pids (procs s) ps"
      using acquiresleep_quiet [of p ?s "Buf_lock b"] p(1) free b by auto
    have "bget d bn s = ret b (s\<lparr>bufs := (bufs s)[b := take_buf d bn (buf_at s b)], procs := ps,
       sleeplocks := (sleeplocks s)(Buf_lock b :=
         (sleeplocks s (Buf_lock b))\<lparr>sl_locked := 1, sl_pid := p_pid (proc_at s p)\<rparr>)\<rparr>)"
      using None fb scan held ps(1) no [OF b(2)]
      by (auto simp: bget_def kres_simps upd_buf_def take_buf_def held_same)
    then show ?thesis using that [OF b(2) _ p ps(2)] free b no by blast
  qed
qed

text \<open>The three parts of the contract depend on the contents of the buffers, not on their links.\<close>

lemma core_fields:
  assumes "map core cs = map core bs" "length bs = Suc NBUF" "b < NBUF"
  shows "b_valid (cs ! b) = b_valid (bs ! b)" "b_dev (cs ! b) = b_dev (bs ! b)"
    "b_blockno (cs ! b) = b_blockno (bs ! b)" "b_refcnt (cs ! b) = b_refcnt (bs ! b)"
    "b_data (cs ! b) = b_data (bs ! b)"
  using core_nth [OF assms(1), of b] assms(2,3) by simp_all

lemma cached_core:
  assumes "cached d bs dk D R" "map core cs = map core bs" "length bs = Suc NBUF"
  shows "cached d cs dk D R"
  using assms(1) core_fields [OF assms(2,3)] unfolding cached_def by (simp cong: imp_cong conj_cong)

lemma locked_bufs_core:
  assumes "locked_bufs d bs H" "map core cs = map core bs" "length bs = Suc NBUF"
  shows "locked_bufs d cs H"
  using assms(1) core_fields [OF assms(2,3)] unfolding locked_bufs_def by metis

text \<open>One buffer changes.\<close>

lemma cache_upd:
  assumes c: "cached d (bufs s) (disk s) D R" and xs: "lru (bufs s) xs" "length xs = NBUF"
    and lb: "locked_bufs d (bufs s) H" and p: "buf_locks p s H" and b: "b < NBUF"
    and x: "b_dev x = d" "b_blockno x = bn" "b_valid x \<noteq> 0" "b_data x = v" "length v = BSIZE"
    and uniq: "\<And>c. c < NBUF \<Longrightarrow> c \<noteq> b \<Longrightarrow> b_dev (buf_at s c) = d \<Longrightarrow> b_blockno (buf_at s c) \<noteq> bn"
    and old: "b_dev (buf_at s b) = d \<Longrightarrow> b_blockno (buf_at s b) \<noteq> bn \<Longrightarrow> b_refcnt (buf_at s b) = 0"
    and clean: "b_refcnt x = 0 \<Longrightarrow> v = disk t bn" and dk: "\<And>n. n \<noteq> bn \<Longrightarrow> disk t n = disk s n"
    and t: "runs p t" "p_pid (proc_at t p) = p_pid (proc_at s p)" "lru (bufs t) ys" "length ys = NBUF"
      "map core (bufs t) = map core ((bufs s)[b := x])"
    and sl: "\<And>c. c \<noteq> b \<Longrightarrow> sleeplocks t (Buf_lock c) = sleeplocks s (Buf_lock c)"
      "(sl_locked (sleeplocks t (Buf_lock b)) \<noteq> 0) = (h \<noteq> None)"
      "h \<noteq> None \<Longrightarrow> sl_pid (sleeplocks t (Buf_lock b)) = p_pid (proc_at s p)"
    and h: "h = None \<or> h = Some bn \<and> b_refcnt x \<noteq> 0"
  shows "cache d t (D(bn := v)) (R(bn := unat (b_refcnt x))) (H(b := h))"
proof -
  have len: "length (bufs s) = Suc NBUF" using xs(1) by (simp add: lru_def)
  have "cached d ((bufs s)[b := x]) (disk t) (D(bn := v)) (R(bn := unat (b_refcnt x)))"
    by (rule cached_upd [OF c b len x uniq old clean dk])
  then have 1: "cached d (bufs t) (disk t) (D(bn := v)) (R(bn := unat (b_refcnt x)))"
    by (rule cached_core) (simp_all add: len t(5))
  have "locked_bufs d ((bufs s)[b := x]) (H(b := h))"
    using lb h x b len unfolding locked_bufs_def by (auto simp: nth_list_update split: if_splits)
  then have 2: "locked_bufs d (bufs t) (H(b := h))"
    by (rule locked_bufs_core) (simp_all add: len t(5))
  have 3: "buf_locks p t (H(b := h))"
    unfolding buf_locks_def
  proof (intro conjI allI ballI impI)
    fix c assume "c < NBUF"
    then show "(sl_locked (sleeplocks t (Buf_lock c)) \<noteq> 0) = (c \<in> dom (H(b := h)))"
      using p sl(1) [of c] sl(2) unfolding buf_locks_def by (cases "c = b") auto
  next
    fix c assume "c \<in> dom (H(b := h))"
    then show "sl_pid (sleeplocks t (Buf_lock c)) = p_pid (proc_at t p)"
      using p sl(1) [of c] sl(3) t(2) unfolding buf_locks_def by (cases "c = b") (auto split: if_splits)
  qed
  show ?thesis unfolding cache_def using 1 2 3 t by blast
qed

text \<open>Two states differ only in the cache and in the scheduling fields of the processes.\<close>

definition cache_only :: "'s bcache_scheme \<Rightarrow> 's bcache_scheme \<Rightarrow> bool" where
  "cache_only s t \<longleftrightarrow>
     s\<lparr>procs := procs t, sleeplocks := sleeplocks t, bufs := bufs t, disk := disk t, disk_writes := disk_writes t\<rparr> = t"

lemma cache_only_refl [simp]: "cache_only s s"
  by (simp add: cache_only_def)

lemma cache_onlyI:
  "cache_only s (s\<lparr>bufs := bs, procs := ps, sleeplocks := sl\<rparr>)"
  "cache_only s (s\<lparr>procs := ps, sleeplocks := sl, bufs := bs\<rparr>)" "cache_only s (s\<lparr>bufs := bs\<rparr>)"
  "cache_only s (s\<lparr>disk := dk, disk_writes := w\<rparr>)"
  by (cases s; simp add: cache_only_def)+

lemma cache_only_trans: "cache_only s t \<Longrightarrow> cache_only t u \<Longrightarrow> cache_only s u"
  by (cases s; cases t; cases u) (simp add: cache_only_def)

lemma cache_only_more: "cache_only s t \<Longrightarrow> bcache.more t = bcache.more s"
  by (cases s; cases t) (simp add: cache_only_def)

section \<open>The operations\<close>

lemma cache_data:
  assumes "cache d s D R H" "H b = Some bn"
  shows "b_data (buf_at s b) = D bn" "b_blockno (buf_at s b) = bn" "b < NBUF"
    "0 < R bn" "R bn = unat (b_refcnt (buf_at s b))" "length (D bn) = BSIZE"
proof -
  have c: "cached d (bufs s) (disk s) D R" and b: "b < NBUF" "b_dev (buf_at s b) = d"
    "b_blockno (buf_at s b) = bn" "b_valid (buf_at s b) \<noteq> 0" "b_refcnt (buf_at s b) \<noteq> 0"
    using assms by (auto simp: cache_def locked_bufs_def)
  show "b_data (buf_at s b) = D bn" using cachedD(5) [OF c b(1,2,4)] b(3) by simp
  show "R bn = unat (b_refcnt (buf_at s b))" "0 < R bn"
    using cachedD(1) [OF c b(1,2)] b(3,5) by (simp_all add: unat_gt_0)
  show "b_blockno (buf_at s b) = bn" "b < NBUF" by fact+
  show "length (D bn) = BSIZE" by (rule cachedD(8) [OF c])
qed

text \<open>A block without references is the one on the disk.\<close>

lemma cache_clean:
  assumes "cache d s D R H" "R n = 0"
  shows "D n = disk s n"
proof -
  have c: "cached d (bufs s) (disk s) D R" using assms(1) by (simp add: cache_def)
  show ?thesis
  proof (cases "\<exists>b < NBUF. b_dev (buf_at s b) = d \<and> b_blockno (buf_at s b) = n")
    case True
    then obtain b where b: "b < NBUF" "b_dev (buf_at s b) = d" "b_blockno (buf_at s b) = n" by blast
    then have "b_refcnt (buf_at s b) = 0" using cachedD(1) [OF c b(1,2)] assms(2) by (simp add: unat_eq_0)
    then show ?thesis using cachedD(6) [OF c b(1,2)] b(3) by simp
  next
    case False
    then show ?thesis using cachedD(7) [OF c, of n] by metis
  qed
qed

lemma unat_succ32: "Suc (unat (w :: u32)) < 2 ^ 32 \<Longrightarrow> unat (w + 1) = Suc (unat w)"
  by (simp add: unat_word_ariths)

lemma bread_ok:
  assumes "cache d s D R H" "bn \<notin> ran H" "0 < R bn \<or> card {n. 0 < R n} < NBUF" "Suc (R bn) < 2 ^ 32"
  shows "\<exists>b t. bread d bn s = ret b t \<and> cache d t D (R(bn := Suc (R bn))) (H(b \<mapsto> bn)) \<and> b \<notin> dom H \<and>
     disk t = disk s \<and> disk_writes t = disk_writes s \<and> cache_only s t"
proof -
  from assms(1) obtain xs where xs: "lru (bufs s) xs" "length xs = NBUF"
    and c: "cached d (bufs s) (disk s) D R" and lb: "locked_bufs d (bufs s) H"
    by (auto simp: cache_def)
  obtain b p ps where b: "b < NBUF" "b \<notin> dom H" and p: "runs p s" "buf_locks p s H" "same_pids (procs s) ps"
    and pick: "b_dev (buf_at s b) = d \<and> b_blockno (buf_at s b) = bn \<or>
     b_refcnt (buf_at s b) = 0 \<and> (\<forall>c < NBUF. \<not> (b_dev (buf_at s c) = d \<and> b_blockno (buf_at s c) = bn))"
    and g: "bget d bn s = ret b (s\<lparr>bufs := (bufs s)[b := take_buf d bn (buf_at s b)], procs := ps,
       sleeplocks := (sleeplocks s)(Buf_lock b :=
         (sleeplocks s (Buf_lock b))\<lparr>sl_locked := 1, sl_pid := p_pid (proc_at s p)\<rparr>)\<rparr>)"
    using bget_ok [OF assms(1-3)] by blast
  have len: "length (bufs s) = Suc NBUF" "b < length (bufs s)" using xs(1) b(1) by (auto simp: lru_def)
  let ?y = "take_buf d bn (buf_at s b)"
  define x where "x = (if b_valid ?y = 0 then ?y\<lparr>b_data := disk s bn, b_valid := 1\<rparr> else ?y)"
  define t where "t = s\<lparr>bufs := (bufs s)[b := x], procs := ps, sleeplocks := (sleeplocks s)(Buf_lock b :=
         (sleeplocks s (Buf_lock b))\<lparr>sl_locked := 1, sl_pid := p_pid (proc_at s p)\<rparr>)\<rparr>"
  have br: "bread d bn s = ret b t"
    using len by (simp add: bread_def g x_def t_def disk_rw_def upd_buf_def take_buf_def Let_def)
  have uniq: "b_blockno (buf_at s c) \<noteq> bn" if "c < NBUF" "c \<noteq> b" "b_dev (buf_at s c) = d" for c
    using pick cachedD(4) [OF c that(1) b(1) that(3)] that by auto
  have D: "D bn = disk s bn" if "b_valid ?y = 0"
    by (rule cachedD(7) [OF c]) (use that pick uniq in \<open>auto simp: take_buf_def split: if_splits\<close>)
  have x: "b_dev x = d" "b_blockno x = bn" "b_valid x \<noteq> 0" "b_data x = D bn"
    using D cachedD(5) [OF c b(1)] by (auto simp: x_def take_buf_def)
  have "unat (b_refcnt x) = Suc (R bn)"
  proof (cases "b_dev (buf_at s b) = d \<and> b_blockno (buf_at s b) = bn")
    case True
    then have "R bn = unat (b_refcnt (buf_at s b))" using cachedD(1) [OF c b(1)] by auto
    then show ?thesis using True assms(4) by (simp add: x_def take_buf_def unat_succ32)
  next
    case False
    then have "R bn = 0" using pick cachedD(3) [OF c, of bn] by auto
    then show ?thesis using False by (auto simp: x_def take_buf_def)
  qed
  then have ref: "unat (b_refcnt x) = Suc (R bn)" "b_refcnt x \<noteq> 0" by auto
  have "cache d t (D(bn := D bn)) (R(bn := unat (b_refcnt x))) (H(b := Some bn))"
  proof (rule cache_upd [OF c xs lb p(2) b(1) x])
    show "length (D bn) = BSIZE" by (rule cachedD(8) [OF c])
    show "runs p t" using p(1,3) by (simp add: t_def runs_def same_pids_def)
    show "p_pid (proc_at t p) = p_pid (proc_at s p)"
      using p(1,3) by (simp add: t_def same_pids_def runs_def)
    show "lru (bufs t) xs"
      by (simp add: t_def) (rule lru_upd [OF xs(1)]; simp add: x_def take_buf_def)
  qed (use uniq pick ref xs(2) in \<open>auto simp: t_def\<close>)
  then show ?thesis using br b(2) ref(1) by (auto simp: t_def cache_onlyI)
qed

text \<open>A locked buffer changes.\<close>

lemma cache_held_upd:
  assumes c: "cache d s D R H" and hb: "H b = Some bn"
    and x: "b_dev x = b_dev (buf_at s b)" "b_blockno x = b_blockno (buf_at s b)"
      "b_valid x = b_valid (buf_at s b)" "b_data x = v" "length v = BSIZE"
    and clean: "b_refcnt x = 0 \<Longrightarrow> v = disk t bn" and dk: "\<And>n. n \<noteq> bn \<Longrightarrow> disk t n = disk s n"
    and t: "\<And>p. runs p s \<Longrightarrow> runs p t \<and> p_pid (proc_at t p) = p_pid (proc_at s p)"
      "\<And>xs. lru (bufs s) xs \<Longrightarrow> b \<in> set xs \<Longrightarrow> \<exists>ys. lru (bufs t) ys \<and> length ys = length xs"
      "map core (bufs t) = map core ((bufs s)[b := x])"
    and sl: "\<And>c. c \<noteq> b \<Longrightarrow> sleeplocks t (Buf_lock c) = sleeplocks s (Buf_lock c)"
      "h = None \<and> sl_locked (sleeplocks t (Buf_lock b)) = 0 \<or>
       h = Some bn \<and> b_refcnt x \<noteq> 0 \<and> sleeplocks t (Buf_lock b) = sleeplocks s (Buf_lock b)"
  shows "cache d t (D(bn := v)) (R(bn := unat (b_refcnt x))) (H(b := h))"
proof -
  from c obtain xs p where xs: "lru (bufs s) xs" "length xs = NBUF"
    and cc: "cached d (bufs s) (disk s) D R" and lb: "locked_bufs d (bufs s) H"
    and p: "runs p s" "buf_locks p s H"
    by (auto simp: cache_def)
  have b: "b < NBUF" "b_dev (buf_at s b) = d" "b_blockno (buf_at s b) = bn" "b_valid (buf_at s b) \<noteq> 0"
    using lb hb by (auto simp: locked_bufs_def)
  have locked: "sl_locked (sleeplocks s (Buf_lock b)) \<noteq> 0"
    "sl_pid (sleeplocks s (Buf_lock b)) = p_pid (proc_at s p)"
    using p(2) hb b(1) by (auto simp: buf_locks_def)
  obtain ys where ys: "lru (bufs t) ys" "length ys = NBUF" using t(2) [OF xs(1)] lru_all [OF xs] b(1) xs(2) by auto
  show ?thesis
  proof (rule cache_upd [OF cc xs lb p(2) b(1) _ _ _ x(4,5) _ _ clean dk _ _ ys t(3) sl(1)])
    show "b_blockno (buf_at s c) \<noteq> bn" if "c < NBUF" "c \<noteq> b" "b_dev (buf_at s c) = d" for c
      using cachedD(4) [OF cc that(1) b(1) that(3) b(2)] that(2) b(3) by metis
  qed (use x b t(1) [OF p(1)] sl(2) locked in auto)
qed

lemma upd_data_ok:
  assumes "cache d s D R H" "H b = Some bn" "length (f (D bn)) = BSIZE"
  shows "cache d (upd_data b f s) (D(bn := f (D bn))) R H"
    "disk (upd_data b f s) = disk s" "disk_writes (upd_data b f s) = disk_writes s"
    "cache_only s (upd_data b f s)"
proof -
  note cd = cache_data [OF assms(1,2)]
  let ?x = "buf_at s b\<lparr>b_data := f (b_data (buf_at s b))\<rparr>"
  have "cache d (upd_data b f s) (D(bn := f (D bn))) (R(bn := unat (b_refcnt ?x))) (H(b := Some bn))"
    by (rule cache_held_upd [OF assms(1,2)])
      (use assms(3) cd in \<open>auto simp: upd_data_def upd_buf_def intro!: lru_upd_ex\<close>)
  then show "cache d (upd_data b f s) (D(bn := f (D bn))) R H"
    using cd assms(2) by (simp add: fun_upd_idem)
qed (simp_all add: upd_data_def upd_buf_def cache_onlyI)

lemma holds_buf:
  assumes "cache d s D R H" "H b = Some bn"
  shows "holdingsleep (Buf_lock b) s = ret True s"
proof -
  obtain p where p: "runs p s" "buf_locks p s H" using assms(1) by (auto simp: cache_def)
  show ?thesis unfolding holdingsleep_quiet [OF p(1)]
    using p(2) assms(2) cache_data(3) [OF assms] by (auto simp: buf_locks_def)
qed

lemma bwrite_ok:
  assumes "cache d s D R H" "H b = Some bn"
  shows "\<exists>t. bwrite b s = ret () t \<and> cache d t D R H \<and> disk t = (disk s)(bn := D bn) \<and>
    disk_writes t = disk_writes s @ [(bn, D bn)] \<and> cache_only s t"
proof -
  note cd = cache_data [OF assms]
  let ?t = "s\<lparr>disk := (disk s)(bn := D bn), disk_writes := disk_writes s @ [(bn, D bn)]\<rparr>"
  have "cache d ?t (D(bn := D bn)) (R(bn := unat (b_refcnt (buf_at s b)))) (H(b := Some bn))"
    by (rule cache_held_upd [OF assms]) (use cd in auto)
  then have "cache d ?t D R H" using cd assms(2) by (simp add: fun_upd_idem)
  moreover have "bwrite b s = ret () ?t"
    using cd holds_buf [OF assms] by (simp add: bwrite_def disk_rw_def Let_def)
  ultimately show ?thesis by (auto simp: cache_onlyI)
qed

lemma brelse_ok:
  assumes "cache d s D R H" "H b = Some bn" "1 < R bn \<or> D bn = disk s bn"
  shows "\<exists>t. brelse b s = ret () t \<and> cache d t D (R(bn := R bn - 1)) (H(b := None)) \<and>
    disk t = disk s \<and> disk_writes t = disk_writes s \<and> cache_only s t"
proof -
  note cd = cache_data [OF assms(1,2)]
  obtain p where p: "runs p s" using assms(1) by (auto simp: cache_def)
  obtain ps where r: "releasesleep (Buf_lock b) s = ret () (s\<lparr>procs := ps, sleeplocks := (sleeplocks s)
      (Buf_lock b := (sleeplocks s (Buf_lock b))\<lparr>sl_locked := 0, sl_pid := 0\<rparr>)\<rparr>)" "same_pids (procs s) ps"
    using releasesleep_quiet [OF p] by blast
  define x where "x = buf_at s b\<lparr>b_refcnt := b_refcnt (buf_at s b) - 1\<rparr>"
  define bs where "bs = (let bs = (bufs s)[b := x] in if b_refcnt x = 0 then link_front b (unlink b bs) else bs)"
  define t where "t = s\<lparr>procs := ps, sleeplocks := (sleeplocks s)
      (Buf_lock b := (sleeplocks s (Buf_lock b))\<lparr>sl_locked := 0, sl_pid := 0\<rparr>), bufs := bs\<rparr>"
  have len: "b < length (bufs s)" using assms(1) cd(3) by (auto simp: cache_def lru_def)
  have h: "held s = []" using p by (simp add: runs_def)
  have br: "brelse b s = ret () t"
    using len h by (simp add: brelse_def holds_buf [OF assms(1,2)] r(1) kres_simps upd_buf_def Let_def
      t_def bs_def x_def held_same)
  have ref: "unat (b_refcnt x) = R bn - 1"
    using cd(4,5) by (simp add: x_def unat_minus_one unat_gt_0)
  have "cache d t (D(bn := D bn)) (R(bn := unat (b_refcnt x))) (H(b := None))"
  proof (rule cache_held_upd [OF assms(1,2)])
    fix q assume "runs q s"
    then show "runs q t \<and> p_pid (proc_at t q) = p_pid (proc_at s q)"
      using r(2) by (simp add: t_def runs_def same_pids_def)
  next
    fix xs assume xs: "lru (bufs s) xs" "b \<in> set xs"
    have l: "lru ((bufs s)[b := x]) xs" by (rule lru_upd [OF xs(1)]) (simp_all add: x_def)
    have "length (b # remove1 b xs) = length xs"
      using xs(2) length_pos_if_in_set [OF xs(2)] by (simp add: length_remove1)
    with move_front_lru [OF l xs(2)] l show "\<exists>ys. lru (bufs t) ys \<and> length ys = length xs"
      by (auto simp: t_def bs_def Let_def)
  qed (use cd assms(3) ref in \<open>auto simp: t_def x_def bs_def Let_def link_front_core unlink_core\<close>)
  then show ?thesis using br ref by (auto simp: t_def cache_onlyI)
qed

text \<open>\<open>bpin\<close> and \<open>bunpin\<close> change the reference count only.\<close>

lemma bpin_eq:
  "Bcache_lock \<notin> set (held s) \<Longrightarrow> bpin b s = ret () (upd_buf b (\<lambda>x. x\<lparr>b_refcnt := b_refcnt x + 1\<rparr>) s)"
  by (cases s) (simp add: bpin_def kres_simps upd_buf_def)

lemma bpin_ok:
  assumes "cache d s D R H" "H b = Some bn" "Suc (R bn) < 2 ^ 32"
  shows "cache d (upd_buf b (\<lambda>x. x\<lparr>b_refcnt := b_refcnt x + 1\<rparr>) s) D (R(bn := Suc (R bn))) H"
proof -
  note cd = cache_data [OF assms(1,2)]
  let ?x = "buf_at s b\<lparr>b_refcnt := b_refcnt (buf_at s b) + 1\<rparr>"
  have ref: "unat (b_refcnt ?x) = Suc (R bn)" "b_refcnt ?x \<noteq> 0"
    using cd(5) assms(3) by (auto simp: unat_succ32 dest: arg_cong [of _ _ unat])
  have "cache d (s\<lparr>bufs := (bufs s)[b := ?x]\<rparr>) (D(bn := D bn)) (R(bn := unat (b_refcnt ?x))) (H(b := Some bn))"
    by (rule cache_held_upd [OF assms(1,2)]) (use cd ref(2) in \<open>auto intro!: lru_upd_ex\<close>)
  then show ?thesis using ref(1) assms(2) by (simp add: fun_upd_idem upd_buf_def)
qed

lemma bunpin_ok:
  assumes "cache d s D R H" "H b = Some bn" "1 < R bn"
  shows "\<exists>t. bunpin b s = ret () t \<and> cache d t D (R(bn := R bn - 1)) H \<and>
    disk t = disk s \<and> disk_writes t = disk_writes s \<and> cache_only s t"
proof -
  note cd = cache_data [OF assms(1,2)]
  let ?x = "buf_at s b\<lparr>b_refcnt := b_refcnt (buf_at s b) - 1\<rparr>"
  let ?t = "s\<lparr>bufs := (bufs s)[b := ?x]\<rparr>"
  have "unat (b_refcnt ?x) = R bn - 1" using cd(4,5) by (simp add: unat_minus_one unat_gt_0)
  then have ref: "unat (b_refcnt ?x) = R bn - 1" "b_refcnt ?x \<noteq> 0" using assms(3) by auto
  have "cache d ?t (D(bn := D bn)) (R(bn := unat (b_refcnt ?x))) (H(b := Some bn))"
    by (rule cache_held_upd [OF assms(1,2)]) (use cd ref(2) in \<open>auto intro!: lru_upd_ex\<close>)
  then have "cache d ?t D (R(bn := R bn - 1)) H" using ref(1) assms(2) by (simp add: fun_upd_idem)
  moreover have "held s = []" using assms(1) by (auto simp: cache_def runs_def)
  ultimately show ?thesis by (auto simp: bunpin_def kres_simps upd_buf_def held_same cache_onlyI)
qed

section \<open>The cache after initialisation\<close>

lemma binit_fold:
  fixes s :: "'s bcache_scheme" and nm :: "byte list"
  defines "f \<equiv> \<lambda>k. fold (\<lambda>b s. initsleeplock (Buf_lock b) nm (s\<lparr>bufs := link_front b (bufs s)\<rparr>)) [0..<k] s"
  shows "map core (bufs (f k)) = map core (bufs s)"
    "b < k \<Longrightarrow> sl_locked (sleeplocks (f k) (Buf_lock b)) = 0"
    "disk (f k) = disk s" "disk_writes (f k) = disk_writes s" "curproc (f k) = curproc s" "held (f k) = held s"
    "procs (f k) = procs s" "bcache.more (f k) = bcache.more s"
  unfolding f_def
  by (induction k) (auto simp: initsleeplock_def upd_sl_def link_front_core less_Suc_eq)

definition fresh :: "u32 \<Rightarrow> 's bcache_scheme \<Rightarrow> bool" where
  "fresh d s \<longleftrightarrow> length (bufs s) = Suc NBUF \<and>
     (\<forall>b < NBUF. b_dev (buf_at s b) \<noteq> d \<and> b_refcnt (buf_at s b) = 0) \<and>
     (\<forall>n. length (disk s n) = BSIZE) \<and> (\<exists>p. runs p s)"

lemma binit_cache:
  assumes "fresh d s"
  shows "cache d (binit s) (disk s) (\<lambda>_. 0) Map.empty" "disk (binit s) = disk s"
    "disk_writes (binit s) = disk_writes s" "bcache.more (binit s) = bcache.more s"
proof -
  let ?s = "upd_buf head (\<lambda>x. x\<lparr>b_prev := head, b_next := head\<rparr>) s"
  have len: "length (bufs s) = Suc NBUF" using assms by (simp add: fresh_def)
  note fold = binit_fold [where s = ?s and nm = "bytes ''buffer'' @ [0]" and k = NBUF,
      folded binit_def [unfolded Let_def]]
  obtain p where p: "runs p s" using assms by (auto simp: fresh_def)
  have core: "map core (bufs (binit s)) = map core (bufs s)"
    using fold(1) by (simp add: upd_buf_def core_upd)
  have d: "disk (binit s) = disk s" using fold(3) by (simp add: upd_buf_def)
  have c: "b_dev (buf_at (binit s) b) \<noteq> d" "b_refcnt (buf_at (binit s) b) = 0" if "b < NBUF" for b
    using core_fields [OF core len that] assms that by (auto simp: fresh_def)
  have cd: "cached d (bufs (binit s)) (disk s) (disk s) (\<lambda>_. 0)"
    unfolding cached_def using c assms by (auto simp: fresh_def)
  have rp: "runs p (binit s)" using p fold(5-7) by (simp add: runs_def upd_buf_def)
  show "cache d (binit s) (disk s) (\<lambda>_. 0) Map.empty"
    unfolding cache_def d
    using cd binit_lru [OF len] rp fold(2) by (auto simp: locked_bufs_def buf_locks_def intro!: exI [of _ "rev [0..<NBUF]"])
  show "disk (binit s) = disk s" "disk_writes (binit s) = disk_writes s" "bcache.more (binit s) = bcache.more s"
    using fold(3,4,8) by (simp_all add: upd_buf_def)
qed

section \<open>The cache as an array of blocks\<close>

text \<open>
  The use of the cache that \<^verbatim>\<open>kernel/bio.c\<close> prescribes: get the buffer, read or change and write
  it, release it.
\<close>

definition read_block :: "u32 \<Rightarrow> u32 \<Rightarrow> 's bcache_scheme \<Rightarrow> ('s bcache_scheme, byte list) kres" where
  "read_block d bn s =
     bindK (bread d bn s) (\<lambda>b s. bindK (brelse b s) (\<lambda>_ t. ret (b_data (buf_at s b)) t))"

definition write_block :: "u32 \<Rightarrow> u32 \<Rightarrow> byte list \<Rightarrow> 's bcache_scheme \<Rightarrow> ('s bcache_scheme, unit) kres" where
  "write_block d bn v s =
     bindK (bread d bn s) (\<lambda>b s.
     bindK (bwrite b (upd_data b (\<lambda>_. v) s)) (\<lambda>_ s.
       brelse b s))"

datatype block_op = Rd u32 | Wr u32 "byte list"

fun run_ops :: "(u32 \<Rightarrow> 's \<Rightarrow> ('s, byte list) kres) \<Rightarrow> (u32 \<Rightarrow> byte list \<Rightarrow> 's \<Rightarrow> ('s, unit) kres) \<Rightarrow>
    block_op list \<Rightarrow> 's \<Rightarrow> ('s, byte list list) kres" where
  "run_ops rd wr [] s = ret [] s"
| "run_ops rd wr (Rd bn # ops) s =
     bindK (rd bn s) (\<lambda>v s. bindK (run_ops rd wr ops s) (\<lambda>vs s. ret (v # vs) s))"
| "run_ops rd wr (Wr bn v # ops) s = bindK (wr bn v s) (\<lambda>_ s. run_ops rd wr ops s)"

text \<open>What the operations do to an array of blocks.\<close>

fun array_ops :: "block_op list \<Rightarrow> disk \<Rightarrow> byte list list \<times> disk" where
  "array_ops [] D = ([], D)"
| "array_ops (Rd bn # ops) D = (let (vs, D') = array_ops ops D in (D bn # vs, D'))"
| "array_ops (Wr bn v # ops) D = array_ops ops (D(bn := v))"

locale block_store =
  fixes rd :: "u32 \<Rightarrow> 's \<Rightarrow> ('s, byte list) kres"
    and wr :: "u32 \<Rightarrow> byte list \<Rightarrow> 's \<Rightarrow> ('s, unit) kres"
    and rep :: "'s \<Rightarrow> disk \<Rightarrow> bool"
  assumes rd_rep: "rep s D \<Longrightarrow> \<exists>t. rd bn s = ret (D bn) t \<and> rep t D"
    and wr_rep: "rep s D \<Longrightarrow> length v = BSIZE \<Longrightarrow> \<exists>t. wr bn v s = ret () t \<and> rep t (D(bn := v))"
begin

lemma run_refines:
  assumes "rep s D" "\<forall>bn v. Wr bn v \<in> set ops \<longrightarrow> length v = BSIZE"
  shows "\<exists>t. run_ops rd wr ops s = ret (fst (array_ops ops D)) t \<and> rep t (snd (array_ops ops D))"
  using assms
proof (induction ops D arbitrary: s rule: array_ops.induct)
  case (2 bn ops D)
  obtain t where t: "rd bn s = ret (D bn) t" "rep t D" using rd_rep [OF "2.prems"(1)] by blast
  then show ?case using "2.IH" [OF t(2)] "2.prems"(2) by (auto split: prod.splits)
next
  case (3 bn v ops D)
  obtain t where t: "wr bn v s = ret () t" "rep t (D(bn := v))"
    using wr_rep [OF "3.prems"(1), of v bn] "3.prems"(2) by auto
  then show ?case using "3.IH" [OF t(2)] "3.prems"(2) by (simp add: fun_upd_def)
qed simp

end

text \<open>A cache whose buffers are all released represents the disk.\<close>

definition released :: "u32 \<Rightarrow> 's bcache_scheme \<Rightarrow> disk \<Rightarrow> bool" where
  "released d s D \<longleftrightarrow> cache d s D (\<lambda>_. 0) Map.empty"

lemma released_disk: "released d s D \<Longrightarrow> disk s = D"
  unfolding released_def by (rule ext, rule cache_clean [symmetric, where R = "\<lambda>_. 0"]) simp_all

lemma read_block_ok:
  assumes "released d s D"
  shows "\<exists>t. read_block d bn s = ret (D bn) t \<and> released d t D"
proof -
  obtain b t where t: "bread d bn s = ret b t" "cache d t D ((\<lambda>_. 0)(bn := Suc 0)) [b \<mapsto> bn]" "disk t = disk s"
    using bread_ok [OF assms [unfolded released_def], of bn] by auto
  note cd = cache_data [OF t(2), of b bn]
  have "D bn = disk t bn" using released_disk [OF assms] t(3) by simp
  then obtain v where v: "brelse b t = ret () v" "cache d v D (\<lambda>_. 0) Map.empty"
    using brelse_ok [OF t(2), of b bn] by (auto simp: fun_upd_idem)
  show ?thesis using t(1) v cd(1) by (simp add: read_block_def released_def)
qed

lemma write_block_ok:
  assumes "released d s D" "length v = BSIZE"
  shows "\<exists>t. write_block d bn v s = ret () t \<and> released d t (D(bn := v))"
proof -
  obtain b t where t: "bread d bn s = ret b t" "cache d t D ((\<lambda>_. 0)(bn := Suc 0)) [b \<mapsto> bn]" "disk t = disk s"
    using bread_ok [OF assms(1) [unfolded released_def], of bn] by auto
  note u = upd_data_ok [OF t(2), of b bn "\<lambda>_. v"]
  obtain w where w: "bwrite b (upd_data b (\<lambda>_. v) t) = ret () w"
    "cache d w (D(bn := v)) ((\<lambda>_. 0)(bn := Suc 0)) [b \<mapsto> bn]" "disk w bn = v"
    using bwrite_ok [OF u(1), of b bn] assms(2) by auto
  obtain x where "brelse b w = ret () x" "cache d x (D(bn := v)) (\<lambda>_. 0) Map.empty"
    using brelse_ok [OF w(2), of b bn] w(3) by (auto simp: fun_upd_idem)
  then show ?thesis using t(1) w(1) by (simp add: write_block_def released_def)
qed

interpretation bcache_store: block_store "read_block d" "write_block d" "released d" for d
  using read_block_ok write_block_ok by unfold_locales

text \<open>
  C28. The buffer cache is transparent. From the initialised cache, any sequence of block reads
  and writes through \<open>bread\<close>, \<open>bwrite\<close> and \<open>brelse\<close> runs to its end without a panic, delivers
  what the same sequence delivers on an array of blocks, and leaves the disk as that array.
\<close>

theorem bcache_transparent:
  assumes "fresh d s" "\<forall>bn v. Wr bn v \<in> set ops \<longrightarrow> length v = BSIZE"
  shows "\<exists>t. run_ops (read_block d) (write_block d) ops (binit s) = ret (fst (array_ops ops (disk s))) t \<and>
     disk t = snd (array_ops ops (disk s))"
proof -
  have "released d (binit s) (disk s)" using binit_cache [OF assms(1)] by (simp add: released_def)
  from bcache_store.run_refines [OF this assms(2)] show ?thesis using released_disk by blast
qed

definition boot_reader :: bcache where
  "boot_reader = boot_bcache\<lparr>curproc := Some 0\<rparr>"

lemma boot_reader_fresh: "fresh 1 boot_reader"
  by (auto simp: fresh_def boot_reader_def boot_bcache_def boot_sl_def boot_ptable_def ptable.defs sltable.defs
    bcache.defs runs_def no_buf_def)

theorem bcache_transparent_witness:
  "\<exists>t. run_ops (read_block 1) (write_block 1) [Wr 7 (replicate BSIZE 5), Rd 7, Rd 8] (binit boot_reader) =
     ret [replicate BSIZE 5, replicate BSIZE 0] t \<and> disk t 7 = replicate BSIZE 5"
proof -
  have "disk boot_reader = (\<lambda>_. replicate BSIZE 0)"
    by (simp add: boot_reader_def boot_bcache_def boot_sl_def ptable.defs sltable.defs bcache.defs)
  then show ?thesis
    using bcache_transparent [OF boot_reader_fresh, of "[Wr 7 (replicate BSIZE 5), Rd 7, Rd 8]"] by auto
qed

end
