(* ===== verification/Log_Commit.thy ===== *)
theory Log_Commit
  imports Buffer_Cache
begin

text \<open>
  The disk writes of a transaction. Through the contract of the buffer cache, \<open>commit\<close> writes
  the logged blocks to the log, then the header, then the blocks to their places, then an
  empty header, in this order and nothing else; recovery writes the blocks that the header
  on the disk names.
\<close>

section \<open>Writes in order\<close>

definition apply_writes :: "(u32 \<times> byte list) list \<Rightarrow> disk \<Rightarrow> disk" where
  "apply_writes ws dk = fold (\<lambda>(bn, v) dk. dk(bn := v)) ws dk"

lemma apply_writes_simps [simp]:
  "apply_writes [] dk = dk" "apply_writes ((bn, v) # ws) dk = apply_writes ws (dk(bn := v))"
  "apply_writes (ws @ vs) dk = apply_writes vs (apply_writes ws dk)"
  by (simp_all add: apply_writes_def)

lemma apply_writes_other: "bn \<notin> fst ` set ws \<Longrightarrow> apply_writes ws dk bn = dk bn"
  by (induction ws arbitrary: dk) auto

text \<open>A loop that establishes an invariant step by step.\<close>

lemma forK_upt:
  assumes "I 0 s" "\<And>i s. i < n \<Longrightarrow> I i s \<Longrightarrow> \<exists>t. f i s = ret () t \<and> I (Suc i) t"
  shows "\<exists>t. forK [0..<n] f s = ret () t \<and> I n t"
proof -
  have "\<exists>t. forK [k..<n] f s = ret () t \<and> I n t" if "I k s" "k \<le> n" for k
    using that
  proof (induction "n - k" arbitrary: k s)
    case (Suc m)
    then have "k < n" by simp
    with assms(2) [OF this Suc.prems(1)] obtain t where "f k s = ret () t" "I (Suc k) t" by blast
    then show ?case using Suc.hyps \<open>k < n\<close> by (simp add: upt_conv_Cons)
  qed simp
  then show ?thesis using assms(1) by blast
qed

section \<open>The place of the log\<close>

definition log_block :: "int \<Rightarrow> nat \<Rightarrow> u32" where
  "log_block S i = i2u (S + int i + 1)"

definition log_area :: "int \<Rightarrow> u32 set" where
  "log_area S = insert (i2u S) (log_block S ` {..<LOGBLOCKS})"

definition log_fits :: "int \<Rightarrow> bool" where
  "log_fits S \<longleftrightarrow> 0 \<le> S \<and> S + int LOGBLOCKS < 2 ^ 31"

lemma i2u_inj: "0 \<le> a \<Longrightarrow> a < 2 ^ 32 \<Longrightarrow> 0 \<le> b \<Longrightarrow> b < 2 ^ 32 \<Longrightarrow> i2u a = i2u b \<longleftrightarrow> a = b"
  by (simp add: word_of_int_eq_iff take_bit_int_eq_self)

lemma log_block_inj:
  assumes "log_fits S" "i < LOGBLOCKS" "j < LOGBLOCKS"
  shows "log_block S i = log_block S j \<longleftrightarrow> i = j" "log_block S i \<noteq> i2u S"
  using assms unfolding log_block_def log_fits_def by (subst i2u_inj; simp)+

text \<open>The state of the log in memory: its device and start, and the blocks of the transaction.\<close>

definition log_is :: "u32 \<Rightarrow> int \<Rightarrow> u32 list \<Rightarrow> 's logst_scheme \<Rightarrow> bool" where
  "log_is d S bl s \<longleftrightarrow> i2u (log_dev s) = d \<and> log_start s = S \<and> lh_n s = int (length bl) \<and>
     length (lh_block s) = LOGBLOCKS \<and> length bl \<le> LOGBLOCKS \<and>
     (\<forall>i < length bl. i2u (lh_block s ! i) = bl ! i)"

lemma log_frame:
  fixes s t :: "'s logst_scheme"
  assumes "bcache.more t = bcache.more s"
  shows "log_dev t = log_dev s" "log_start t = log_start s" "lh_n t = lh_n s" "lh_block t = lh_block s"
    "log_outstanding t = log_outstanding s" "log_committing t = log_committing s"
    "log_is d S bl t = log_is d S bl s"
  using assms by (cases s; cases t; simp add: log_is_def)+

section \<open>One block\<close>

text \<open>Copying a block to another through two buffers: the common part of \<open>write_log\<close> and \<open>install_trans\<close>.\<close>

lemma two_breads:
  assumes "cache d s D R Map.empty" "a \<noteq> h" "R a = 0" "R h \<le> 1" "R h = 1 \<or> (\<forall>n. R n = 0)"
    "card {n. 0 < R n} < NBUF"
  obtains b c s1 s2 where "bread d a s = ret b s1" "bread d h s1 = ret c s2" "b \<noteq> c"
    "cache d s2 D (R(a := 1, h := Suc (R h))) [b \<mapsto> a, c \<mapsto> h]" "disk s2 = disk s"
    "disk_writes s2 = disk_writes s" "bcache.more s1 = bcache.more s" "bcache.more s2 = bcache.more s"
proof -
  define Q where "Q = R(a := 1)"
  obtain b s1 where s1: "bread d a s = ret b s1" "cache d s1 D Q [b \<mapsto> a]" "disk s1 = disk s"
    "disk_writes s1 = disk_writes s" "cache_only s s1"
    using bread_ok [OF assms(1), of a] assms(3,6) by (auto simp: Q_def)
  have "card {n. 0 < Q n} < NBUF" if "\<forall>n. R n = 0"
    using that by (simp add: Q_def if_distrib cong: if_cong)
  then have cap: "0 < Q h \<or> card {n. 0 < Q n} < NBUF" "Q h = R h" using assms(2,5) by (auto simp: Q_def)
  obtain c s2 where s2: "bread d h s1 = ret c s2" "cache d s2 D (Q(h := Suc (Q h))) ([b \<mapsto> a](c \<mapsto> h))"
    "c \<notin> dom [b \<mapsto> a]" "disk s2 = disk s1" "disk_writes s2 = disk_writes s1" "cache_only s1 s2"
    using bread_ok [OF s1(2), of h] cap assms(2,4) by auto
  show ?thesis
    by (rule that [OF s1(1) s2(1)]) (use s1 s2 cap(2) cache_only_more [OF s1(5)] cache_only_more [OF s2(6)] in \<open>auto simp: Q_def\<close>)
qed

lemma write_log_step:
  assumes "log_is d S bl s" "i < length bl" "cache d s D R Map.empty"
    "log_block S i \<noteq> bl ! i" "R (log_block S i) = 0" "R (bl ! i) = 1" "card {n. 0 < R n} < NBUF"
  defines "w \<equiv> (log_block S i, D (bl ! i))"
  shows "\<exists>t. write_log_block i s = ret () t \<and> cache d t (D(fst w := snd w)) R Map.empty \<and>
    disk t = (disk s)(fst w := snd w) \<and> disk_writes t = disk_writes s @ [w] \<and> bcache.more t = bcache.more s"
proof -
  let ?a = "log_block S i" and ?h = "bl ! i"
  obtain b c s1 s2 where s: "bread d ?a s = ret b s1" "bread d ?h s1 = ret c s2" "b \<noteq> c"
    "cache d s2 D (R(?a := 1, ?h := Suc (R ?h))) [b \<mapsto> ?a, c \<mapsto> ?h]" "disk s2 = disk s"
    "disk_writes s2 = disk_writes s" "bcache.more s1 = bcache.more s" "bcache.more s2 = bcache.more s"
    by (rule two_breads [OF assms(3-5)]) (use assms(6,7) in auto)
  let ?f = "\<lambda>_. b_data (buf_at s2 c)"
  have dat: "b_data (buf_at s2 c) = D ?h" "length (D ?h) = BSIZE" using cache_data [OF s(4), of c ?h] by auto
  note u = upd_data_ok [OF s(4), of b ?a ?f]
  have u1: "cache d (upd_data b ?f s2) (D(?a := D ?h)) (R(?a := 1, ?h := 2)) [b \<mapsto> ?a, c \<mapsto> ?h]"
    using u(1) dat s(3) assms(6) by (simp add: numeral_2_eq_2)
  obtain s3 where s3: "bwrite b (upd_data b ?f s2) = ret () s3"
    "cache d s3 (D(?a := D ?h)) (R(?a := 1, ?h := 2)) [b \<mapsto> ?a, c \<mapsto> ?h]"
    "disk s3 = (disk s)(?a := D ?h)" "disk_writes s3 = disk_writes s @ [w]" "bcache.more s3 = bcache.more s"
    using bwrite_ok [OF u1, of b ?a] u(2-4) dat s(3,5,6,8) cache_only_more by (fastforce simp: w_def)
  obtain s4 where s4: "brelse c s3 = ret () s4" "cache d s4 (D(?a := D ?h)) (R(?a := 1)) [b \<mapsto> ?a]"
    "disk s4 = disk s3" "disk_writes s4 = disk_writes s3" "bcache.more s4 = bcache.more s3"
    using brelse_ok [OF s3(2), of c ?h] s(3) assms(4,6) cache_only_more
    by (auto simp: fun_upd_twist fun_upd_idem)
  obtain s5 where s5: "brelse b s4 = ret () s5" "cache d s5 (D(?a := D ?h)) R Map.empty"
    "disk s5 = disk s4" "disk_writes s5 = disk_writes s4" "bcache.more s5 = bcache.more s4"
    using brelse_ok [OF s4(2), of b ?a] s3(3) s4(3) assms(5) cache_only_more
    by (auto simp: fun_upd_idem)
  have "i2u (log_dev s) = d" "i2u (log_start s + int i + 1) = ?a" "i2u (lh_block s ! i) = ?h"
    using assms(1,2) by (auto simp: log_is_def log_block_def)
  then have "write_log_block i s = ret () s5"
    using s(1,2) s3(1) s4(1) s5(1) log_frame [OF s(7)] by (simp add: write_log_block_def)
  then show ?thesis using s3 s4 s5 by (simp add: w_def)
qed

lemma cache_uart [simp]: "cache d (s\<lparr>uart_out := out\<rparr>) D R H = cache d s D R H"
  by (simp add: cache_def runs_def buf_locks_def)

lemma recovery_message:
  assumes "held s = []"
  shows "\<exists>out. printf (''recovering tail %d dst %d'' @ nl) [vint a, vint b] s = ret () (s\<lparr>uart_out := uart_out s @ out\<rparr>)"
proof -
  have "format (''recovering tail %d dst %d'' @ nl) [vint 0, vint 0] \<noteq> None" by code_simp
  then show ?thesis by (rule printf_total [rotated 2]) (simp_all add: assms)
qed

lemma install_step:
  assumes "log_is d S bl s" "i < length bl" "cache d s D R Map.empty"
    "log_block S i \<noteq> bl ! i" "R (log_block S i) = 0" "card {n. 0 < R n} < NBUF"
    and rec: "if recovering then \<forall>n. R n = 0 else R (bl ! i) = 1"
  defines "w \<equiv> (bl ! i, D (log_block S i))"
  shows "\<exists>t. install_block recovering i s = ret () t \<and> cache d t (D(fst w := snd w)) (R(bl ! i := 0)) Map.empty \<and>
    disk t = (disk s)(fst w := snd w) \<and> disk_writes t = disk_writes s @ [w] \<and> bcache.more t = bcache.more s"
proof -
  let ?a = "log_block S i" and ?h = "bl ! i"
  have "held s = []" using assms(3) by (auto simp: cache_def runs_def)
  then obtain out where out: "printf (''recovering tail %d dst %d'' @ nl) [vint (int i), vint (lh_block s ! i)] s =
      ret () (s\<lparr>uart_out := uart_out s @ out\<rparr>)"
    using recovery_message [of s "int i" "lh_block s ! i"] by blast
  define s0 where "s0 = (if recovering then s\<lparr>uart_out := uart_out s @ out\<rparr> else s)"
  have s0: "cache d s0 D R Map.empty" "disk s0 = disk s" "disk_writes s0 = disk_writes s" "bcache.more s0 = bcache.more s"
    using assms(3) by (simp_all add: s0_def)
  obtain b c s1 s2 where s: "bread d ?a s0 = ret b s1" "bread d ?h s1 = ret c s2" "b \<noteq> c"
    "cache d s2 D (R(?a := 1, ?h := Suc (R ?h))) [b \<mapsto> ?a, c \<mapsto> ?h]" "disk s2 = disk s0"
    "disk_writes s2 = disk_writes s0" "bcache.more s1 = bcache.more s0" "bcache.more s2 = bcache.more s0"
    by (rule two_breads [OF s0(1) assms(4,5)]) (use rec assms(6) in \<open>auto split: if_splits\<close>)
  let ?f = "\<lambda>_. b_data (buf_at s2 b)"
  have dat: "b_data (buf_at s2 b) = D ?a" "length (D ?a) = BSIZE" using cache_data [OF s(4), of b ?a] s(3) by auto
  have clean: "D ?a = disk s ?a" by (rule cache_clean [OF assms(3,5)])
  note u = upd_data_ok [OF s(4), of c ?h ?f]
  have u1: "cache d (upd_data c ?f s2) (D(?h := D ?a)) (R(?a := 1, ?h := Suc (R ?h))) [b \<mapsto> ?a, c \<mapsto> ?h]"
    using u(1) dat by simp
  obtain s3 where s3: "bwrite c (upd_data c ?f s2) = ret () s3"
    "cache d s3 (D(?h := D ?a)) (R(?a := 1, ?h := Suc (R ?h))) [b \<mapsto> ?a, c \<mapsto> ?h]"
    "disk s3 = (disk s)(?h := D ?a)" "disk_writes s3 = disk_writes s @ [w]" "bcache.more s3 = bcache.more s"
    using bwrite_ok [OF u1, of c ?h] u(2-4) dat s(3,5,6,8) s0 cache_only_more by (fastforce simp: w_def)
  obtain s4 where s4: "(if \<not> recovering then bunpin c s3 else ret () s3) = ret () s4"
    "cache d s4 (D(?h := D ?a)) (R(?a := 1, ?h := 1)) [b \<mapsto> ?a, c \<mapsto> ?h]"
    "disk s4 = disk s3" "disk_writes s4 = disk_writes s3" "bcache.more s4 = bcache.more s3"
    using bunpin_ok [OF s3(2), of c ?h] s3(2) rec cache_only_more by (cases recovering) auto
  obtain s5 where s5: "brelse b s4 = ret () s5" "cache d s5 (D(?h := D ?a)) (R(?h := 1)) [c \<mapsto> ?h]"
    "disk s5 = disk s4" "disk_writes s5 = disk_writes s4" "bcache.more s5 = bcache.more s4"
    using brelse_ok [OF s4(2), of b ?a] s(3) s3(3) s4(3) clean assms(4,5) cache_only_more
    by (auto simp: fun_upd_twist fun_upd_idem)
  obtain s6 where s6: "brelse c s5 = ret () s6" "cache d s6 (D(?h := D ?a)) (R(?h := 0)) Map.empty"
    "disk s6 = disk s5" "disk_writes s6 = disk_writes s5" "bcache.more s6 = bcache.more s5"
    using brelse_ok [OF s5(2), of c ?h] s3(3) s4(3) s5(3) cache_only_more by auto
  have "i2u (log_dev s) = d" "i2u (log_start s + int i + 1) = ?a" "i2u (lh_block s ! i) = ?h"
    using assms(1,2) by (auto simp: log_is_def log_block_def)
  then have "install_block recovering i s = ret () s6"
    using out s(1,2) s3(1) s4(1) s5(1) s6(1) log_frame [OF s(7)] log_frame [OF s0(4)]
    by (simp add: install_block_def s0_def split: if_splits)
  then show ?thesis using s3 s4 s5 s6 by (simp add: w_def)
qed

section \<open>The header\<close>

definition head_bytes :: "u32 list \<Rightarrow> byte list \<Rightarrow> byte list" where
  "head_bytes bl d =
     fold (\<lambda>i d. put32 d (4 + 4 * i) (bl ! i)) [0..<length bl] (put32 d 0 (of_nat (length bl)))"

lemma get_put32:
  assumes "off + 4 \<le> length d"
  shows "get32 (put32 d off v) off = v" "length (put32 d off v) = length d"
    "o2 + 4 \<le> off \<or> off + 4 \<le> o2 \<Longrightarrow> get32 (put32 d off v) o2 = get32 d o2"
  using assms by (simp_all add: get32_def put32_def field_patch_same field_patch_other)

lemma put_blocks:
  fixes f :: "nat \<Rightarrow> u32"
  assumes "4 + 4 * n \<le> length d"
  defines "e \<equiv> fold (\<lambda>i d. put32 d (4 + 4 * i) (f i)) [0..<n] d"
  shows "length e = length d \<and> get32 e 0 = get32 d 0 \<and> (\<forall>i < n. get32 e (4 + 4 * i) = f i)"
  using assms(1) unfolding e_def by (induction n) (auto simp: get_put32 less_Suc_eq)

lemma head_bytes_get:
  assumes "length d = BSIZE" "length bl \<le> LOGBLOCKS"
  shows "length (head_bytes bl d) = BSIZE" "get32 (head_bytes bl d) 0 = of_nat (length bl)"
    "i < length bl \<Longrightarrow> get32 (head_bytes bl d) (4 + 4 * i) = bl ! i"
  using put_blocks [of "length bl" "put32 d 0 (of_nat (length bl))" "\<lambda>i. bl ! i"] assms
  by (auto simp: head_bytes_def get_put32)

lemma write_head_ok:
  assumes "log_is d S bl s" "cache d s D R Map.empty" "R (i2u S) = 0" "card {n. 0 < R n} < NBUF"
  defines "w \<equiv> (i2u S, head_bytes bl (D (i2u S)))"
  shows "\<exists>t. write_head s = ret () t \<and> cache d t (D(fst w := snd w)) R Map.empty \<and>
    disk t = (disk s)(fst w := snd w) \<and> disk_writes t = disk_writes s @ [w] \<and> bcache.more t = bcache.more s"
proof -
  let ?a = "i2u S"
  obtain b s1 where s1: "bread d ?a s = ret b s1" "cache d s1 D (R(?a := 1)) [b \<mapsto> ?a]" "disk s1 = disk s"
    "disk_writes s1 = disk_writes s" "bcache.more s1 = bcache.more s"
    using bread_ok [OF assms(2), of ?a] assms(3,4) cache_only_more by auto
  let ?f = "\<lambda>d. fold (\<lambda>i d. put32 d (4 + 4 * i) (i2u (lh_block s1 ! i))) [0..<nat (lh_n s1)] (put32 d 0 (i2u (lh_n s1)))"
  have lg: "i2u (log_dev s) = d" "log_start s = S" "lh_n s1 = int (length bl)" "length bl \<le> LOGBLOCKS"
    "i < length bl \<Longrightarrow> i2u (lh_block s1 ! i) = bl ! i" for i
    using assms(1) log_frame [OF s1(5)] by (auto simp: log_is_def)
  have "?f e = head_bytes bl e" for e
    unfolding head_bytes_def using lg(3,5) by (auto intro!: fold_cong)
  then have f: "?f = head_bytes bl" by blast
  have len: "length (D ?a) = BSIZE" using cache_data(6) [OF s1(2), of b ?a] by simp
  note u = upd_data_ok [OF s1(2), of b ?a "head_bytes bl"]
  have u1: "cache d (upd_data b (head_bytes bl) s1) (D(?a := snd w)) (R(?a := 1)) [b \<mapsto> ?a]"
    using u(1) head_bytes_get(1) [OF len lg(4)] by (simp add: w_def)
  obtain s2 where s2: "bwrite b (upd_data b (head_bytes bl) s1) = ret () s2" "cache d s2 (D(?a := snd w)) (R(?a := 1)) [b \<mapsto> ?a]"
    "disk s2 = (disk s)(?a := snd w)" "disk_writes s2 = disk_writes s @ [w]" "bcache.more s2 = bcache.more s"
    using bwrite_ok [OF u1, of b ?a] u(2-4) s1(3-5) head_bytes_get(1) [OF len lg(4)] cache_only_more
    by (fastforce simp: w_def)
  obtain s3 where s3: "brelse b s2 = ret () s3" "cache d s3 (D(?a := snd w)) R Map.empty"
    "disk s3 = disk s2" "disk_writes s3 = disk_writes s2" "bcache.more s3 = bcache.more s2"
    using brelse_ok [OF s2(2), of b ?a] s2(3) assms(3) cache_only_more by (auto simp: fun_upd_idem)
  have "write_head s = ret () s3"
    using s1(1) s2(1) s3(1) lg(1,2) by (simp add: write_head_def f)
  then show ?thesis using s2 s3 by (simp add: w_def)
qed

section \<open>The loops\<close>

definition pins :: "u32 list \<Rightarrow> u32 \<Rightarrow> nat" where
  "pins bl n = (if n \<in> set bl then 1 else 0)"

lemma card_pins: "card {n. 0 < pins bl n} \<le> length bl"
proof -
  have "{n. 0 < pins bl n} = set bl" by (auto simp: pins_def)
  then show ?thesis by (simp add: card_length)
qed

lemma pins_drop:
  assumes "distinct bl" "i < length bl"
  shows "(pins (drop i bl))(bl ! i := 0) = pins (drop (Suc i) bl)"
proof -
  have "drop i bl = bl ! i # drop (Suc i) bl" using assms(2) by (simp add: Cons_nth_drop_Suc)
  moreover have "bl ! i \<notin> set (drop (Suc i) bl)"
    using assms calculation by (metis distinct.simps(2) distinct_drop)
  ultimately show ?thesis by (auto simp: pins_def)
qed

text \<open>A transaction that fits: its blocks are distinct and lie outside the log.\<close>

definition trans_ok :: "int \<Rightarrow> u32 list \<Rightarrow> bool" where
  "trans_ok S bl \<longleftrightarrow> log_fits S \<and> distinct bl \<and> length bl \<le> LOGBLOCKS \<and> set bl \<inter> log_area S = {}"

lemma trans_okD:
  assumes "trans_ok S bl" "i < length bl"
  shows "j < LOGBLOCKS \<Longrightarrow> log_block S j \<noteq> bl ! i" "bl ! i \<noteq> log_block S i" "bl ! i \<noteq> i2u S" "i < LOGBLOCKS"
    "log_block S i \<notin> set bl" "log_block S i \<noteq> i2u S" "bl ! i \<notin> log_block S ` {..<LOGBLOCKS}"
proof -
  have a: "bl ! i \<notin> log_area S" "i < LOGBLOCKS" "log_fits S" "set bl \<inter> log_area S = {}"
    using assms nth_mem by (force simp: trans_ok_def)+
  then show "j < LOGBLOCKS \<Longrightarrow> log_block S j \<noteq> bl ! i" by (metis image_eqI insertI2 lessThan_iff log_area_def)
  from a show "bl ! i \<notin> log_block S ` {..<LOGBLOCKS}" by (simp add: log_area_def)
  from a show "bl ! i \<noteq> log_block S i" "bl ! i \<noteq> i2u S" "i < LOGBLOCKS"
    "log_block S i \<notin> set bl"
    by (auto simp: log_area_def)
  show "log_block S i \<noteq> i2u S" by (rule log_block_inj(2) [OF a(3,2) a(2)])
qed

definition log_writes :: "int \<Rightarrow> u32 list \<Rightarrow> disk \<Rightarrow> nat \<Rightarrow> (u32 \<times> byte list) list" where
  "log_writes S bl D n = map (\<lambda>i. (log_block S i, D (bl ! i))) [0..<n]"

definition home_writes :: "int \<Rightarrow> u32 list \<Rightarrow> disk \<Rightarrow> nat \<Rightarrow> (u32 \<times> byte list) list" where
  "home_writes S bl D n = map (\<lambda>i. (bl ! i, D (log_block S i))) [0..<n]"

lemma writes_Suc:
  "log_writes S bl D 0 = []" "log_writes S bl D (Suc n) = log_writes S bl D n @ [(log_block S n, D (bl ! n))]"
  "home_writes S bl D 0 = []" "home_writes S bl D (Suc n) = home_writes S bl D n @ [(bl ! n, D (log_block S n))]"
  by (simp_all add: log_writes_def home_writes_def)

text \<open>The outcome of a part of the commit: it returns, and the disk writes it adds are \<open>ws\<close>.\<close>

definition writes :: "u32 \<Rightarrow> ('s logst_scheme \<Rightarrow> ('s logst_scheme, unit) kres) \<Rightarrow> 's logst_scheme \<Rightarrow>
    's logst_scheme \<Rightarrow> disk \<Rightarrow> (u32 \<Rightarrow> nat) \<Rightarrow> (u32 \<times> byte list) list \<Rightarrow> bool" where
  "writes d f s t D R ws \<longleftrightarrow> f s = ret () t \<and> cache d t (apply_writes ws D) R Map.empty \<and>
     disk t = apply_writes ws (disk s) \<and> disk_writes t = disk_writes s @ ws \<and> bcache.more t = bcache.more s"

lemma write_log_ok:
  assumes lg: "log_is d S bl s" and tr: "trans_ok S bl" and n: "length bl < NBUF"
    and c: "cache d s D (pins bl) Map.empty"
  shows "\<exists>t. writes d write_log s t D (pins bl) (log_writes S bl D (length bl))"
proof -
  let ?I = "\<lambda>i t. cache d t (apply_writes (log_writes S bl D i) D) (pins bl) Map.empty \<and>
     disk t = apply_writes (log_writes S bl D i) (disk s) \<and>
     disk_writes t = disk_writes s @ log_writes S bl D i \<and> bcache.more t = bcache.more s"
  have cap: "card {m. 0 < pins bl m} < NBUF" using card_pins [of bl] n by simp
  have "\<exists>t. forK [0..<length bl] write_log_block s = ret () t \<and> ?I (length bl) t"
  proof (rule forK_upt)
    fix i t assume i: "i < length bl" and I: "?I i t"
    note tk = trans_okD [OF tr i]
    have same: "apply_writes (log_writes S bl D i) D (bl ! i) = D (bl ! i)"
      by (rule apply_writes_other) (use tk(4,7) in \<open>auto simp: log_writes_def\<close>)
    have "log_is d S bl t" using lg log_frame(7) I by blast
    from write_log_step [OF this i, where D = "apply_writes (log_writes S bl D i) D" and R = "pins bl"]
    show "\<exists>u. write_log_block i t = ret () u \<and> ?I (Suc i) u"
      using I tk i cap by (auto simp: same pins_def writes_Suc)
  qed (use c in \<open>simp add: writes_Suc\<close>)
  then show ?thesis using lg by (simp add: writes_def write_log_def log_is_def)
qed

lemma install_trans_ok:
  assumes lg: "log_is d S bl s" and tr: "trans_ok S bl" and n: "recovering \<or> length bl < NBUF"
    and c: "cache d s D (if recovering then (\<lambda>_. 0) else pins bl) Map.empty"
  shows "\<exists>t. writes d (install_trans recovering) s t D (\<lambda>_. 0) (home_writes S bl D (length bl))"
proof -
  let ?R = "\<lambda>i. if recovering then (\<lambda>_. 0) else pins (drop i bl)"
  let ?I = "\<lambda>i t. cache d t (apply_writes (home_writes S bl D i) D) (?R i) Map.empty \<and>
     disk t = apply_writes (home_writes S bl D i) (disk s) \<and>
     disk_writes t = disk_writes s @ home_writes S bl D i \<and> bcache.more t = bcache.more s"
  have "\<exists>t. forK [0..<length bl] (install_block recovering) s = ret () t \<and> ?I (length bl) t"
  proof (rule forK_upt)
    fix i t assume i: "i < length bl" and I: "?I i t"
    note tk = trans_okD [OF tr i]
    have same: "apply_writes (home_writes S bl D i) D (log_block S i) = D (log_block S i)"
      by (rule apply_writes_other) (use tk(5) i in \<open>auto simp: home_writes_def\<close>)
    have lt: "log_is d S bl t" using lg log_frame(7) I by blast
    have cap: "card {m. 0 < ?R i m} < NBUF" using card_pins [of "drop i bl"] n by auto
    have R: "(?R i)(bl ! i := 0) = ?R (Suc i)"
      using pins_drop [OF _ i] tr by (auto simp: trans_ok_def)
    have R0: "?R i (log_block S i) = 0" using tk(5) by (auto simp: pins_def dest: in_set_dropD)
    have Ri: "if recovering then \<forall>m. ?R i m = 0 else ?R i (bl ! i) = 1"
      using i by (auto simp: pins_def Cons_nth_drop_Suc [symmetric])
    have ci: "cache d t (apply_writes (home_writes S bl D i) D) (?R i) Map.empty" using I by blast
    from install_step [OF lt i ci tk(2) [symmetric] R0 cap Ri]
    show "\<exists>u. install_block recovering i t = ret () u \<and> ?I (Suc i) u"
      using I unfolding R by (auto simp: same writes_Suc)
  qed (use c in \<open>auto simp: writes_Suc split: if_splits\<close>)
  moreover have "?R (length bl) = (\<lambda>_. 0)" by (auto simp: pins_def)
  ultimately show ?thesis using lg by (simp add: writes_def install_trans_def log_is_def)
qed

section \<open>Committing\<close>

definition commit_writes :: "int \<Rightarrow> u32 list \<Rightarrow> disk \<Rightarrow> (u32 \<times> byte list) list" where
  "commit_writes S bl D =
     (let h = head_bytes bl (D (i2u S))
      in log_writes S bl D (length bl) @ [(i2u S, h)] @ map (\<lambda>b. (b, D b)) bl @ [(i2u S, head_bytes [] h)])"

lemma writes_log_is: "writes d f s t D R ws \<Longrightarrow> log_is d S bl s \<Longrightarrow> log_is d S bl t"
  by (rule log_frame(7) [THEN iffD2]) (simp_all add: writes_def)

lemma log_is_clear:
  "log_is d S bl s \<Longrightarrow> log_is d S [] (s\<lparr>lh_n := 0\<rparr>)"
  by (simp add: log_is_def)

lemma cache_log [simp]:
  "cache d (s\<lparr>lh_n := n\<rparr>) D R H = cache d s D R H" "cache d (s\<lparr>lh_block := bl\<rparr>) D R H = cache d s D R H"
  "cache d (s\<lparr>log_outstanding := k\<rparr>) D R H = cache d s D R H" "cache d (s\<lparr>log_committing := k\<rparr>) D R H = cache d s D R H"
  by (simp_all add: cache_def runs_def buf_locks_def)

lemma apply_head:
  assumes "trans_ok S bl"
  shows "apply_writes (log_writes S bl D (length bl)) D (i2u S) = D (i2u S)"
    "i < length bl \<Longrightarrow> apply_writes (log_writes S bl D (length bl)) E (log_block S i) = D (bl ! i)"
proof -
  show "apply_writes (log_writes S bl D (length bl)) D (i2u S) = D (i2u S)"
    using trans_okD(6) [OF assms] by (intro apply_writes_other) (auto simp: log_writes_def, metis)
  have "apply_writes (log_writes S bl D n) E (log_block S i) = (if i < n then D (bl ! i) else E (log_block S i))"
    if "n \<le> length bl" "i < length bl" for n
    using that
  proof (induction n)
    case (Suc n)
    have "log_fits S" "n < LOGBLOCKS" "i < LOGBLOCKS" using assms Suc.prems by (auto simp: trans_ok_def)
    with Suc show ?case by (auto simp: writes_Suc log_block_inj less_Suc_eq)
  qed (simp add: writes_Suc)
  then show "i < length bl \<Longrightarrow> apply_writes (log_writes S bl D (length bl)) E (log_block S i) = D (bl ! i)"
    by simp
qed

lemma home_writes_map:
  assumes "\<And>i. i < length bl \<Longrightarrow> E (log_block S i) = D (bl ! i)"
  shows "home_writes S bl E (length bl) = map (\<lambda>b. (b, D b)) bl"
  by (rule nth_equalityI) (simp_all add: home_writes_def assms)

lemma commit_ok:
  assumes lg: "log_is d S bl s" and tr: "trans_ok S bl" and n: "length bl < NBUF" "bl \<noteq> []"
    and c: "cache d s D (pins bl) Map.empty"
  shows "\<exists>t. commit s = ret () t \<and> cache d t (apply_writes (commit_writes S bl D) D) (\<lambda>_. 0) Map.empty \<and>
    disk t = apply_writes (commit_writes S bl D) (disk s) \<and>
    disk_writes t = disk_writes s @ commit_writes S bl D \<and> bcache.more t = bcache.more (s\<lparr>lh_n := 0\<rparr>)"
proof -
  let ?w1 = "log_writes S bl D (length bl)" and ?h = "head_bytes bl (D (i2u S))"
  obtain s1 where s1: "writes d write_log s s1 D (pins bl) ?w1" using write_log_ok [OF lg tr n(1) c] by blast
  have lg1: "log_is d S bl s1" by (rule writes_log_is [OF s1 lg])
  have hb: "i2u S \<notin> set bl" using tr by (auto simp: trans_ok_def log_area_def)
  have cap: "card {m. 0 < pins bl m} < NBUF" using card_pins [of bl] n by simp
  have "\<exists>s2. writes d write_head s1 s2 (apply_writes ?w1 D) (pins bl) [(i2u S, ?h)]"
    using write_head_ok [OF lg1, of "apply_writes ?w1 D" "pins bl"] s1 hb cap apply_head(1) [OF tr]
    by (auto simp: writes_def pins_def)
  then obtain s2 where s2: "writes d write_head s1 s2 (apply_writes ?w1 D) (pins bl) [(i2u S, ?h)]" by blast
  let ?D2 = "(apply_writes ?w1 D)(i2u S := ?h)"
  have lg2: "log_is d S bl s2" by (rule writes_log_is [OF s2 lg1])
  have hw: "home_writes S bl ?D2 (length bl) = map (\<lambda>b. (b, D b)) bl"
    by (rule home_writes_map) (use trans_okD(6) [OF tr] apply_head(2) [OF tr] in auto)
  obtain s3 where s3: "writes d (install_trans False) s2 s3 ?D2 (\<lambda>_. 0) (map (\<lambda>b. (b, D b)) bl)"
    using install_trans_ok [OF lg2 tr, of False ?D2] n(1) s2 hw by (auto simp: writes_def)
  let ?D3 = "apply_writes (map (\<lambda>b. (b, D b)) bl) ?D2"
  have lg3: "log_is d S [] (s3\<lparr>lh_n := 0\<rparr>)"
    by (rule log_is_clear [OF writes_log_is [OF s3 lg2]])
  have hd3: "?D3 (i2u S) = ?h"
    by (subst apply_writes_other) (use hb in auto)
  have "\<exists>s4. writes d write_head (s3\<lparr>lh_n := 0\<rparr>) s4 ?D3 (\<lambda>_. 0) [(i2u S, head_bytes [] ?h)]"
    using write_head_ok [OF lg3, of ?D3 "\<lambda>_. 0"] s3 hd3 by (auto simp: writes_def)
  then obtain s4 where s4: "writes d write_head (s3\<lparr>lh_n := 0\<rparr>) s4 ?D3 (\<lambda>_. 0) [(i2u S, head_bytes [] ?h)]" by blast
  have more: "bcache.more (s3\<lparr>lh_n := 0\<rparr>) = bcache.more (s\<lparr>lh_n := 0\<rparr>)"
    using s1 s2 s3 by (cases s; cases s3) (simp add: writes_def)
  have "0 < lh_n s" using lg n(2) by (simp add: log_is_def)
  then have "commit s = ret () s4"
    using s1 s2 s3 s4 by (simp add: commit_def writes_def)
  then show ?thesis
    using s1 s2 s3 s4 more by (auto simp: writes_def commit_writes_def Let_def)
qed

end
