(* ===== verification/Log_Trans.thy ===== *)
theory Log_Trans
  imports Log_Commit
begin

text \<open>
  What the file system may rely on while a transaction is open: it reads and changes the blocks
  of an array \<open>D\<close>, and each changed block joins the list \<open>bl\<close> of the log. The disk does not
  change before the commit.
\<close>

section \<open>Handing a block to the log\<close>

text \<open>The blocks of the log after a list of changes.\<close>

definition log_add :: "u32 \<Rightarrow> u32 list \<Rightarrow> u32 list" where
  "log_add bn bl = (if bn \<in> set bl then bl else bl @ [bn])"

lemma log_add_simps: "set (log_add bn bl) = insert bn (set bl)" "distinct bl \<Longrightarrow> distinct (log_add bn bl)"
  by (auto simp: log_add_def)

lemma find_block:
  assumes "log_is d S bl s"
  shows "find (\<lambda>i. i2u (lh_block s ! i) = bn) [0..<length bl] = find (\<lambda>i. bl ! i = bn) [0..<length bl]"
  using assms by (intro find_cong) (auto simp: log_is_def)

lemma find_index:
  assumes "bn \<in> set bl"
  shows "\<exists>i. find (\<lambda>i. bl ! i = bn) [0..<length bl] = Some i \<and> i < length bl \<and> bl ! i = bn"
proof -
  have "\<exists>j \<in> set [0..<length bl]. bl ! j = bn" using assms by (simp add: in_set_conv_nth Bex_def)
  from find_ex [OF this] obtain i where i: "find (\<lambda>i. bl ! i = bn) [0..<length bl] = Some i" by blast
  with find_Some_set [OF i] show ?thesis by (intro exI [of _ i]) simp
qed

lemma log_held:
  fixes s :: "'s logst_scheme"
  assumes "held s = []"
  shows "s\<lparr>lh_block := x, held := []\<rparr> = s\<lparr>lh_block := x\<rparr>"
    "s\<lparr>lh_block := x, bufs := bs, lh_n := n, held := []\<rparr> = s\<lparr>lh_block := x, bufs := bs, lh_n := n\<rparr>"
    "s\<lparr>log_outstanding := k, held := []\<rparr> = s\<lparr>log_outstanding := k\<rparr>"
    "s\<lparr>log_outstanding := k, log_committing := m, held := []\<rparr> = s\<lparr>log_outstanding := k, log_committing := m\<rparr>"
  using assms by (cases s; simp)+

lemma log_write_ok:
  assumes lg: "log_is d S bl s" and c: "cache d s D R H" and b: "H b = Some bn"
    and n: "length bl < LOGBLOCKS" "1 \<le> log_outstanding s" "Suc (R bn) < 2 ^ 32"
  shows "\<exists>t. log_write b s = ret () t \<and> log_is d S (log_add bn bl) t \<and>
    cache d t D (if bn \<in> set bl then R else R(bn := Suc (R bn))) H \<and> disk t = disk s \<and>
    disk_writes t = disk_writes s \<and> log_outstanding t = log_outstanding s \<and>
    log_committing t = log_committing s \<and> logst.more t = logst.more s"
proof -
  have h: "held s = []" using c by (auto simp: cache_def runs_def)
  have bb: "b_blockno (buf_at s b) = bn" using cache_data(2) [OF c b] .
  have l: "lh_n s = int (length bl)" "length (lh_block s) = LOGBLOCKS" using lg by (auto simp: log_is_def)
  note find = find_block [OF lg]
  show ?thesis
  proof (cases "bn \<in> set bl")
    case True
    from find_index [OF this] obtain i
      where i: "find (\<lambda>i. bl ! i = bn) [0..<length bl] = Some i" "i < length bl" "bl ! i = bn" by blast
    let ?t = "s\<lparr>lh_block := (lh_block s)[i := sint bn]\<rparr>"
    have "log_write b s = ret () ?t"
      using h bb l n(1,2) i(1,2) by (simp add: log_write_def kres_simps find Let_def log_held)
    moreover have "log_is d S bl ?t"
      using lg i by (auto simp: log_is_def nth_list_update)
    ultimately show ?thesis using True c by (simp add: log_add_def)
  next
    case False
    then have f: "find (\<lambda>i. bl ! i = bn) [0..<length bl] = None" by (auto simp: find_None_iff)
    let ?f = "\<lambda>x. x\<lparr>b_refcnt := b_refcnt x + 1\<rparr>"
    let ?u = "s\<lparr>lh_block := (lh_block s)[length bl := sint bn]\<rparr>"
    let ?t = "upd_buf b ?f ?u\<lparr>lh_n := lh_n s + 1\<rparr>"
    have cu: "cache d ?u D R H" using c by simp
    have "log_write b s = ret () ?t"
      using h bb l n(1,2) by (simp add: log_write_def kres_simps find f Let_def bpin_eq upd_buf_def log_held)
    moreover have "log_is d S (bl @ [bn]) ?t"
      using lg n(1) by (auto simp: log_is_def upd_buf_def nth_append less_Suc_eq)
    ultimately show ?thesis using False bpin_ok [OF cu b n(3)] by (simp add: log_add_def upd_buf_def)
  qed
qed

section \<open>Blocks in a transaction\<close>

definition in_trans :: "u32 \<Rightarrow> int \<Rightarrow> disk \<Rightarrow> u32 list \<Rightarrow> 's logst_scheme \<Rightarrow> bool" where
  "in_trans d S D bl s \<longleftrightarrow> log_is d S bl s \<and> cache d s D (pins bl) Map.empty \<and> 1 \<le> log_outstanding s"

definition trans_frame :: "'s logst_scheme \<Rightarrow> 's logst_scheme \<Rightarrow> bool" where
  "trans_frame s t \<longleftrightarrow> logst.more t = logst.more s \<and> disk t = disk s \<and> disk_writes t = disk_writes s \<and>
     log_outstanding t = log_outstanding s \<and> log_committing t = log_committing s"

lemma trans_frame_refl [simp]: "trans_frame s s"
  by (simp add: trans_frame_def)

lemma trans_frame_trans: "trans_frame s t \<Longrightarrow> trans_frame t u \<Longrightarrow> trans_frame s u"
  by (simp add: trans_frame_def)

lemma pins_Nil: "pins [] = (\<lambda>_. 0)"
  by (auto simp: pins_def)

lemma more_frame:
  fixes s t :: "'s logst_scheme"
  shows "bcache.more t = bcache.more s \<Longrightarrow> logst.more t = logst.more s"
  by (cases s; cases t) simp

text \<open>A block is read; then its buffer is released, or changed, logged and released.\<close>

lemma trans_buffer:
  assumes tr: "in_trans d S D bl s" and n: "length bl < LOGBLOCKS"
  obtains b s1 where "bread d bn s = ret b s1" "b_data (buf_at s1 b) = D bn" "logst.more s1 = logst.more s"
    "\<exists>t. brelse b s1 = ret () t \<and> in_trans d S D bl t \<and> trans_frame s t"
    "\<And>f. length (f (D bn)) = BSIZE \<Longrightarrow> \<exists>u t. log_write b (upd_data b f s1) = ret () u \<and> logst.more u = logst.more s \<and>
       brelse b u = ret () t \<and> in_trans d S (D(bn := f (D bn))) (log_add bn bl) t \<and> trans_frame s t"
proof -
  have lg: "log_is d S bl s" and c: "cache d s D (pins bl) Map.empty" and o: "1 \<le> log_outstanding s"
    using tr by (simp_all add: in_trans_def)
  have cap: "0 < pins bl bn \<or> card {m. 0 < pins bl m} < NBUF" using card_pins [of bl] n by simp
  have small: "Suc (pins bl bn) < 2 ^ 32" "Suc (Suc (pins bl bn)) < 2 ^ 32" by (auto simp: pins_def)
  let ?P = "(pins bl)(bn := Suc (pins bl bn))"
  obtain b s1 where s1: "bread d bn s = ret b s1" "cache d s1 D ?P [b \<mapsto> bn]"
    "disk s1 = disk s" "disk_writes s1 = disk_writes s" "bcache.more s1 = bcache.more s"
    using bread_ok [OF c _ cap small(1)] cache_only_more by auto
  note f1 = log_frame [OF s1(5)] and m1 = more_frame [OF s1(5)]
  have clean: "1 < ?P bn \<or> D bn = disk s1 bn"
    using cache_clean [OF c, of bn] s1(3) by (auto simp: pins_def)
  obtain t where t: "brelse b s1 = ret () t" "cache d t D (?P(bn := ?P bn - 1)) Map.empty" "disk t = disk s1"
    "disk_writes t = disk_writes s1" "bcache.more t = bcache.more s1"
    using brelse_ok [OF s1(2), of b bn] clean cache_only_more by auto
  have "in_trans d S D bl t" "trans_frame s t"
    using t lg o log_frame(5-7) [OF t(5)] f1 m1 more_frame [OF t(5)] s1(3,4) by (simp_all add: in_trans_def trans_frame_def)
  then have 1: "\<exists>t. brelse b s1 = ret () t \<and> in_trans d S D bl t \<and> trans_frame s t" using t(1) by blast
  have 2: "\<exists>u t. log_write b (upd_data b f s1) = ret () u \<and> logst.more u = logst.more s \<and>
       brelse b u = ret () t \<and> in_trans d S (D(bn := f (D bn))) (log_add bn bl) t \<and> trans_frame s t"
    if "length (f (D bn)) = BSIZE" for f
  proof -
    have hb: "[b \<mapsto> bn] b = Some bn" by simp
    note u = upd_data_ok [OF s1(2) hb, of f, OF that]
    let ?s2 = "upd_data b f s1" and ?D = "D(bn := f (D bn))"
    have m2: "bcache.more ?s2 = bcache.more s" using u(4) s1(5) cache_only_more by fastforce
    have lg2: "log_is d S bl ?s2" using log_frame(7) [OF m2] lg by blast
    have c2: "cache d ?s2 ?D ?P [b \<mapsto> bn]" by (rule u(1))
    let ?Q = "if bn \<in> set bl then ?P else (pins bl)(bn := Suc (Suc (pins bl bn)))"
    obtain s3 where s3: "log_write b ?s2 = ret () s3" "log_is d S (log_add bn bl) s3"
      "cache d s3 ?D ?Q [b \<mapsto> bn]" "disk s3 = disk s" "disk_writes s3 = disk_writes s"
      "log_outstanding s3 = log_outstanding s" "log_committing s3 = log_committing s" "logst.more s3 = logst.more s"
      using log_write_ok [OF lg2 c2, of b bn] n o small(2) log_frame(5,6) [OF m2] more_frame [OF m2] u(2,3) s1(3,4)
      by (auto cong: if_cong)
    have Q: "?Q bn = 2" "?Q(bn := 1) = pins (log_add bn bl)"
      by (auto simp: log_add_def pins_def)
    obtain t where t: "brelse b s3 = ret () t" "cache d t ?D (?Q(bn := ?Q bn - 1)) Map.empty"
      "disk t = disk s3" "disk_writes t = disk_writes s3" "bcache.more t = bcache.more s3"
      using brelse_ok [OF s3(3), of b bn] Q(1) cache_only_more by auto
    have "cache d t ?D (pins (log_add bn bl)) Map.empty" using t(2) Q by simp
    then have "in_trans d S ?D (log_add bn bl) t" "trans_frame s t"
      using s3 t o log_frame(5-7) [OF t(5)] more_frame [OF t(5)] by (simp_all add: in_trans_def trans_frame_def)
    then show ?thesis using s3 t(1) by blast
  qed
  show ?thesis
    by (rule that [OF s1(1) _ m1 1 2]) (use cache_data(1) [OF s1(2), of b bn] in simp_all)
qed

end
