(* ===== verification/Crash.thy ===== *)
theory Crash
  imports Log_Trans
begin

text \<open>
  Crash safety of the file system log, \<^verbatim>\<open>kernel/log.c\<close>. A crash leaves the effect of a prefix of
  the disk writes. What matters of a disk is its view, the blocks with the committed
  transaction of the log installed. Recovery installs it, at whatever point an earlier
  recovery stopped, and a transaction changes the view in one step, the write of the header.
\<close>

section \<open>The view of a disk\<close>

definition head_list :: "byte list \<Rightarrow> u32 list" where
  "head_list d = map (\<lambda>i. get32 d (4 + 4 * i)) [0..<nat (sint (get32 d 0))]"

definition head_ok :: "int \<Rightarrow> disk \<Rightarrow> bool" where
  "head_ok S X \<longleftrightarrow> trans_ok S (head_list (X (i2u S))) \<and> 0 \<le> sint (get32 (X (i2u S)) 0)"

definition log_view :: "int \<Rightarrow> disk \<Rightarrow> disk" where
  "log_view S X = (let bl = head_list (X (i2u S)) in apply_writes (home_writes S bl X (length bl)) X)"

text \<open>The writes of a recovery.\<close>

definition recover_writes :: "int \<Rightarrow> disk \<Rightarrow> (u32 \<times> byte list) list" where
  "recover_writes S X =
     (let bl = head_list (X (i2u S))
      in home_writes S bl X (length bl) @ [(i2u S, head_bytes [] (X (i2u S)))])"

lemma head_list_bytes:
  assumes "length d = BSIZE" "length bl \<le> LOGBLOCKS"
  shows "head_list (head_bytes bl d) = bl" "0 \<le> sint (get32 (head_bytes bl d) 0)"
proof -
  have "sint (of_nat (length bl) :: u32) = int (length bl)"
    using assms(2) by (simp add: signed_of_nat signed_take_bit_int_eq_self)
  then have n: "sint (get32 (head_bytes bl d) 0) = int (length bl)"
    using head_bytes_get(2) [OF assms] by simp
  show "head_list (head_bytes bl d) = bl"
    by (rule nth_equalityI) (simp_all add: head_list_def n head_bytes_get(3) [OF assms])
  show "0 \<le> sint (get32 (head_bytes bl d) 0)" by (simp add: n)
qed

lemma apply_home:
  assumes "distinct bl" "n \<le> length bl" "i < n"
  shows "apply_writes (home_writes S bl X n) Y (bl ! i) = X (log_block S i)"
  using assms(2,3)
proof (induction n)
  case (Suc n)
  then show ?case
    using assms(1) by (auto simp: writes_Suc less_Suc_eq nth_eq_iff_index_eq)
qed simp

lemma apply_home_other: "bn \<notin> set (take n bl) \<Longrightarrow> n \<le> length bl \<Longrightarrow> apply_writes (home_writes S bl X n) Y bn = Y bn"
  by (rule apply_writes_other) (auto simp: home_writes_def in_set_conv_nth)

text \<open>The view block by block.\<close>

lemma log_view_at:
  assumes "trans_ok S (head_list (X (i2u S)))"
  shows "i < length (head_list (X (i2u S))) \<Longrightarrow> log_view S X (head_list (X (i2u S)) ! i) = X (log_block S i)"
    "bn \<notin> set (head_list (X (i2u S))) \<Longrightarrow> log_view S X bn = X bn"
  using assms unfolding log_view_def Let_def
  by (auto simp: trans_ok_def intro: apply_home apply_home_other)

text \<open>Two disks with the same header have the same view if they agree on the log and elsewhere outside the transaction.\<close>

lemma log_view_cong:
  assumes "trans_ok S bl" "head_list (X (i2u S)) = bl" "head_list (Y (i2u S)) = bl"
    "\<And>i. i < length bl \<Longrightarrow> X (log_block S i) = Y (log_block S i)"
    "bn \<notin> set bl \<Longrightarrow> X bn = Y bn"
  shows "log_view S X bn = log_view S Y bn"
proof (cases "bn \<in> set bl")
  case True
  then obtain i where "i < length bl" "bn = bl ! i" by (auto simp: in_set_conv_nth)
  then show ?thesis using log_view_at(1) [of S X i] log_view_at(1) [of S Y i] assms by simp
next
  case False
  then show ?thesis using log_view_at(2) [of S X bn] log_view_at(2) [of S Y bn] assms by simp
qed

lemma log_view_none: "head_list (X (i2u S)) = [] \<Longrightarrow> log_view S X = X"
  by (simp add: log_view_def home_writes_def)

section \<open>Recovery\<close>

lemma recovery_steps_keep_view:
  fixes k :: nat
  assumes "head_ok S X" "\<And>n. length (X n) = BSIZE" "bn \<notin> log_area S"
  defines "Y \<equiv> apply_writes (take k (recover_writes S X)) X"
  shows "head_ok S Y \<and> log_view S Y bn = log_view S X bn"
proof -
  let ?bl = "head_list (X (i2u S))"
  let ?n = "length ?bl"
  have tr: "trans_ok S ?bl" using assms(1) by (simp add: head_ok_def)
  have hb: "i2u S \<notin> set ?bl" using tr by (auto simp: trans_ok_def log_area_def)
  show ?thesis
  proof (cases "k \<le> ?n")
    case True
    have Y: "Y = apply_writes (home_writes S ?bl X k) X"
      using True by (simp add: Y_def recover_writes_def Let_def home_writes_def take_map)
    have "Y (i2u S) = X (i2u S)"
      unfolding Y by (rule apply_home_other) (use hb True in \<open>auto dest: in_set_takeD\<close>)
    moreover have "Y (log_block S i) = X (log_block S i)" if "i < ?n" for i
      unfolding Y by (rule apply_home_other) (use trans_okD(5) [OF tr that] True in \<open>auto dest: in_set_takeD\<close>)
    moreover have "Y bn = X bn" if "bn \<notin> set ?bl"
      unfolding Y by (rule apply_home_other) (use that True in \<open>auto dest: in_set_takeD\<close>)
    ultimately show ?thesis
      using assms(1) log_view_cong [OF tr, of Y X bn] by (simp add: head_ok_def)
  next
    case False
    then have Y: "Y = (log_view S X)(i2u S := head_bytes [] (X (i2u S)))"
      by (simp add: Y_def recover_writes_def log_view_def Let_def home_writes_def)
    have "head_list (Y (i2u S)) = []" "0 \<le> sint (get32 (Y (i2u S)) 0)"
      using head_list_bytes [OF assms(2), of "[]"] by (simp_all add: Y)
    then show ?thesis
      using tr assms(3) log_view_none [of Y S] by (auto simp: head_ok_def trans_ok_def Y log_area_def)
  qed
qed

lemma read_head_ok:
  assumes "cache d s X (\<lambda>_. 0) Map.empty" "i2u (log_dev s) = d" "log_start s = S"
    "length (lh_block s) = LOGBLOCKS" "head_ok S X"
  shows "\<exists>t. read_head s = ret () t \<and> cache d t X (\<lambda>_. 0) Map.empty \<and> log_is d S (head_list (X (i2u S))) t \<and>
    disk t = disk s \<and> disk_writes t = disk_writes s"
proof -
  let ?a = "i2u S"
  define n where "n = sint (get32 (X ?a) 0)"
  have n: "0 \<le> n" "n \<le> int LOGBLOCKS" "length (head_list (X ?a)) = nat n"
    using assms(5) by (auto simp: n_def head_ok_def trans_ok_def head_list_def)
  obtain b s1 where s1: "bread d ?a s = ret b s1" "cache d s1 X ((\<lambda>_. 0)(?a := 1)) [b \<mapsto> ?a]" "disk s1 = disk s"
    "disk_writes s1 = disk_writes s" "bcache.more s1 = bcache.more s"
    using bread_ok [OF assms(1), of ?a] cache_only_more by auto
  let ?s2 = "s1\<lparr>lh_n := n, lh_block := map (\<lambda>i. sint (get32 (X ?a) (4 + 4 * i))) [0..<nat n] @ drop (nat n) (lh_block s1)\<rparr>"
  have c2: "cache d ?s2 X ((\<lambda>_. 0)(?a := 1)) [b \<mapsto> ?a]" using s1(2) by simp
  have "X ?a = disk s1 ?a" using cache_clean [OF assms(1)] s1(3) by simp
  then obtain t where t: "brelse b ?s2 = ret () t" "cache d t X (\<lambda>_. 0) Map.empty" "disk t = disk s"
    "disk_writes t = disk_writes s" "bcache.more t = bcache.more ?s2"
    using brelse_ok [OF c2, of b ?a] s1(3,4) cache_only_more by (auto simp: fun_upd_idem)
  have "b_data (buf_at s1 b) = X ?a" using cache_data(1) [OF s1(2)] by simp
  then have "read_head s = ret () t"
    using s1(1) t(1) assms(2,3) n(1,2) by (simp add: read_head_def n_def [symmetric] Let_def)
  moreover have "log_is d S (head_list (X ?a)) ?s2"
    using assms(2-4) log_frame [OF s1(5)] n
    by (auto simp: log_is_def nth_append head_list_def n_def)
  then have "log_is d S (head_list (X ?a)) t" using log_frame(7) [OF t(5)] by blast
  ultimately show ?thesis using t by blast
qed

lemma recover_ok:
  assumes "cache d s X (\<lambda>_. 0) Map.empty" "i2u (log_dev s) = d" "log_start s = S"
    "length (lh_block s) = LOGBLOCKS" "head_ok S X"
  defines "ws \<equiv> recover_writes S X"
  shows "\<exists>t. recover_from_log s = ret () t \<and> cache d t (apply_writes ws X) (\<lambda>_. 0) Map.empty \<and> log_is d S [] t \<and>
    disk t = apply_writes ws (disk s) \<and> disk_writes t = disk_writes s @ ws"
proof -
  let ?a = "i2u S"
  let ?bl = "head_list (X ?a)"
  have tr: "trans_ok S ?bl" using assms(5) by (simp add: head_ok_def)
  obtain s1 where s1: "read_head s = ret () s1" "cache d s1 X (\<lambda>_. 0) Map.empty" "log_is d S ?bl s1"
    "disk s1 = disk s" "disk_writes s1 = disk_writes s"
    using read_head_ok [OF assms(1-5)] by blast
  let ?w = "home_writes S ?bl X (length ?bl)"
  obtain s2 where s2: "writes d (install_trans True) s1 s2 X (\<lambda>_. 0) ?w"
    using install_trans_ok [OF s1(3) tr, of True X] s1(2) by auto
  have lg: "log_is d S [] (s2\<lparr>lh_n := 0\<rparr>)" by (rule log_is_clear [OF writes_log_is [OF s2 s1(3)]])
  have hd: "apply_writes ?w X ?a = X ?a"
    by (rule apply_home_other) (use tr in \<open>auto simp: trans_ok_def log_area_def\<close>)
  have "\<exists>s3. writes d write_head (s2\<lparr>lh_n := 0\<rparr>) s3 (apply_writes ?w X) (\<lambda>_. 0) [(?a, head_bytes [] (X ?a))]"
    using write_head_ok [OF lg, of "apply_writes ?w X" "\<lambda>_. 0"] s2 hd by (auto simp: writes_def)
  then obtain s3 where s3: "writes d write_head (s2\<lparr>lh_n := 0\<rparr>) s3 (apply_writes ?w X) (\<lambda>_. 0) [(?a, head_bytes [] (X ?a))]"
    by blast
  have "recover_from_log s = ret () s3" using s1(1) s2 s3 by (simp add: recover_from_log_def writes_def)
  then show ?thesis
    using s1 s2 s3 writes_log_is [OF s3 lg] by (simp add: writes_def ws_def recover_writes_def Let_def)
qed

section \<open>A transaction\<close>

text \<open>
  How the file system changes a block, and a transaction of such changes: read the block,
  change the buffer, hand it to the log, release it.
\<close>

definition trans_write :: "u32 \<Rightarrow> u32 \<times> byte list \<Rightarrow> 's logst_scheme \<Rightarrow> ('s logst_scheme, unit) kres" where
  "trans_write d u s =
     bindK (bread d (fst u) s) (\<lambda>b s.
     bindK (log_write b (upd_data b (\<lambda>_. snd u) s)) (\<lambda>_ s.
       brelse b s))"

definition transaction :: "u32 \<Rightarrow> (u32 \<times> byte list) list \<Rightarrow> 's logst_scheme \<Rightarrow> ('s logst_scheme, unit) kres" where
  "transaction d us s =
     bindK (begin_op s) (\<lambda>_ s. bindK (forK us (trans_write d) s) (\<lambda>_ s. end_op s))"

lemma trans_write_ok:
  assumes "in_trans d S D bl s" "length bl < LOGBLOCKS" "length v = BSIZE"
  shows "\<exists>t. trans_write d (bn, v) s = ret () t \<and> in_trans d S (D(bn := v)) (log_add bn bl) t \<and> trans_frame s t"
proof -
  obtain b s1 where b: "bread d bn s = ret b s1"
    "\<And>f. length (f (D bn)) = BSIZE \<Longrightarrow> \<exists>u t. log_write b (upd_data b f s1) = ret () u \<and> logst.more u = logst.more s \<and>
       brelse b u = ret () t \<and> in_trans d S (D(bn := f (D bn))) (log_add bn bl) t \<and> trans_frame s t"
    by (rule trans_buffer [OF assms(1,2)]) blast
  show ?thesis using b(1) b(2) [of "\<lambda>_. v"] assms(3) by (auto simp: trans_write_def)
qed

text \<open>All changes of a transaction.\<close>

definition log_of :: "(u32 \<times> byte list) list \<Rightarrow> u32 list" where
  "log_of us = fold (\<lambda>u. log_add (fst u)) us []"

lemma log_of_snoc: "log_of (us @ [u]) = log_add (fst u) (log_of us)" "log_of [] = []"
  by (simp_all add: log_of_def)

lemma log_of_set: "set (log_of us) = fst ` set us" "distinct (log_of us)"
  by (induction us rule: rev_induct) (auto simp: log_of_snoc log_add_simps)

lemma length_log_of: "length (log_of us) = card (fst ` set us)"
  using distinct_card [OF log_of_set(2)] log_of_set(1) by metis

lemma forK_append: "forK (xs @ ys) f s = bindK (forK xs f s) (\<lambda>_ s. forK ys f s)"
proof (induction xs arbitrary: s)
  case (Cons x xs)
  then show ?case by (cases "f x s") auto
qed simp

lemma trans_writes_ok:
  assumes tr: "in_trans d S D [] s"
    and us: "\<forall>u \<in> set us. length (snd u) = BSIZE" "us = [] \<or> card (fst ` set (butlast us)) < LOGBLOCKS"
  shows "\<exists>t. forK us (trans_write d) s = ret () t \<and> in_trans d S (apply_writes us D) (log_of us) t \<and> trans_frame s t"
  using us
proof (induction us rule: rev_induct)
  case Nil
  then show ?case using tr by (simp add: log_of_snoc)
next
  case (snoc u us)
  have lt: "card (fst ` set us) < LOGBLOCKS" using snoc.prems(2) by simp
  have "card (fst ` set (butlast us)) \<le> card (fst ` set us)"
    by (intro card_mono image_mono) (auto dest: in_set_butlastD)
  with lt obtain t where t: "forK us (trans_write d) s = ret () t"
    "in_trans d S (apply_writes us D) (log_of us) t" "trans_frame s t"
    using snoc by auto
  have "length (log_of us) < LOGBLOCKS" using lt by (simp add: length_log_of)
  from trans_write_ok [OF t(2) this, of "snd u" "fst u"]
  show ?case using t snoc.prems(1) by (cases u) (auto simp: forK_append log_of_snoc fun_upd_def intro: trans_frame_trans)
qed

section \<open>Beginning and ending a transaction\<close>

lemma begin_op_ok:
  assumes "log_is d S [] s" "cache d s D R H" "log_outstanding s = 0" "log_committing s = 0"
  shows "begin_op s = ret () (s\<lparr>log_outstanding := 1\<rparr>)"
proof -
  have "held s = []" using assms(2) by (auto simp: cache_def runs_def)
  then show ?thesis
    using assms by (simp add: begin_op_def begin_op_loop_def kres_simps log_is_def log_held)
qed

lemma cache_wakeup:
  assumes "cache d s D R H" and lk: "\<And>i. lk \<noteq> Proc_lock i"
  shows "\<exists>ps. wakeup chn (s\<lparr>held := [lk]\<rparr>) = ret () (s\<lparr>held := [lk], procs := ps\<rparr>) \<and>
     cache d (s\<lparr>procs := ps\<rparr>) D R H"
proof -
  obtain p where p: "runs p s" "buf_locks p s H" using assms(1) by (auto simp: cache_def)
  let ?ps = "map (\<lambda>i. (if curproc s = Some i then (\<lambda>q. q) else wake chn) (proc_at s i)) [0..<length (procs s)]"
  have "wakeup chn (s\<lparr>held := [lk]\<rparr>) = ret () (s\<lparr>held := [lk], procs := ?ps\<rparr>)"
    using p(1) lk by (subst wakeup_eq) (auto simp: runs_def upd_all_def)
  moreover have "same_pids (procs s) ?ps" by (simp add: same_pids_def wake_def)
  then have "runs p (s\<lparr>procs := ?ps\<rparr>)" "buf_locks p (s\<lparr>procs := ?ps\<rparr>) H"
    using p by (auto simp: runs_def same_pids_def buf_locks_def)
  then have "cache d (s\<lparr>procs := ?ps\<rparr>) D R H" using assms(1) by (auto simp: cache_def)
  ultimately show ?thesis by blast
qed

lemma end_op_ok:
  assumes lg: "log_is d S bl s" and tr: "trans_ok S bl" and n: "length bl < NBUF"
    and c: "cache d s D (pins bl) Map.empty" and o: "log_outstanding s = 1" "log_committing s = 0"
  defines "ws \<equiv> if bl = [] then [] else commit_writes S bl D"
  shows "\<exists>t. end_op s = ret () t \<and> released d t (apply_writes ws D) \<and> disk t = apply_writes ws (disk s) \<and>
    disk_writes t = disk_writes s @ ws \<and> log_is d S [] t \<and> log_outstanding t = 0 \<and> log_committing t = 0"
proof -
  have h: "held s = []" using c by (auto simp: cache_def runs_def)
  let ?s1 = "s\<lparr>log_outstanding := 0, log_committing := 1\<rparr>"
  have c1: "cache d ?s1 D (pins bl) Map.empty" and lg1: "log_is d S bl ?s1" using c lg by (simp_all add: log_is_def)
  have "\<exists>t. commit ?s1 = ret () t \<and> cache d t (apply_writes ws D) (\<lambda>_. 0) Map.empty \<and>
    disk t = apply_writes ws (disk s) \<and> disk_writes t = disk_writes s @ ws \<and>
    bcache.more t = bcache.more (?s1\<lparr>lh_n := 0\<rparr>)"
  proof (cases "bl = []")
    case True
    have "pins [] = (\<lambda>_. 0)" by (auto simp: pins_def)
    then show ?thesis using True lg c1 by (cases s) (auto simp: ws_def commit_def log_is_def)
  next
    case False
    then show ?thesis using commit_ok [OF lg1 tr n False c1] by (simp add: ws_def)
  qed
  then obtain t where t: "commit ?s1 = ret () t" "cache d t (apply_writes ws D) (\<lambda>_. 0) Map.empty"
    "disk t = apply_writes ws (disk s)" "disk_writes t = disk_writes s @ ws"
    "bcache.more t = bcache.more (?s1\<lparr>lh_n := 0\<rparr>)" by blast
  have ct: "cache d (t\<lparr>log_committing := 0\<rparr>) (apply_writes ws D) (\<lambda>_. 0) Map.empty" using t(2) by simp
  obtain ps where ps: "wakeup (Some Chan_log) (t\<lparr>log_committing := 0, held := [Log_lock]\<rparr>) =
      ret () (t\<lparr>log_committing := 0, held := [Log_lock], procs := ps\<rparr>)"
    "cache d (t\<lparr>log_committing := 0, procs := ps\<rparr>) (apply_writes ws D) (\<lambda>_. 0) Map.empty"
    using cache_wakeup [OF ct, of Log_lock "Some Chan_log"] by auto
  have ht: "held t = []" using t(2) by (auto simp: cache_def runs_def)
  have comm: "t\<lparr>held := [Log_lock], log_committing := 0\<rparr> = t\<lparr>log_committing := 0, held := [Log_lock]\<rparr>"
    "t\<lparr>log_committing := 0, procs := ps, held := []\<rparr> = t\<lparr>log_committing := 0, procs := ps\<rparr>"
    using ht by (cases t; simp)+
  have "end_op s = ret () (t\<lparr>log_committing := 0, procs := ps\<rparr>)"
    using h o t(1) ht ps(1) by (simp add: end_op_def kres_simps Let_def log_held comm)
  moreover have "log_is d S [] (t\<lparr>log_committing := 0, procs := ps\<rparr>)"
    using lg log_frame(1-4) [OF t(5)] by (simp add: log_is_def)
  ultimately show ?thesis
    using ps(2) t log_frame(5,6) [OF t(5)] by (simp add: released_def)
qed

section \<open>A transaction is atomic\<close>

lemma apply_map: "apply_writes (map (\<lambda>b. (b, D b)) bs) E bn = (if bn \<in> set bs then D bn else E bn)"
  by (induction bs arbitrary: E) auto

lemma commit_steps_view:
  fixes k :: nat
  assumes tr: "trans_ok S bl" and hd: "head_list (dk (i2u S)) = []" "0 \<le> sint (get32 (dk (i2u S)) 0)"
    and len: "length (D (i2u S)) = BSIZE" and same: "\<And>n. n \<notin> set bl \<Longrightarrow> D n = dk n" and bn: "bn \<notin> log_area S"
  defines "Y \<equiv> apply_writes (take k (commit_writes S bl D)) dk"
  shows "head_ok S Y \<and> log_view S Y bn = (if k \<le> length bl then dk bn else D bn)"
proof -
  let ?n = "length bl" and ?h = "head_bytes bl (D (i2u S))" and ?lw = "log_writes S bl D"
  have hb: "i2u S \<notin> set bl" "bl \<noteq> [] \<Longrightarrow> \<forall>i < LOGBLOCKS. log_block S i \<noteq> i2u S" "length bl \<le> LOGBLOCKS"
    using tr log_block_inj(2) by (auto simp: trans_ok_def log_area_def)
  have none: "trans_ok S []" using tr by (simp add: trans_ok_def)
  have log_other: "apply_writes (?lw j) E m = E m" if "m \<notin> log_block S ` {..<LOGBLOCKS}" "j \<le> ?n" for j E m
    by (rule apply_writes_other) (use that hb(3) in \<open>auto simp: log_writes_def\<close>)
  have inS: "i2u S \<notin> log_block S ` {..<LOGBLOCKS}"
    using tr log_block_inj(2) [of S] by (fastforce simp: trans_ok_def)
  have bn': "bn \<notin> log_block S ` {..<LOGBLOCKS}" "bn \<noteq> i2u S" using bn by (auto simp: log_area_def)
  let ?E = "(apply_writes (?lw ?n) dk)(i2u S := ?h)"
  consider "k \<le> ?n" | "?n < k" "k \<le> Suc (?n + ?n)" | "Suc (?n + ?n) < k" by linarith
  then show ?thesis
  proof cases
    case 1
    then have Y: "Y = apply_writes (?lw k) dk"
      by (simp add: Y_def commit_writes_def Let_def log_writes_def take_map)
    have "Y (i2u S) = dk (i2u S)" "Y bn = dk bn" using log_other 1 inS bn' by (simp_all add: Y)
    then show ?thesis using 1 hd none log_view_none [of Y S] by (simp add: head_ok_def)
  next
    case 2
    define j where "j = k - Suc ?n"
    have j: "k = Suc (?n + j)" "j \<le> ?n" using 2 by (simp_all add: j_def)
    then have Y: "Y = apply_writes (map (\<lambda>b. (b, D b)) (take j bl)) ?E"
      by (simp add: Y_def commit_writes_def Let_def log_writes_def take_map take_Suc)
    have Yh: "Y (i2u S) = ?h" using hb(1) by (auto simp: Y apply_map dest: in_set_takeD)
    have Yl: "Y (log_block S i) = D (bl ! i)" if "i < ?n" for i
      using trans_okD(5,6) [OF tr that] apply_head(2) [OF tr that]
      by (auto simp: Y apply_map dest: in_set_takeD)
    have Yo: "Y bn = dk bn" if "bn \<notin> set bl"
      using that log_other bn' by (auto simp: Y apply_map dest: in_set_takeD)
    have hl: "head_list (Y (i2u S)) = bl" "0 \<le> sint (get32 (Y (i2u S)) 0)"
      using head_list_bytes [OF len hb(3)] Yh by simp_all
    have "log_view S Y bn = D bn"
    proof (cases "bn \<in> set bl")
      case True
      then obtain i where "i < ?n" "bn = bl ! i" by (auto simp: in_set_conv_nth)
      then show ?thesis using log_view_at(1) [of S Y i] hl(1) tr Yl by simp
    next
      case False
      then show ?thesis using log_view_at(2) [of S Y bn] hl(1) tr Yo same by simp
    qed
    then show ?thesis using 2 hl tr by (simp add: head_ok_def)
  next
    case 3
    then have Y: "Y = (apply_writes (map (\<lambda>b. (b, D b)) bl) ?E)(i2u S := head_bytes [] ?h)"
      by (simp add: Y_def commit_writes_def Let_def log_writes_def take_Cons' take_map)
    have lh: "length ?h = BSIZE" using head_bytes_get(1) [OF len hb(3)] .
    have "head_list (Y (i2u S)) = []" "0 \<le> sint (get32 (Y (i2u S)) 0)"
      using head_list_bytes [OF lh, of "[]"] by (simp_all add: Y)
    moreover have "Y bn = D bn" using bn' log_other same by (auto simp: Y apply_map)
    ultimately show ?thesis using 3 none log_view_none [of Y S] by (simp add: head_ok_def)
  qed
qed

text \<open>Starting up on a disk that a crash left.\<close>

lemma boot_recover:
  assumes "fresh (i2u dev) r" "head_ok (sint (sb_logstart sb)) (disk r)" "length (lh_block r) = LOGBLOCKS"
  defines "S \<equiv> sint (sb_logstart sb)"
  shows "\<exists>u. initlog dev sb (binit r) = ret () u \<and> disk_writes u = disk_writes r @ recover_writes S (disk r) \<and>
    (\<forall>bn. bn \<notin> log_area S \<longrightarrow> disk u bn = log_view S (disk r) bn)"
proof -
  let ?s = "(binit r)\<lparr>log_start := S, log_dev := dev\<rparr>"
  note b = binit_cache [OF assms(1)]
  have "length (lh_block (binit r)) = LOGBLOCKS" using log_frame(4) [OF b(4)] assms(3) by simp
  then have l: "i2u (log_dev ?s) = i2u dev" "log_start ?s = S" "length (lh_block ?s) = LOGBLOCKS" by simp_all
  have c: "cache (i2u dev) ?s (disk r) (\<lambda>_. 0) Map.empty"
    using b(1) by (simp add: cache_def runs_def buf_locks_def)
  obtain u where u: "recover_from_log ?s = ret () u" "disk u = apply_writes (recover_writes S (disk r)) (disk r)"
    "disk_writes u = disk_writes r @ recover_writes S (disk r)"
    using recover_ok [OF c l, folded S_def] assms(2) b(2,3) by (auto simp: S_def)
  have "disk u = (log_view S (disk r))(i2u S := head_bytes [] (disk r (i2u S)))"
    unfolding u(2) by (simp add: recover_writes_def log_view_def Let_def)
  then show ?thesis using u by (auto simp: initlog_def S_def log_area_def)
qed

text \<open>Writes of whole blocks keep the blocks whole.\<close>

lemma apply_writes_length:
  assumes "\<forall>n. length (dk n) = BSIZE" "\<forall>w \<in> set ws. length (snd w) = BSIZE"
  shows "length (apply_writes ws dk n) = BSIZE"
  using assms
proof (induction ws arbitrary: dk)
  case (Cons w ws)
  then show ?case by (cases w) simp
qed simp

lemma writes_whole:
  assumes "\<forall>n. length (D n) = BSIZE" "length bl \<le> LOGBLOCKS"
  shows "\<forall>w \<in> set (commit_writes S bl D). length (snd w) = BSIZE"
    "\<forall>w \<in> set (home_writes S bl D n). length (snd w) = BSIZE"
  using assms by (auto simp: commit_writes_def Let_def log_writes_def home_writes_def head_bytes_get)

text \<open>What the file system may put into one transaction that is committed alone.\<close>

definition changes_ok :: "int \<Rightarrow> (u32 \<times> byte list) list \<Rightarrow> bool" where
  "changes_ok S us \<longleftrightarrow> (\<forall>u \<in> set us. length (snd u) = BSIZE \<and> fst u \<notin> log_area S)"

text \<open>The log before a transaction: no system call in progress and an empty header on the disk.\<close>

definition log_idle :: "u32 \<Rightarrow> int \<Rightarrow> 's logst_scheme \<Rightarrow> bool" where
  "log_idle d S s \<longleftrightarrow> released d s (disk s) \<and> log_is d S [] s \<and> log_outstanding s = 0 \<and> log_committing s = 0 \<and>
     log_fits S \<and> get32 (disk s (i2u S)) 0 = 0"

lemma transaction_ok:
  assumes idle: "log_idle d S s" and us: "changes_ok S us" "card (fst ` set us) < NBUF"
  defines "D \<equiv> apply_writes us (disk s)" and "bl \<equiv> log_of us"
  defines "ws \<equiv> if bl = [] then [] else commit_writes S bl D"
  shows "\<exists>t. transaction d us s = ret () t \<and> released d t (apply_writes ws D) \<and> disk t = apply_writes ws (disk s) \<and>
    disk_writes t = disk_writes s @ ws \<and> log_is d S [] t \<and> log_outstanding t = 0 \<and> log_committing t = 0"
proof -
  have c: "cache d s (disk s) (\<lambda>_. 0) Map.empty" and lg: "log_is d S [] s"
    and o: "log_outstanding s = 0" "log_committing s = 0" and fits: "log_fits S"
    using idle by (simp_all add: log_idle_def released_def)
  let ?s = "s\<lparr>log_outstanding := 1\<rparr>"
  have b: "begin_op s = ret () ?s" by (rule begin_op_ok [OF lg c o])
  have tr0: "in_trans d S (disk s) [] ?s" using lg c by (simp add: in_trans_def log_is_def pins_Nil)
  have "card (fst ` set (butlast us)) \<le> card (fst ` set us)"
    by (intro card_mono image_mono) (auto dest: in_set_butlastD)
  then have few: "us = [] \<or> card (fst ` set (butlast us)) < LOGBLOCKS" using us(2) by simp
  have blk: "\<forall>u \<in> set us. length (snd u) = BSIZE" using us(1) by (simp add: changes_ok_def)
  obtain t where t: "forK us (trans_write d) ?s = ret () t" "log_is d S bl t" "cache d t D (pins bl) Map.empty"
    "disk t = disk s" "disk_writes t = disk_writes s" "log_outstanding t = 1" "log_committing t = 0"
    using trans_writes_ok [OF tr0 blk few] o by (auto simp: D_def bl_def in_trans_def trans_frame_def)
  have len: "length bl < NBUF" using us(2) by (simp add: bl_def length_log_of)
  have tr: "trans_ok S bl"
    using us(1) fits len log_of_set [of us] by (auto simp: trans_ok_def bl_def changes_ok_def)
  show ?thesis
    using end_op_ok [OF t(2) tr len t(3,6,7)] b t(1,4,5) by (auto simp: transaction_def ws_def)
qed

text \<open>
  C2. A transaction is atomic with respect to crashes. From an idle log, \<open>begin_op\<close>, any changes
  of fewer than \<open>NBUF\<close> distinct blocks through \<open>log_write\<close>, and \<open>end_op\<close> run to their end. The
  disk writes of the run have a commit point: if a crash lets only the first \<open>k\<close> of them reach
  the disk, the kernel that starts on this disk recovers, and every block outside the log has its
  old contents if \<open>k\<close> is before the commit point and its new contents otherwise.
\<close>

theorem log_crash_atomic:
  fixes s :: "'s logst_scheme"
  assumes "log_idle (i2u dev) (sint (sb_logstart sb)) s" "changes_ok (sint (sb_logstart sb)) us"
    "card (fst ` set us) < NBUF"
  shows "\<exists>t ws c. transaction (i2u dev) us s = ret () t \<and> disk_writes t = disk_writes s @ ws \<and> c \<le> length ws \<and>
    (\<forall>k n. length (apply_writes (take k ws) (disk s) n) = BSIZE) \<and>
    (\<forall>k (r :: 's logst_scheme) bn. fresh (i2u dev) r \<and> disk r = apply_writes (take k ws) (disk s) \<and> length (lh_block r) = LOGBLOCKS \<and>
       bn \<notin> log_area (sint (sb_logstart sb)) \<longrightarrow>
       (\<exists>u. initlog dev sb (binit r) = ret () u \<and>
            disk u bn = (if k < c then disk s bn else apply_writes us (disk s) bn)))"
proof -
  let ?S = "sint (sb_logstart sb)" and ?d = "i2u dev"
  let ?D = "apply_writes us (disk s)" and ?bl = "log_of us"
  let ?ws = "if ?bl = [] then [] else commit_writes ?S ?bl ?D" and ?c = "if ?bl = [] then 0 else Suc (length ?bl)"
  obtain t where t: "transaction ?d us s = ret () t" "disk_writes t = disk_writes s @ ?ws"
    using transaction_ok [OF assms] by blast
  have fits: "log_fits ?S" and hd: "head_list (disk s (i2u ?S)) = []" "0 \<le> sint (get32 (disk s (i2u ?S)) 0)"
    using assms(1) by (simp_all add: log_idle_def head_list_def)
  have tr: "trans_ok ?S ?bl"
    using assms(2,3) fits log_of_set [of us] length_log_of [of us] by (auto simp: trans_ok_def changes_ok_def)
  have same: "?D n = disk s n" if "n \<notin> set ?bl" for n
    by (rule apply_writes_other) (use that log_of_set in auto)
  have len: "length (?D (i2u ?S)) = BSIZE" if "\<forall>n. length (disk s n) = BSIZE"
    using same [of "i2u ?S"] tr that by (auto simp: trans_ok_def log_area_def)
  have blen: "\<forall>n. length (disk s n) = BSIZE"
    using assms(1) by (auto simp: log_idle_def released_def cache_def dest: cachedD(8))
  have "\<forall>n. length (?D n) = BSIZE"
    using apply_writes_length [OF blen, of us] assms(2) by (auto simp: changes_ok_def)
  then have "\<forall>w \<in> set ?ws. length (snd w) = BSIZE"
    using writes_whole(1) [of ?D ?bl] tr by (simp add: trans_ok_def)
  then have whole: "length (apply_writes (take k ?ws) (disk s) n) = BSIZE" for k n
    by (intro apply_writes_length [OF blen]) (meson in_set_takeD)
  have "\<exists>u. initlog dev sb (binit r) = ret () u \<and> disk u bn = (if k < ?c then disk s bn else ?D bn)"
    if r: "fresh ?d r" "disk r = apply_writes (take k ?ws) (disk s)" "length (lh_block r) = LOGBLOCKS" "bn \<notin> log_area ?S"
    for k bn and r :: "'s logst_scheme"
  proof -
    have v: "head_ok ?S (disk r) \<and> log_view ?S (disk r) bn = (if k < ?c then disk s bn else ?D bn)"
    proof (cases "?bl = []")
      case True
      then show ?thesis using r(2) hd tr log_view_none [of "disk s" ?S] same [of bn] by (simp add: head_ok_def)
    next
      case False
      then show ?thesis
        using commit_steps_view [where k = k and D = ?D and dk = "disk s", OF tr hd len [OF blen] same r(4)] r(2) by (simp add: less_Suc_eq_le)
    qed
    then show ?thesis using boot_recover [OF r(1) _ r(3), of sb] r(4) by auto
  qed
  moreover have "?c \<le> length ?ws" by (simp add: commit_writes_def Let_def log_writes_def)
  ultimately show ?thesis using t whole by blast
qed

text \<open>
  C24. Recovery may itself be interrupted. The writes of a recovery are such that a crash after any
  number of them, followed by another start, gives every block outside the log the contents
  that the uninterrupted recovery gives it.
\<close>

theorem recovery_idempotent:
  fixes r :: "'s logst_scheme"
  assumes "fresh (i2u dev) r" "head_ok (sint (sb_logstart sb)) (disk r)" "length (lh_block r) = LOGBLOCKS"
  shows "\<exists>u ws. initlog dev sb (binit r) = ret () u \<and> disk_writes u = disk_writes r @ ws \<and>
    (\<forall>k n. length (apply_writes (take k ws) (disk r) n) = BSIZE) \<and>
    (\<forall>k (q :: 's logst_scheme) bn. fresh (i2u dev) q \<and> disk q = apply_writes (take k ws) (disk r) \<and> length (lh_block q) = LOGBLOCKS \<and>
       bn \<notin> log_area (sint (sb_logstart sb)) \<longrightarrow>
       (\<exists>v. initlog dev sb (binit q) = ret () v \<and> disk v bn = disk u bn))"
proof -
  let ?S = "sint (sb_logstart sb)"
  obtain u where u: "initlog dev sb (binit r) = ret () u" "disk_writes u = disk_writes r @ recover_writes ?S (disk r)"
    "\<And>bn. bn \<notin> log_area ?S \<Longrightarrow> disk u bn = log_view ?S (disk r) bn"
    using boot_recover [OF assms] by blast
  have len: "length (disk r n) = BSIZE" for n using assms(1) by (simp add: fresh_def)
  have "\<forall>w \<in> set (recover_writes ?S (disk r)). length (snd w) = BSIZE"
    using writes_whole(2) [of "disk r"] len assms(2)
    by (auto simp: recover_writes_def Let_def head_bytes_get head_ok_def trans_ok_def)
  then have whole: "length (apply_writes (take k (recover_writes ?S (disk r))) (disk r) n) = BSIZE" for k n
    by (intro apply_writes_length) (use len in \<open>auto dest!: in_set_takeD\<close>)
  have "\<exists>v. initlog dev sb (binit q) = ret () v \<and> disk v bn = disk u bn"
    if q: "fresh (i2u dev) q" "disk q = apply_writes (take k (recover_writes ?S (disk r))) (disk r)"
      "length (lh_block q) = LOGBLOCKS" "bn \<notin> log_area ?S" for k bn and q :: "'s logst_scheme"
  proof -
    have "head_ok ?S (disk q) \<and> log_view ?S (disk q) bn = log_view ?S (disk r) bn"
      unfolding q(2) by (rule recovery_steps_keep_view [OF assms(2) len q(4)])
    then show ?thesis using boot_recover [OF q(1) _ q(3), of sb] q(4) u(3) [OF q(4)] by auto
  qed
  then show ?thesis using u(1,2) whole by blast
qed

section \<open>A full log\<close>

text \<open>A block that is not in the cache cannot be read while every buffer is referenced.\<close>

lemma bread_full:
  assumes c: "cache d s D R H" and "R a = 0" "card {n. 0 < R n} = NBUF"
  shows "bread d a s = panic ''bget: no buffers''"
proof -
  obtain xs p where xs: "lru (bufs s) xs" "length xs = NBUF" and cc: "cached d (bufs s) (disk s) D R"
    and h: "held s = []"
    using c by (auto simp: cache_def runs_def)
  let ?U = "{b. b < NBUF \<and> b_refcnt (buf_at s b) \<noteq> 0}"
  have "{n. 0 < R n} \<subseteq> (\<lambda>b. b_blockno (buf_at s b)) ` ?U"
  proof
    fix n assume "n \<in> {n. 0 < R n}"
    then obtain b where "b < NBUF" "b_dev (buf_at s b) = d" "b_blockno (buf_at s b) = n" "0 < R n"
      using cachedD(3) [OF cc, of n] by auto
    then show "n \<in> (\<lambda>b. b_blockno (buf_at s b)) ` ?U" using cachedD(1) [OF cc, of b] by force
  qed
  then have "card {n. 0 < R n} \<le> card ((\<lambda>b. b_blockno (buf_at s b)) ` ?U)" by (rule card_mono [rotated]) simp
  also have "\<dots> \<le> card ?U" by (rule card_image_le) simp
  finally have "card {..<NBUF} \<le> card ?U" using assms(3) by simp
  then have "?U = {..<NBUF}" by (intro card_seteq) auto
  then have used: "b_refcnt (buf_at s b) \<noteq> 0" if "b < NBUF" for b using that by blast
  have "\<not> (b_dev (buf_at s b) = d \<and> b_blockno (buf_at s b) = a)" if "b < NBUF" for b
    using cachedD(1) [OF cc that] used [OF that] assms(2) by (auto simp: unat_eq_0)
  then have "find (\<lambda>b. b_dev (buf_at s b) = d \<and> b_blockno (buf_at s b) = a) xs = None"
    "find (\<lambda>b. b_refcnt (buf_at s b) = 0) (rev xs) = None"
    using lru_all [OF xs] used by (auto simp: find_None_iff)
  then show ?thesis
    using lru_find(1) [OF xs(1) eq_refl [OF xs(2)], of d a] lru_find(2) [OF xs(1) eq_refl [OF xs(2)]] h
    by (simp add: bread_def bget_def kres_simps)
qed

text \<open>
  C25. A transaction that uses the whole log cannot be committed. The log has \<open>LOGBLOCKS\<close> blocks
  and the cache as many buffers, all of them pinned by the transaction, so that \<open>write_log\<close>
  finds no buffer for the first block of the log and the kernel panics.
\<close>

theorem log_full_panics:
  assumes idle: "log_idle d S s" and us: "changes_ok S us" "distinct (map fst us)" "length us = LOGBLOCKS"
  shows "transaction d us s = panic ''bget: no buffers''"
proof -
  have c: "cache d s (disk s) (\<lambda>_. 0) Map.empty" and lg: "log_is d S [] s"
    and o: "log_outstanding s = 0" "log_committing s = 0" and fits: "log_fits S"
    using idle by (simp_all add: log_idle_def released_def)
  let ?s = "s\<lparr>log_outstanding := 1\<rparr>" and ?bl = "log_of us"
  have b: "begin_op s = ret () ?s" by (rule begin_op_ok [OF lg c o])
  have tr0: "in_trans d S (disk s) [] ?s" using lg c by (simp add: in_trans_def log_is_def pins_Nil)
  have "card (fst ` set (butlast us)) \<le> length (butlast us)" by (metis card_length length_map set_map)
  then have few: "us = [] \<or> card (fst ` set (butlast us)) < LOGBLOCKS" using us(3) by simp
  have blk: "\<forall>u \<in> set us. length (snd u) = BSIZE" using us(1) by (simp add: changes_ok_def)
  obtain t where t: "forK us (trans_write d) ?s = ret () t" "log_is d S ?bl t"
    "cache d t (apply_writes us (disk s)) (pins ?bl) Map.empty" "log_outstanding t = 1" "log_committing t = 0"
    using trans_writes_ok [OF tr0 blk few] o by (auto simp: in_trans_def trans_frame_def)
  have len: "card (set ?bl) = LOGBLOCKS" "length ?bl = LOGBLOCKS"
    using distinct_card [OF us(2)] us(3) by (simp_all add: log_of_set length_log_of)
  let ?t = "t\<lparr>log_outstanding := 0, log_committing := 1\<rparr>"
  have ct: "cache d ?t (apply_writes us (disk s)) (pins ?bl) Map.empty" using t(3) by simp
  have free: "pins ?bl (log_block S 0) = 0"
  proof -
    have "log_block S 0 \<in> log_area S" by (simp add: log_area_def)
    then show ?thesis using us(1) log_of_set(1) [of us] by (fastforce simp: pins_def changes_ok_def)
  qed
  have "{n. 0 < pins ?bl n} = set ?bl" by (auto simp: pins_def)
  then have full: "bread d (log_block S 0) ?t = panic ''bget: no buffers''"
    using bread_full [OF ct free] len(1) by simp
  have l: "i2u (log_dev t) = d" "log_start t = S" "lh_n t = int LOGBLOCKS" using t(2) len(2) by (auto simp: log_is_def)
  have "commit ?t = panic ''bget: no buffers''"
    using full l by (simp add: commit_def write_log_def write_log_block_def log_block_def upt_conv_Cons)
  moreover have "held t = []" using t(3) by (auto simp: cache_def runs_def)
  ultimately have "end_op t = panic ''bget: no buffers''"
    using t(4,5) by (simp add: end_op_def kres_simps Let_def log_held)
  then show ?thesis using b t(1) by (simp add: transaction_def)
qed

section \<open>Concrete runs\<close>

definition boot_logger :: logst where
  "boot_logger = boot_log\<lparr>curproc := Some 0, log_dev := 1, log_start := 2\<rparr>"

definition demo_sb :: superblock where
  "demo_sb = \<lparr>sb_magic = 0x10203040, sb_size = 2000, sb_nblocks = 1954, sb_ninodes = 200, sb_nlog = 31,
     sb_logstart = 2, sb_inodestart = 33, sb_bmapstart = 46\<rparr>"

lemma boot_logger_simps:
  "fresh 1 boot_logger" "disk boot_logger = (\<lambda>_. replicate BSIZE 0)" "disk_writes boot_logger = []"
  "length (lh_block boot_logger) = LOGBLOCKS"
  by (auto simp: fresh_def boot_logger_def boot_log_def boot_bcache_def boot_sl_def boot_ptable_def ptable.defs
      sltable.defs bcache.defs logst.defs runs_def no_buf_def)

lemma get32_zeros: "get32 (replicate BSIZE 0) 0 = 0"
  by code_simp

lemma boot_logger_idle: "log_idle 1 2 (binit boot_logger)"
proof -
  note b = binit_cache [OF boot_logger_simps(1)]
  have "log_is 1 2 [] (binit boot_logger)"
    unfolding log_frame(7) [OF b(4)]
    by (simp add: log_is_def boot_logger_def boot_log_def bcache.defs logst.defs)
  moreover have "log_outstanding (binit boot_logger) = 0" "log_committing (binit boot_logger) = 0"
    unfolding log_frame(5,6) [OF b(4)] by (simp_all add: boot_logger_def boot_log_def bcache.defs logst.defs)
  ultimately show ?thesis
    using b(1,2) boot_logger_simps(2) get32_zeros by (simp add: log_idle_def released_def log_fits_def)
qed

text \<open>A log that starts at block 2 occupies the blocks up to 32.\<close>

lemma not_log_area: "32 < unat n \<Longrightarrow> n \<notin> log_area 2"
proof -
  have u: "unat (i2u a) = nat a" if "0 \<le> a" "a < 2 ^ 32" for a
    using that by (simp only: unat_eq_nat_uint uint_word_of_int_eq take_bit_int_eq_self) (simp add: take_bit_int_eq_self)
  have "unat (i2u (2 + int i + 1)) \<le> 32" if "i < LOGBLOCKS" for i
    using that by (subst u) auto
  then have "unat m \<le> 32" if "m \<in> log_area 2" for m
    using that u [of 2] unfolding log_area_def log_block_def by (elim insertE imageE) auto
  then show "32 < unat n \<Longrightarrow> n \<notin> log_area 2" by (meson not_le)
qed

lemma crashed_fresh: "\<forall>n. length (X n) = BSIZE \<Longrightarrow> fresh 1 (boot_logger\<lparr>disk := X\<rparr>)"
  using boot_logger_simps(1) by (auto simp: fresh_def runs_def)

theorem log_crash_atomic_witness:
  "\<exists>t u. transaction 1 [(50, replicate BSIZE 7)] (binit boot_logger) = ret () t \<and>
     initlog 1 demo_sb (binit (boot_logger\<lparr>disk := apply_writes (disk_writes t) (\<lambda>_. replicate BSIZE 0)\<rparr>)) = ret () u \<and>
     disk u 50 = replicate BSIZE 7"
proof -
  let ?us = "[(50, replicate BSIZE 7)] :: (u32 \<times> byte list) list" and ?s = "binit boot_logger"
  have st: "disk ?s = (\<lambda>_. replicate BSIZE 0)" "disk_writes ?s = []"
    using binit_cache(2,3) [OF boot_logger_simps(1)] boot_logger_simps by simp_all
  have S: "sint (sb_logstart demo_sb) = 2" by (simp add: demo_sb_def)
  have ok: "changes_ok 2 ?us" using not_log_area [of 50] by (simp add: changes_ok_def)
  obtain t ws c where t: "transaction 1 ?us ?s = ret () t" "disk_writes t = ws" "c \<le> length ws"
    "\<forall>k n. length (apply_writes (take k ws) (disk ?s) n) = BSIZE"
    "\<forall>k (r :: logst) bn. fresh 1 r \<and> disk r = apply_writes (take k ws) (disk ?s) \<and> length (lh_block r) = LOGBLOCKS \<and>
       bn \<notin> log_area 2 \<longrightarrow> (\<exists>u. initlog 1 demo_sb (binit r) = ret () u \<and>
            disk u bn = (if k < c then disk ?s bn else apply_writes ?us (disk ?s) bn))"
    using log_crash_atomic [of 1 demo_sb ?s ?us] boot_logger_idle ok S st by auto
  let ?r = "boot_logger\<lparr>disk := apply_writes ws (disk ?s)\<rparr>"
  have "fresh 1 ?r" using crashed_fresh t(4) by (metis take_all_iff order_refl)
  then have "\<exists>u. initlog 1 demo_sb (binit ?r) = ret () u \<and> disk u 50 = apply_writes ?us (disk ?s) 50"
    using t(5) [rule_format, of ?r "length ws" 50] t(3) not_log_area [of 50] boot_logger_simps(4) by auto
  then show ?thesis using t(1,2) st by auto
qed

theorem recovery_idempotent_witness:
  "\<exists>u v. initlog 1 demo_sb (binit (boot_logger\<lparr>disk := (\<lambda>_. replicate BSIZE 0)
       (2 := head_bytes [50] (replicate BSIZE 0), 3 := replicate BSIZE 9)\<rparr>)) = ret () u \<and>
     initlog 1 demo_sb (binit (boot_logger\<lparr>disk := apply_writes (take 1 (disk_writes u)) ((\<lambda>_. replicate BSIZE 0)
       (2 := head_bytes [50] (replicate BSIZE 0), 3 := replicate BSIZE 9))\<rparr>)) = ret () v \<and> disk v 50 = disk u 50"
proof -
  let ?X = "(\<lambda>_. replicate BSIZE 0)(2 := head_bytes [50] (replicate BSIZE 0), 3 := replicate BSIZE 9) :: disk"
  let ?r = "boot_logger\<lparr>disk := ?X\<rparr>"
  have S: "sint (sb_logstart demo_sb) = 2" by (simp add: demo_sb_def)
  have hl: "head_list (head_bytes [50] (replicate BSIZE 0)) = [50]" "0 \<le> sint (get32 (head_bytes [50] (replicate BSIZE 0)) 0)"
    "length (head_bytes [50] (replicate BSIZE 0)) = BSIZE"
    using head_list_bytes [of "replicate BSIZE 0" "[50]"] head_bytes_get(1) [of "replicate BSIZE 0" "[50]"] by simp_all
  then have fr: "fresh 1 ?r" by (intro crashed_fresh) simp
  have "head_ok 2 (disk ?r)"
    using hl not_log_area [of 50] by (simp add: head_ok_def trans_ok_def log_fits_def)
  then obtain u ws where u: "initlog 1 demo_sb (binit ?r) = ret () u" "disk_writes u = ws"
    "\<forall>k n. length (apply_writes (take k ws) ?X n) = BSIZE"
    "\<forall>k (q :: logst) bn. fresh 1 q \<and> disk q = apply_writes (take k ws) ?X \<and> length (lh_block q) = LOGBLOCKS \<and>
       bn \<notin> log_area 2 \<longrightarrow> (\<exists>v. initlog 1 demo_sb (binit q) = ret () v \<and> disk v bn = disk u bn)"
    using recovery_idempotent [of 1 ?r demo_sb] fr S boot_logger_simps(3,4) by auto
  let ?q = "boot_logger\<lparr>disk := apply_writes (take 1 ws) ?X\<rparr>"
  have "fresh 1 ?q" using crashed_fresh u(3) by blast
  then have "\<exists>v. initlog 1 demo_sb (binit ?q) = ret () v \<and> disk v 50 = disk u 50"
    using u(4) [rule_format, of ?q 1 50] not_log_area [of 50] boot_logger_simps(4) by simp
  then show ?thesis using u(1,2) by blast
qed

theorem log_full_panics_witness:
  "transaction 1 (map (\<lambda>i. (of_nat (100 + i), replicate BSIZE 0)) [0..<LOGBLOCKS]) (binit boot_logger) =
     panic ''bget: no buffers''"
proof -
  let ?us = "map (\<lambda>i. (of_nat (100 + i) :: u32, replicate BSIZE (0 :: byte))) [0..<LOGBLOCKS]"
  have "list_all (\<lambda>i. 32 < unat (of_nat (100 + i) :: u32)) [0..<LOGBLOCKS]" by code_simp
  then have "changes_ok 2 ?us" using not_log_area by (auto simp: changes_ok_def list_all_iff)
  moreover have "distinct (map (\<lambda>i. of_nat (100 + i) :: u32) [0..<LOGBLOCKS])" by code_simp
  then have "distinct (map fst ?us)" by (simp add: comp_def)
  ultimately show ?thesis using log_full_panics [OF boot_logger_idle, of ?us] by simp
qed

end
