(* ===== verification/Block_Alloc.thy ===== *)
theory Block_Alloc
  imports Log_Trans Fs
begin

text \<open>
  The block allocator of the file system inside a transaction: \<open>balloc\<close> finds the first block
  whose bit is clear, sets the bit and zeroes the block; \<open>bfree\<close> clears the bit.
\<close>

section \<open>Bits of a block\<close>

lemma and_bit_0: "(w :: byte) AND push_bit m 1 = 0 \<longleftrightarrow> \<not> bit w m"
proof
  assume "w AND push_bit m 1 = 0"
  then have "\<not> bit (w AND push_bit m 1) m" by simp
  then show "\<not> bit w m" by (auto simp: bit_simps dest: bit_imp_le_length)
qed (auto intro!: bit_word_eqI simp: bit_simps)

lemma bmap_bit_bit: "bmap_bit d k \<longleftrightarrow> bit (d ! (k div 8)) (k mod 8)"
  unfolding bmap_bit_def and_bit_0 by simp

lemma div_mod_8: "k div 8 = j div 8 \<Longrightarrow> k mod 8 = j mod 8 \<Longrightarrow> k = (j :: nat)"
  by (metis div_mult_mod_eq)

lemma set_bmap_bit:
  assumes "j div 8 < length d" "k div 8 < length d"
  shows "bmap_bit (set_bmap_bit j d) k \<longleftrightarrow> k = j \<or> bmap_bit d k" "length (set_bmap_bit j d) = length d"
    "bmap_bit (clear_bmap_bit j d) k \<longleftrightarrow> k \<noteq> j \<and> bmap_bit d k" "length (clear_bmap_bit j d) = length d"
  using assms
  by (auto simp: bmap_bit_bit set_bmap_bit_def clear_bmap_bit_def nth_list_update bit_simps
      dest: div_mod_8)

section \<open>The bitmap\<close>

definition used :: "superblock \<Rightarrow> disk \<Rightarrow> nat \<Rightarrow> bool" where
  "used q D b \<longleftrightarrow> bmap_bit (D (BBLOCK (of_nat b) q)) (b mod BPB)"

definition mark :: "superblock \<Rightarrow> disk \<Rightarrow> nat \<Rightarrow> disk" where
  "mark q D b = (D(BBLOCK (of_nat b) q := set_bmap_bit (b mod BPB) (D (BBLOCK (of_nat b) q))))
     (of_nat b := replicate BSIZE 0)"

definition unmark :: "superblock \<Rightarrow> disk \<Rightarrow> nat \<Rightarrow> disk" where
  "unmark q D b = D(BBLOCK (of_nat b) q := clear_bmap_bit (b mod BPB) (D (BBLOCK (of_nat b) q)))"

lemma of_nat_div_BPB: "b < 2 ^ 32 \<Longrightarrow> (of_nat b :: u32) div of_nat BPB = of_nat (b div BPB)"
proof -
  assume b: "b < 2 ^ 32"
  have "b div BPB < 2 ^ 32" using b by (simp add: less_mult_imp_div_less)
  then show ?thesis
    using b by (intro unsigned_word_eqI [where 'a = nat]) (simp add: unat_div unat_of_nat)
qed

lemma BBLOCK_eq: "b < 2 ^ 32 \<Longrightarrow> BBLOCK (of_nat b) q = of_nat (b div BPB) + sb_bmapstart q"
  by (simp only: BBLOCK_def of_nat_div_BPB)

lemma BBLOCK_group: "k * BPB + i < 2 ^ 32 \<Longrightarrow> i < BPB \<Longrightarrow> BBLOCK (of_nat (k * BPB)) q = BBLOCK (of_nat (k * BPB + i)) q"
  by (subst (1 2) BBLOCK_eq) auto

lemma fs_more:
  fixes s t :: "'s fsst_scheme"
  assumes "trans_frame s t"
  shows "sb t = sb s" "itable t = itable s"
  using assms by (cases s; cases t; simp add: trans_frame_def)+

lemma fs_more1:
  fixes s t :: "'s fsst_scheme"
  assumes "logst.more t = logst.more s"
  shows "sb t = sb s" "itable t = itable s"
  using assms by (cases s; cases t; simp)+

lemma i2u_sint [simp]: "i2u (sint w) = w"
  by simp

lemma bzero_ok:
  assumes "in_trans d S D bl s" "length bl < LOGBLOCKS"
  shows "\<exists>t. bzero (sint d) (int b) s = ret () t \<and>
    in_trans d S (D(of_nat b := replicate BSIZE 0)) (log_add (of_nat b) bl) t \<and> trans_frame s t"
proof -
  obtain bp s1 where b: "bread d (of_nat b) s = ret bp s1"
    "\<And>f. length (f (D (of_nat b))) = BSIZE \<Longrightarrow> \<exists>u t. log_write bp (upd_data bp f s1) = ret () u \<and>
       logst.more u = logst.more s \<and> brelse bp u = ret () t \<and>
       in_trans d S (D(of_nat b := f (D (of_nat b)))) (log_add (of_nat b) bl) t \<and> trans_frame s t"
    by (rule trans_buffer [OF assms]) blast
  show ?thesis using b(1) b(2) [of "\<lambda>_. replicate BSIZE 0"] by (auto simp: bzero_def)
qed

lemma find_least:
  "find P [0..<n] = Some i \<Longrightarrow> i < n \<and> P i \<and> (\<forall>j < i. \<not> P j)"
  "find P [0..<n] = None \<Longrightarrow> i < n \<Longrightarrow> \<not> P i"
  by (auto simp: find_Some_iff find_None_iff)

lemma length_log_add: "length (log_add b bl) \<le> Suc (length bl)"
  by (simp add: log_add_def)

lemma out_of_blocks:
  fixes s :: "'s fsst_scheme"
  assumes "in_trans d S D bl s"
  shows "\<exists>t. printf (''balloc: out of blocks'' @ nl) [] s = ret () t \<and> in_trans d S D bl t \<and> trans_frame s t"
proof -
  have "held s = []" using assms by (auto simp: in_trans_def cache_def runs_def)
  moreover have "format (''balloc: out of blocks'' @ nl) [] \<noteq> None" by code_simp
  ultimately obtain out where "printf (''balloc: out of blocks'' @ nl) [] s = ret () (s\<lparr>uart_out := uart_out s @ out\<rparr>)"
    using printf_total [of s "[]" "[]"] by auto
  then show ?thesis using assms by (auto simp: in_trans_def log_is_def trans_frame_def)
qed

lemma balloc_loop_ok:
  fixes s :: "'s fsst_scheme"
  assumes tr: "in_trans d S D bl s" and n: "Suc (length bl) < LOGBLOCKS" and q: "sb s = q" "unat (sb_size q) = N"
    and blk: "\<And>m. length (D m) = BSIZE"
  defines "L \<equiv> \<lambda>k m. map (\<lambda>k. k * BPB) [k..<m]"
  shows "if \<exists>c. k * BPB \<le> c \<and> c < min (m * BPB) N \<and> \<not> used q D c
    then \<exists>c t. k * BPB \<le> c \<and> c < min (m * BPB) N \<and> \<not> used q D c \<and> (\<forall>e. k * BPB \<le> e \<and> e < c \<longrightarrow> used q D e) \<and>
      balloc_loop d (L k m) s = ret (of_nat c) t \<and> trans_frame s t \<and>
      in_trans d S (mark q D c) (log_add (of_nat c) (log_add (BBLOCK (of_nat c) q) bl)) t
    else \<exists>t. balloc_loop d (L k m) s = ret 0 t \<and> in_trans d S D bl t \<and> trans_frame s t"
  using tr q(1)
proof (induction "m - k" arbitrary: k s)
  case 0
  then have "\<not> (\<exists>c. k * BPB \<le> c \<and> c < min (m * BPB) N \<and> \<not> used q D c)" "L k m = []"
    by (auto simp: L_def)
  then show ?case using out_of_blocks [OF 0(2)] by auto
next
  case (Suc j)
  then have km: "k < m" by simp
  have L: "L k m = k * BPB # L (Suc k) m" using km by (simp add: L_def upt_conv_Cons)
  have n': "length bl < LOGBLOCKS" using n by simp
  let ?M = "min BPB (N - k * BPB)" and ?bn = "BBLOCK (of_nat (k * BPB)) q"
  have N32: "N < 2 ^ 32" using q(2) unsigned_less [of "sb_size q", where 'a = nat] by simp
  have grp: "?bn = BBLOCK (of_nat (k * BPB + i)) q" "(k * BPB + i) mod BPB = i" if "i < ?M" for i
    using BBLOCK_group [of k i q] that N32 by auto
  have usd: "used q D (k * BPB + i) = bmap_bit (D ?bn) i" if "i < ?M" for i
    using grp [OF that] by (simp add: used_def)
  obtain bp s1 where b: "bread d ?bn s = ret bp s1" "b_data (buf_at s1 bp) = D ?bn" "logst.more s1 = logst.more s"
    "\<exists>t. brelse bp s1 = ret () t \<and> in_trans d S D bl t \<and> trans_frame s t"
    "\<And>f. length (f (D ?bn)) = BSIZE \<Longrightarrow> \<exists>u t. log_write bp (upd_data bp f s1) = ret () u \<and>
       logst.more u = logst.more s \<and> brelse bp u = ret () t \<and>
       in_trans d S (D(?bn := f (D ?bn))) (log_add ?bn bl) t \<and> trans_frame s t"
    by (rule trans_buffer [where bn = ?bn, OF Suc.prems(1) n']) blast
  have sb1: "sb s1 = q" using fs_more1 [OF b(3)] Suc.prems(2) by simp
  show ?case
  proof (cases "find (\<lambda>bi. \<not> bmap_bit (D ?bn) bi) [0..<?M]")
    case (Some i)
    note i = find_least(1) [OF Some]
    define c where "c = k * BPB + i"
    have len: "length (set_bmap_bit i (D ?bn)) = BSIZE"
      by (simp add: set_bmap_bit_def blk)
    obtain u t where u: "log_write bp (upd_data bp (set_bmap_bit i) s1) = ret () u" "brelse bp u = ret () t"
      "in_trans d S (D(?bn := set_bmap_bit i (D ?bn))) (log_add ?bn bl) t" "trans_frame s t"
      using b(5) [of "set_bmap_bit i"] len by blast
    have "length (log_add ?bn bl) < LOGBLOCKS" using length_log_add [of ?bn bl] n by simp
    from bzero_ok [OF u(3) this, of c] obtain v where v: "bzero (sint d) (int c) t = ret () v"
      "in_trans d S (mark q D c) (log_add (of_nat c) (log_add (BBLOCK (of_nat c) q) bl)) v" "trans_frame t v"
      using grp [of i] i by (auto simp: mark_def c_def)
    have eq: "balloc_loop d (L k m) s = ret (of_nat c) v"
      using Suc.prems(2) b(1,2) sb1 q(2) Some u(1,2) v(1) by (simp add: L c_def)
    have "k * BPB \<le> c" "c < min (m * BPB) N" "\<not> used q D c" "\<forall>e. k * BPB \<le> e \<and> e < c \<longrightarrow> used q D e"
    proof -
      show "k * BPB \<le> c" by (simp add: c_def)
      have "Suc k * BPB \<le> m * BPB" using km by (intro mult_le_mono1) simp
      then show "c < min (m * BPB) N" using i by (simp add: less_diff_conv add.commute c_def)
      show "\<not> used q D c" using usd i by (simp add: c_def)
      show "\<forall>e. k * BPB \<le> e \<and> e < c \<longrightarrow> used q D e"
      proof (intro allI impI)
        fix e assume e: "k * BPB \<le> e \<and> e < c"
        then have "e - k * BPB < i" "e = k * BPB + (e - k * BPB)" by (auto simp: c_def)
        then show "used q D e" using usd [of "e - k * BPB"] i by auto
      qed
    qed
    note res = this
    have ex: "\<exists>c. k * BPB \<le> c \<and> c < min (m * BPB) N \<and> \<not> used q D c" using res by blast
    show ?thesis
      unfolding if_P [OF ex] using eq res v(2) trans_frame_trans [OF u(4) v(3)] by blast
  next
    case None
    have all: "used q D e" if "k * BPB \<le> e" "e < min (Suc k * BPB) N" for e
    proof -
      have "e - k * BPB < ?M" "e = k * BPB + (e - k * BPB)" using that by auto
      then show ?thesis using usd [of "e - k * BPB"] find_least(2) [OF None, of "e - k * BPB"] by auto
    qed
    obtain t where t: "brelse bp s1 = ret () t" "in_trans d S D bl t" "trans_frame s t" using b(4) by blast
    have "balloc_loop d (L k m) s = balloc_loop d (L (Suc k) m) t"
      using Suc.prems(2) b(1,2) sb1 q(2) None t(1) by (simp add: L)
    note eq = this
    have shift: "(\<exists>c. k * BPB \<le> c \<and> c < min (m * BPB) N \<and> \<not> used q D c) =
        (\<exists>c. Suc k * BPB \<le> c \<and> c < min (m * BPB) N \<and> \<not> used q D c)"
    proof -
      have "Suc k * BPB \<le> c" if "k * BPB \<le> c" "c < N" "\<not> used q D c" for c
        using all [of c] that by (meson not_less min_less_iff_conj)
      then show ?thesis by (intro iff_exI) auto
    qed
    have j: "j = m - Suc k" and sbt: "sb t = q" using Suc.hyps(2) fs_more(1) [OF t(3)] Suc.prems(2) by simp_all
    note IH = Suc.hyps(1) [OF j t(2) sbt]
    show ?thesis
    proof (cases "\<exists>c. Suc k * BPB \<le> c \<and> c < min (m * BPB) N \<and> \<not> used q D c")
      case True
      then obtain c v where c: "Suc k * BPB \<le> c" "c < min (m * BPB) N" "\<not> used q D c"
        "\<forall>e. Suc k * BPB \<le> e \<and> e < c \<longrightarrow> used q D e" "balloc_loop d (L (Suc k) m) t = ret (of_nat c) v" "trans_frame t v"
        "in_trans d S (mark q D c) (log_add (of_nat c) (log_add (BBLOCK (of_nat c) q) bl)) v"
        using IH unfolding if_P [OF True] by blast
      have "used q D e" if "k * BPB \<le> e \<and> e < c" for e
        using c(2,4) all [of e] that by (cases "e < Suc k * BPB") auto
      moreover have "k * BPB \<le> c" using c(1) by simp
      ultimately show ?thesis
        unfolding shift if_P [OF True] eq using c trans_frame_trans [OF t(3) c(6)] by blast
    next
      case False
      show ?thesis
        unfolding shift if_not_P [OF False] eq using IH [unfolded if_not_P [OF False]] trans_frame_trans [OF t(3)] by blast
    qed
  qed
qed

section \<open>Allocating and freeing\<close>

lemma BBLOCK_inj:
  assumes "b < 2 ^ 32" "c < 2 ^ 32"
  shows "BBLOCK (of_nat b) q = BBLOCK (of_nat c) q \<longleftrightarrow> b div BPB = c div BPB"
proof -
  have "b div BPB < 2 ^ 32" "c div BPB < 2 ^ 32" using assms by (simp_all add: less_mult_imp_div_less)
  then have "(of_nat (b div BPB) :: u32) = of_nat (c div BPB) \<longleftrightarrow> b div BPB = c div BPB"
    by (simp add: word_unat_eq_iff unat_of_nat)
  then show ?thesis using assms by (simp only: BBLOCK_eq add_right_cancel)
qed

lemma same_bit: "b div BPB = c div BPB \<Longrightarrow> b mod BPB = c mod BPB \<longleftrightarrow> b = (c :: nat)"
  by (metis div_mult_mod_eq)

lemma in_block: "b mod BPB div 8 < BSIZE"
  using mod_less_divisor [of BPB b] by (simp add: less_mult_imp_div_less)

lemma used_mark:
  assumes "b < 2 ^ 32" "c < 2 ^ 32" "\<And>m. length (D m) = BSIZE"
  shows "of_nat b \<noteq> BBLOCK (of_nat c) q \<Longrightarrow> used q (mark q D b) c \<longleftrightarrow> c = b \<or> used q D c"
    "used q (unmark q D b) c \<longleftrightarrow> c \<noteq> b \<and> used q D c"
proof -
  let ?n = "BBLOCK (of_nat c) q"
  have bits: "bmap_bit (set_bmap_bit (b mod BPB) (D ?n)) (c mod BPB) \<longleftrightarrow> c mod BPB = b mod BPB \<or> bmap_bit (D ?n) (c mod BPB)"
    "bmap_bit (clear_bmap_bit (b mod BPB) (D ?n)) (c mod BPB) \<longleftrightarrow> c mod BPB \<noteq> b mod BPB \<and> bmap_bit (D ?n) (c mod BPB)"
    by (rule set_bmap_bit; simp only: assms(3) in_block)+
  have "(of_nat b \<noteq> ?n \<longrightarrow> used q (mark q D b) c = (c = b \<or> used q D c)) \<and> used q (unmark q D b) c = (c \<noteq> b \<and> used q D c)"
  proof (cases "b div BPB = c div BPB")
    case True
    then have "BBLOCK (of_nat b) q = ?n" using BBLOCK_inj [OF assms(1,2)] by blast
    then show ?thesis using bits same_bit [of c b] True by (simp only: used_def mark_def unmark_def fun_upd_same fun_upd_other) auto
  next
    case False
    then have "BBLOCK (of_nat b) q \<noteq> ?n" "c \<noteq> b" using BBLOCK_inj [OF assms(1,2)] by blast+
    then show ?thesis by (auto simp: used_def mark_def unmark_def)
  qed
  then show "of_nat b \<noteq> ?n \<Longrightarrow> used q (mark q D b) c \<longleftrightarrow> c = b \<or> used q D c"
    "used q (unmark q D b) c \<longleftrightarrow> c \<noteq> b \<and> used q D c" by blast+
qed

lemma in_trans_blocks: "in_trans d S D bl s \<Longrightarrow> length (D m) = BSIZE"
  using cachedD(8) by (auto simp: in_trans_def cache_def)

text \<open>
  C26. Block allocation. In a transaction, and if the blocks of the bitmap are marked as used, \<open>balloc\<close>
  returns a block that was free, or 0 if there is none. Afterwards exactly this block is marked in
  addition, it contains zeros, and no block but it and its bitmap block has changed.
\<close>

theorem balloc_exact:
  fixes s :: "'s fsst_scheme"
  assumes "in_trans d S D bl s" "Suc (length bl) < LOGBLOCKS"
    "\<forall>e < unat (sb_size (sb s)). used (sb s) D (unat (BBLOCK (of_nat e) (sb s)))"
  shows "if \<forall>c < unat (sb_size (sb s)). used (sb s) D c
    then \<exists>t. balloc d s = ret 0 t \<and> in_trans d S D bl t
    else \<exists>c t D' bl'. c < unat (sb_size (sb s)) \<and> \<not> used (sb s) D c \<and> balloc d s = ret (of_nat c) t \<and>
      in_trans d S D' bl' t \<and> set bl' = {of_nat c, BBLOCK (of_nat c) (sb s)} \<union> set bl \<and>
      (\<forall>e < unat (sb_size (sb s)). used (sb s) D' e \<longleftrightarrow> e = c \<or> used (sb s) D e) \<and>
      D' (of_nat c) = replicate BSIZE 0 \<and>
      (\<forall>n. n \<noteq> of_nat c \<and> n \<noteq> BBLOCK (of_nat c) (sb s) \<longrightarrow> D' n = D n)"
proof -
  let ?q = "sb s" and ?N = "unat (sb_size (sb s))"
  let ?m = "(?N + (BPB - 1)) div BPB"
  note loop = balloc_loop_ok [OF assms(1,2) refl refl in_trans_blocks [OF assms(1)], of 0 ?m]
  have le: "?N \<le> ?m * BPB" using div_mult_mod_eq [of "?N + (BPB - 1)" BPB] mod_less_divisor [of BPB "?N + (BPB - 1)"] by simp
  then have min: "min (?m * BPB) ?N = ?N" by simp
  have run: "balloc d s = balloc_loop d (map (\<lambda>k. k * BPB) [0..<?m]) s" by (simp only: balloc_def)
  have N32: "?N < 2 ^ 32" using unsigned_less [of "sb_size (sb s)", where 'a = nat] by simp
  show ?thesis
  proof (cases "\<forall>c < ?N. used ?q D c")
    case True
    then have no: "\<not> (\<exists>c. 0 * BPB \<le> c \<and> c < ?N \<and> \<not> used ?q D c)" by blast
    from loop [unfolded min if_not_P [OF no]] show ?thesis unfolding if_P [OF True] run by blast
  next
    case False
    then have ex: "\<exists>c. 0 * BPB \<le> c \<and> c < ?N \<and> \<not> used ?q D c" by simp
    from loop [unfolded min if_P [OF ex]] obtain c t where c: "c < ?N" "\<not> used ?q D c"
      "balloc d s = ret (of_nat c) t" "in_trans d S (mark ?q D c) (log_add (of_nat c) (log_add (BBLOCK (of_nat c) ?q) bl)) t"
      unfolding run by blast
    have c32: "unat (of_nat c :: u32) = c" using c(1) N32 by (simp add: unat_of_nat)
    have "used ?q (mark ?q D c) e \<longleftrightarrow> e = c \<or> used ?q D e" if "e < ?N" for e
    proof (rule used_mark(1) [OF _ _ in_trans_blocks [OF assms(1)]])
      show "of_nat c \<noteq> BBLOCK (of_nat e) ?q" using assms(3) that c(2) c32 by metis
    qed (use c(1) that N32 in auto)
    moreover have "set (log_add (of_nat c) (log_add (BBLOCK (of_nat c) ?q) bl)) = {of_nat c, BBLOCK (of_nat c) ?q} \<union> set bl"
      by (auto simp: log_add_simps)
    moreover have "mark ?q D c (of_nat c) = replicate BSIZE 0"
      "\<forall>n. n \<noteq> of_nat c \<and> n \<noteq> BBLOCK (of_nat c) ?q \<longrightarrow> mark ?q D c n = D n"
      by (auto simp: mark_def)
    ultimately show ?thesis unfolding if_not_P [OF False] using c by blast
  qed
qed

text \<open>
  C27. Freeing a block. In a transaction, \<open>bfree\<close> of a used block marks exactly this block as free and changes
  only its bitmap block; \<open>bfree\<close> of a free block panics.
\<close>

theorem bfree_exact:
  fixes s :: "'s fsst_scheme"
  assumes "in_trans d S D bl s" "length bl < LOGBLOCKS"
  shows "if used (sb s) D (unat b)
    then \<exists>t D'. bfree (sint d) b s = ret () t \<and> in_trans d S D' (log_add (BBLOCK b (sb s)) bl) t \<and>
      (\<forall>e < 2 ^ 32. used (sb s) D' e \<longleftrightarrow> e \<noteq> unat b \<and> used (sb s) D e) \<and>
      (\<forall>n. n \<noteq> BBLOCK b (sb s) \<longrightarrow> D' n = D n)
    else bfree (sint d) b s = panic ''freeing free block''"
proof -
  let ?bn = "BBLOCK b (sb s)" and ?f = "clear_bmap_bit (unat b mod BPB)"
  note blk = in_trans_blocks [OF assms(1)]
  obtain bp s1 where r: "bread d ?bn s = ret bp s1" "b_data (buf_at s1 bp) = D ?bn"
    "\<And>f. length (f (D ?bn)) = BSIZE \<Longrightarrow> \<exists>u t. log_write bp (upd_data bp f s1) = ret () u \<and>
       logst.more u = logst.more s \<and> brelse bp u = ret () t \<and>
       in_trans d S (D(?bn := f (D ?bn))) (log_add ?bn bl) t \<and> trans_frame s t"
    by (rule trans_buffer [where bn = ?bn, OF assms]) blast
  have b32: "unat b < 2 ^ 32" using unsigned_less [of b, where 'a = nat] by simp
  have u: "used (sb s) D (unat b) = bmap_bit (D ?bn) (unat b mod BPB)" by (simp add: used_def)
  have um: "unmark (sb s) D (unat b) = D(?bn := ?f (D ?bn))" by (simp add: unmark_def)
  show ?thesis
  proof (cases "used (sb s) D (unat b)")
    case True
    have "length (?f (D ?bn)) = BSIZE" by (simp add: clear_bmap_bit_def blk)
    from r(3) [of ?f, OF this] obtain v t where t: "log_write bp (upd_data bp ?f s1) = ret () v" "brelse bp v = ret () t"
      "in_trans d S (unmark (sb s) D (unat b)) (log_add ?bn bl) t" unfolding um by blast
    have "bfree (sint d) b s = ret () t" using r(1,2) t(1,2) True u by (simp add: bfree_def Let_def)
    moreover have "\<forall>e < 2 ^ 32. used (sb s) (unmark (sb s) D (unat b)) e \<longleftrightarrow> e \<noteq> unat b \<and> used (sb s) D e"
      using used_mark(2) [where D = D and q = "sb s", OF b32 _ blk] by blast
    moreover have "\<forall>n. n \<noteq> ?bn \<longrightarrow> unmark (sb s) D (unat b) n = D n" by (simp add: um)
    ultimately show ?thesis unfolding if_P [OF True] using t(3) by blast
  next
    case False
    then show ?thesis using r(1,2) u by (simp add: bfree_def Let_def)
  qed
qed

section \<open>Concrete runs\<close>

text \<open>A disk of 64 blocks whose bitmap is in block 46, the only block in use.\<close>

definition small_sb :: superblock where
  "small_sb = \<lparr>sb_magic = 0x10203040, sb_size = 64, sb_nblocks = 17, sb_ninodes = 16, sb_nlog = 31,
     sb_logstart = 2, sb_inodestart = 33, sb_bmapstart = 46\<rparr>"

definition small_disk :: disk where
  "small_disk = (\<lambda>_. replicate BSIZE 0)(46 := set_bmap_bit 46 (replicate BSIZE 0))"

definition small_fs :: fsst where
  "small_fs = boot_fs\<lparr>curproc := Some 0, log_dev := 1, log_start := 2, log_outstanding := 1, sb := small_sb, disk := small_disk\<rparr>"

lemma small_fs_in_trans: "in_trans 1 2 small_disk [] (binit small_fs)" "sb (binit small_fs) = small_sb"
proof -
  have "fresh 1 small_fs"
    by (auto simp: fresh_def small_fs_def small_disk_def set_bmap_bit_def boot_fs_def boot_log_def boot_bcache_def boot_sl_def
        boot_ptable_def ptable.defs sltable.defs bcache.defs logst.defs fsst.defs runs_def no_buf_def)
  note b = binit_cache [OF this]
  have f: "disk small_fs = small_disk" "log_is 1 2 [] small_fs" "log_outstanding small_fs = 1" "sb small_fs = small_sb"
    by (simp_all add: small_fs_def log_is_def boot_fs_def boot_log_def bcache.defs logst.defs fsst.defs)
  show "in_trans 1 2 small_disk [] (binit small_fs)"
    using b(1) f log_frame(5,7) [OF b(4)] by (simp add: in_trans_def pins_Nil)
  show "sb (binit small_fs) = small_sb" using fs_more1(1) [OF more_frame [OF b(4)]] f(4) by simp
qed

lemma small_used: "e < 64 \<Longrightarrow> used small_sb small_disk e \<longleftrightarrow> e = 46" "e < 64 \<Longrightarrow> BBLOCK (of_nat e) small_sb = 46"
proof -
  show B: "e < 64 \<Longrightarrow> BBLOCK (of_nat e) small_sb = 46" for e by (subst BBLOCK_eq) (simp_all add: small_sb_def)
  show "e < 64 \<Longrightarrow> used small_sb small_disk e \<longleftrightarrow> e = 46"
    using B set_bmap_bit(1) [of 46 "replicate BSIZE 0" e] by (simp add: used_def small_disk_def bmap_bit_bit)
qed

theorem balloc_exact_witness:
  "\<exists>c t D' bl'. c \<noteq> 46 \<and> balloc 1 (binit small_fs) = ret (of_nat c) t \<and> in_trans 1 2 D' bl' t \<and> used small_sb D' c \<and> used small_sb D' 46"
proof -
  have sz: "unat (sb_size small_sb) = 64" by (simp add: small_sb_def)
  have meta: "\<forall>e < 64. used small_sb small_disk (unat (BBLOCK (of_nat e) small_sb))" using small_used by simp
  have free: "\<not> (\<forall>c < 64. used small_sb small_disk c)" using small_used(1) [of 0] by (metis zero_less_numeral zero_neq_numeral)
  have "\<exists>c t D' bl'. c < 64 \<and> \<not> used small_sb small_disk c \<and> balloc 1 (binit small_fs) = ret (of_nat c) t \<and>
      in_trans 1 2 D' bl' t \<and> (\<forall>e < 64. used small_sb D' e \<longleftrightarrow> e = c \<or> used small_sb small_disk e)"
    using balloc_exact [OF small_fs_in_trans(1), unfolded small_fs_in_trans(2) sz if_not_P [OF free]] meta by auto
  then obtain c t D' bl' where c: "c < 64" "\<not> used small_sb small_disk c" "balloc 1 (binit small_fs) = ret (of_nat c) t"
    "in_trans 1 2 D' bl' t" "\<forall>e < 64. used small_sb D' e \<longleftrightarrow> e = c \<or> used small_sb small_disk e" by blast
  have "c \<noteq> 46" "used small_sb D' c" "used small_sb D' 46"
    using c(1,2,5) small_used(1) [of c] small_used(1) [of 46] by simp_all
  then show ?thesis using c(3,4) by blast
qed

theorem bfree_exact_witness:
  "(\<exists>t D'. bfree 1 46 (binit small_fs) = ret () t \<and> in_trans 1 2 D' [46] t \<and> \<not> used small_sb D' 46) \<and>
   bfree 1 7 (binit small_fs) = panic ''freeing free block''"
proof -
  have B: "BBLOCK 46 small_sb = 46" "log_add 46 [] = [46]" using small_used(2) [of 46] by (simp_all add: log_add_def)
  have u: "used small_sb small_disk (unat (46 :: u32))" "\<not> used small_sb small_disk (unat (7 :: u32))"
    using small_used(1) [of 46] small_used(1) [of 7] by simp_all
  have "\<exists>t D'. bfree 1 46 (binit small_fs) = ret () t \<and> in_trans 1 2 D' [46] t \<and>
      (\<forall>e < 2 ^ 32. used small_sb D' e \<longleftrightarrow> e \<noteq> unat (46 :: u32) \<and> used small_sb small_disk e)"
    using bfree_exact [OF small_fs_in_trans(1), of 46, unfolded small_fs_in_trans(2) if_P [OF u(1)] B] by auto
  then obtain t D' where t: "bfree 1 46 (binit small_fs) = ret () t" "in_trans 1 2 D' [46] t"
    "\<forall>e < 2 ^ 32. used small_sb D' e \<longleftrightarrow> e \<noteq> unat (46 :: u32) \<and> used small_sb small_disk e" by blast
  have "\<not> used small_sb D' 46" using t(3) [rule_format, of 46] by simp
  moreover have "bfree 1 7 (binit small_fs) = panic ''freeing free block''"
    using bfree_exact [OF small_fs_in_trans(1), of 7, unfolded small_fs_in_trans(2) if_not_P [OF u(2)]] by simp
  ultimately show ?thesis using t by blast
qed

end
