(* ===== verification/User_Lib.thy ===== *)
theory User_Lib
  imports Printf
begin

text \<open>
  The library of the user programs: \<^verbatim>\<open>user/ulib.c\<close> and \<^verbatim>\<open>user/printf.c\<close>. Strings are byte lists as
  in theory \<open>Cstring\<close>, memory routines work on a byte memory, and a system call that a routine
  makes is a parameter. Signed overflow in \<open>atoi\<close> is \<open>None\<close>.
\<close>

section \<open>Definitions\<close>

subsection \<open>\<^verbatim>\<open>ulib.c\<close>\<close>

text \<open>The bytes that \<open>strcpy\<close> writes.\<close>

fun strcpy_bytes :: "byte list \<Rightarrow> byte list" where
  "strcpy_bytes [] = [0]"
| "strcpy_bytes (c # t) = (if c = 0 then [0] else c # strcpy_bytes t)"

definition u_strcpy :: "byte list \<Rightarrow> byte list \<Rightarrow> byte list" where
  "u_strcpy s t = strcpy_bytes t @ drop (length (strcpy_bytes t)) s"

fun u_strcmp :: "byte list \<Rightarrow> byte list \<Rightarrow> int" where
  "u_strcmp [] q = - uint (deref q)"
| "u_strcmp (c # p) q =
     (if c \<noteq> 0 \<and> c = deref q then u_strcmp p (tl q) else uint c - uint (deref q))"

fun u_strlen :: "byte list \<Rightarrow> nat" where
  "u_strlen [] = 0"
| "u_strlen (c # s) = (if c = 0 then 0 else Suc (u_strlen s))"

definition u_memset :: "mem \<Rightarrow> u64 \<Rightarrow> int \<Rightarrow> u32 \<Rightarrow> mem" where
  "u_memset m dst c n = memset_loop m dst (word_of_int c) 0 (unat n)"

text \<open>The pointer that \<open>strchr\<close> returns is the rest of the string from the character on.\<close>

fun u_strchr :: "byte list \<Rightarrow> byte \<Rightarrow> byte list option" where
  "u_strchr [] c = None"
| "u_strchr (x # s) c = (if x = 0 then None else if x = c then Some (x # s) else u_strchr s c)"

text \<open>
  \<open>gets\<close>; \<open>rd\<close> is \<^verbatim>\<open>read(0, &c, 1)\<close>, with \<open>None\<close> for a result below 1. The first argument is the
  number of characters that still fit.
\<close>

fun gets_loop :: "nat \<Rightarrow> ('s \<Rightarrow> byte option \<times> 's) \<Rightarrow> 's \<Rightarrow> byte list \<times> 's" where
  "gets_loop 0 rd s = ([], s)"
| "gets_loop (Suc n) rd s =
     (case rd s of
        (None, s) \<Rightarrow> ([], s)
      | (Some c, s) \<Rightarrow>
          if c = ch (CHR 0x0A) \<or> c = ch (CHR 0x0D) then ([c], s)
          else let (cs, s) = gets_loop n rd s in (c # cs, s))"

definition gets :: "('s \<Rightarrow> byte option \<times> 's) \<Rightarrow> byte list \<Rightarrow> int \<Rightarrow> 's \<Rightarrow> byte list \<times> 's" where
  "gets rd buf mx s =
     (let (cs, s) = gets_loop (nat (mx - 1)) rd s in (cs @ [0] @ drop (Suc (length cs)) buf, s))"

text \<open>\<open>stat\<close> over the system calls it makes.\<close>

definition u_stat :: "('s \<Rightarrow> int \<times> 's) \<Rightarrow> (int \<Rightarrow> 's \<Rightarrow> int \<times> 's) \<Rightarrow> (int \<Rightarrow> 's \<Rightarrow> int \<times> 's) \<Rightarrow> 's \<Rightarrow> int \<times> 's" where
  "u_stat open_n fstat close s =
     (let (fd, s) = open_n s
      in if fd < 0 then (- 1, s)
         else let (r, s) = fstat fd s; (_, s) = close fd s in (r, s))"

fun atoi_loop :: "int \<Rightarrow> byte list \<Rightarrow> int option" where
  "atoi_loop n [] = Some n"
| "atoi_loop n (c # s) =
     (if ch CHR ''0'' \<le> c \<and> c \<le> ch CHR ''9''
      then if n * 10 + uint c \<ge> 2 ^ 31 then None else atoi_loop (n * 10 + uint c - 48) s
      else Some n)"

definition atoi :: "byte list \<Rightarrow> int option" where
  "atoi s = atoi_loop 0 s"

definition u_memmove :: "mem \<Rightarrow> u64 \<Rightarrow> u64 \<Rightarrow> int \<Rightarrow> mem" where
  "u_memmove m dst src n =
     (if src > dst then move_up m dst src (nat n)
      else move_down m (dst + word_of_int n) (src + word_of_int n) (nat n))"

definition u_memcmp :: "mem \<Rightarrow> u64 \<Rightarrow> u64 \<Rightarrow> u32 \<Rightarrow> int" where
  "u_memcmp m s1 s2 n = memcmp_loop m s1 s2 (unat n)"

definition u_memcpy :: "mem \<Rightarrow> u64 \<Rightarrow> u64 \<Rightarrow> u32 \<Rightarrow> mem" where
  "u_memcpy m dst src n = u_memmove m dst src (sint n)"

text \<open>\<open>sbrk\<close> and \<open>sbrklazy\<close> over the system call, and \<open>start\<close>, which exits with the result of \<open>main\<close>.\<close>

definition SBRK_EAGER :: int where "SBRK_EAGER = 1"

definition SBRK_LAZY :: int where "SBRK_LAZY = 2"

definition u_sbrk :: "(int \<Rightarrow> int \<Rightarrow> 's \<Rightarrow> 'a \<times> 's) \<Rightarrow> int \<Rightarrow> 's \<Rightarrow> 'a \<times> 's" where
  "u_sbrk call n s = call n SBRK_EAGER s"

definition u_sbrklazy :: "(int \<Rightarrow> int \<Rightarrow> 's \<Rightarrow> 'a \<times> 's) \<Rightarrow> int \<Rightarrow> 's \<Rightarrow> 'a \<times> 's" where
  "u_sbrklazy call n s = call n SBRK_LAZY s"

definition u_start :: "('v \<Rightarrow> 's \<Rightarrow> int \<times> 's) \<Rightarrow> (int \<Rightarrow> 's \<Rightarrow> 's) \<Rightarrow> 'v \<Rightarrow> 's \<Rightarrow> 's" where
  "u_start main ex argv s = (let (r, s) = main argv s in ex r s)"

subsection \<open>\<^verbatim>\<open>printf.c\<close>\<close>

definition u_digits :: "byte list" where
  "u_digits = bytes ''0123456789ABCDEF''"

text \<open>The digit loop; the first argument is the room left in \<^verbatim>\<open>buf[20]\<close>.\<close>

fun u_printint_loop :: "nat \<Rightarrow> u64 \<Rightarrow> u64 \<Rightarrow> byte list option" where
  "u_printint_loop 0 base x = None"
| "u_printint_loop (Suc room) base x =
     (let c = u_digits ! unat (x mod base); x = x div base
      in if x \<noteq> 0 then map_option ((#) c) (u_printint_loop room base x) else Some [c])"

definition u_printint :: "u64 \<Rightarrow> u64 \<Rightarrow> bool \<Rightarrow> byte list option" where
  "u_printint xx base sg =
     (let neg = sg \<and> sint xx < 0;
          x = (if neg then - xx else xx)
      in case u_printint_loop 20 base x of
           None \<Rightarrow> None
         | Some buf \<Rightarrow>
             if neg then (if length buf < 20 then Some (rev (buf @ [ch CHR ''-''])) else None)
             else Some (rev buf))"

fun u_printptr_loop :: "nat \<Rightarrow> u64 \<Rightarrow> byte list" where
  "u_printptr_loop 0 x = []"
| "u_printptr_loop (Suc n) x = u_digits ! unat (drop_bit 60 x) # u_printptr_loop n (push_bit 4 x)"

definition u_printptr :: "u64 \<Rightarrow> byte list" where
  "u_printptr x = ch CHR ''0'' # ch CHR ''x'' # u_printptr_loop 16 x"

text \<open>
  The conversion after a percent sign: its output, the number of characters of the format that it
  uses beyond \<open>c0\<close>, and the remaining arguments.
\<close>

definition u_num :: "(u64 \<Rightarrow> u64) \<Rightarrow> u64 \<Rightarrow> bool \<Rightarrow> nat \<Rightarrow> va list \<Rightarrow> (byte list \<times> nat \<times> va list) option" where
  "u_num conv base sg k ap =
     (case va_num ap of
        None \<Rightarrow> None
      | Some (w, ap) \<Rightarrow> map_option (\<lambda>out. (out, k, ap)) (u_printint (conv w) base sg))"

definition vprintf_conv :: "byte \<Rightarrow> byte \<Rightarrow> byte \<Rightarrow> va list \<Rightarrow> (byte list \<times> nat \<times> va list) option" where
  "vprintf_conv c0 c1 c2 ap =
     (if c0 = ch CHR ''d'' then u_num va_int 10 True 0 ap
      else if c0 = ch CHR ''l'' \<and> c1 = ch CHR ''d'' then u_num id 10 True 1 ap
      else if c0 = ch CHR ''l'' \<and> c1 = ch CHR ''l'' \<and> c2 = ch CHR ''d'' then u_num id 10 True 2 ap
      else if c0 = ch CHR ''u'' then u_num va_uint32 10 False 0 ap
      else if c0 = ch CHR ''l'' \<and> c1 = ch CHR ''u'' then u_num id 10 False 1 ap
      else if c0 = ch CHR ''l'' \<and> c1 = ch CHR ''l'' \<and> c2 = ch CHR ''u'' then u_num id 10 False 2 ap
      else if c0 = ch CHR ''x'' then u_num va_uint32 16 False 0 ap
      else if c0 = ch CHR ''l'' \<and> c1 = ch CHR ''x'' then u_num id 16 False 1 ap
      else if c0 = ch CHR ''l'' \<and> c1 = ch CHR ''l'' \<and> c2 = ch CHR ''x'' then u_num id 16 False 2 ap
      else if c0 = ch CHR ''p'' then
        (case va_num ap of None \<Rightarrow> None | Some (w, ap) \<Rightarrow> Some (u_printptr w, 0, ap))
      else if c0 = ch CHR ''c'' then
        (case va_num ap of None \<Rightarrow> None | Some (w, ap) \<Rightarrow> Some ([ucast w], 0, ap))
      else if c0 = ch CHR ''s'' then
        (case va_str ap of None \<Rightarrow> None
         | Some (p, ap) \<Rightarrow> Some (case p of None \<Rightarrow> bytes ''(null)'' | Some q \<Rightarrow> cstr q, 0, ap))
      else if c0 = ch CHR ''%'' then Some ([ch CHR ''%''], 0, ap)
      else Some ([ch CHR ''%'', c0], 0, ap))"

text \<open>\<open>vprintf\<close> in its two states: copying, and after a percent sign.\<close>

function vprintf :: "byte list \<Rightarrow> va list \<Rightarrow> byte list option" where
  "vprintf fmt ap =
     (if deref fmt = 0 then Some []
      else if deref fmt \<noteq> ch CHR ''%'' then map_option ((#) (deref fmt)) (vprintf (tl fmt) ap)
      else let fmt = tl fmt; c0 = deref fmt; c1 = deref (tl fmt);
               c2 = (if c1 \<noteq> 0 then deref (tl (tl fmt)) else 0)
           in if c0 = 0 then Some []
              else case vprintf_conv c0 c1 c2 ap of
                     None \<Rightarrow> None
                   | Some (out, k, ap) \<Rightarrow> map_option ((@) out) (vprintf (drop k (tl fmt)) ap))"
  by pat_completeness auto
termination
  by (relation "measure (\<lambda>(fmt, ap). length fmt)") (auto simp: deref_def split: list.splits)

text \<open>The bytes written to the file descriptor.\<close>

definition fprintf :: "int \<Rightarrow> byte list \<Rightarrow> va list \<Rightarrow> (int \<times> byte list) option" where
  "fprintf fd fmt ap = map_option (\<lambda>out. (fd, out)) (vprintf fmt ap)"

definition u_printf :: "byte list \<Rightarrow> va list \<Rightarrow> (int \<times> byte list) option" where
  "u_printf fmt ap = fprintf 1 fmt ap"

section \<open>Strings\<close>

declare vprintf.simps [simp del]

lemma strcpy_bytes_eq: "strcpy_bytes t = cstr t @ [0]"
  by (induction t) auto

lemma u_strcpy_cstr: "cstr (u_strcpy s t) = cstr t"
proof -
  have "cstr (cstr t @ 0 # r) = cstr t" for r by (induction t) auto
  then show ?thesis by (simp add: u_strcpy_def strcpy_bytes_eq)
qed

lemma u_strlen_eq: "u_strlen s = length (cstr s)"
  by (induction s) auto

lemma u_strcmp_zero_iff: "u_strcmp p q = 0 \<longleftrightarrow> cstr p = cstr q"
proof (induction p q rule: u_strcmp.induct)
  case (1 q)
  then show ?case by (cases q) (auto simp: word_uint_eq_iff)
next
  case (2 c p q)
  then show ?case by (cases q) (auto simp: word_uint_eq_iff)
qed

lemma u_strchr_eq:
  "u_strchr s c =
     (if c \<in> set (cstr s) then Some (dropWhile (\<lambda>x. x \<noteq> c) s) else None)"
  by (induction s) auto

lemma unat_word_of_int_nat: "0 \<le> k \<Longrightarrow> k < 2 ^ 64 \<Longrightarrow> unat (word_of_int k :: u64) = nat k"
  using unat_word_of_int [of k] by (metis nat_int)

text \<open>\<open>memmove\<close> of the library copies overlapping regions too, as the one of the kernel does.\<close>

lemma u_memmove_eq:
  assumes src: "unat src + nat n < 2 ^ 64" and dst: "unat dst + nat n \<le> 2 ^ 64" and n: "0 \<le> n"
  shows "u_memmove m dst src n =
           (\<lambda>a. if unat (a - dst) < nat n then m (src + (a - dst)) else m a)"
proof (cases "src > dst")
  case True
  then have "unat (dst - src) = 2 ^ 64 + unat dst - unat src"
    by (simp add: unat_sub_if' word_le_nat_alt word_less_nat_alt)
  with src have "\<not> unat (dst - src) < nat n" by simp
  with True show ?thesis using move_up_eq [of dst src "nat n" m] by (simp add: u_memmove_def)
next
  case False
  define k where "k = (word_of_int n :: u64)"
  have k: "unat k = nat n"
    using src n unat_word_of_int_nat [of n] by (simp add: k_def)
  have "\<not> (0 < unat (src - dst) \<and> unat (src - dst) < nat n)"
    using False dst by (auto simp: unat_sub_if' word_le_nat_alt word_less_nat_alt)
  then have "\<not> (0 < unat ((src + k) - (dst + k)) \<and> unat ((src + k) - (dst + k)) < nat n)"
    by simp
  note mv = move_down_eq [OF this, of m]
  have *: "dst + k - 1 - a = k - 1 - (a - dst)" "src + k - (dst + k - a) = src + (a - dst)" for a
    by (simp_all add: algebra_simps)
  show ?thesis
  proof (cases "n = 0")
    case True
    then show ?thesis by (simp add: u_memmove_def)
  next
    case ne: False
    then have "k \<noteq> 0" using k n by auto
    from reflect_less [OF this] False mv show ?thesis
      by (simp add: u_memmove_def k_def [symmetric] fun_eq_iff * k [symmetric])
  qed
qed

section \<open>Numbers\<close>

lemma u_digits_nth: "k < 10 \<Longrightarrow> u_digits ! k = of_nat (k + 48)"
proof -
  have "list_all (\<lambda>k. u_digits ! k = of_nat (k + 48)) [0..<10]" by code_simp
  then show "k < 10 \<Longrightarrow> u_digits ! k = of_nat (k + 48)" by (simp add: list_all_iff)
qed

lemma uint_of_nat_byte: "k < 256 \<Longrightarrow> uint (of_nat k :: byte) = int k"
  by (simp add: uint_nat unat_of_nat)

lemma atoi_digit:
  assumes "k < 10" "0 \<le> n"
  shows "atoi_loop n (u_digits ! k # r) =
     (if n * 10 + int k + 48 \<ge> 2 ^ 31 then None else atoi_loop (n * 10 + int k) r)"
proof -
  have u: "uint (u_digits ! k) = int k + 48"
    using assms(1) uint_of_nat_byte [of "k + 48"] by (simp only: u_digits_nth)
  have "ch CHR ''0'' = 48" "ch CHR ''9'' = 57" by (simp_all add: ch_def)
  then have "ch CHR ''0'' \<le> u_digits ! k \<and> u_digits ! k \<le> ch CHR ''9''"
    using assms(1) by (simp add: word_le_def u)
  then show ?thesis by (simp add: u add.assoc)
qed

lemma u_printint_loop_ex:
  assumes "2 \<le> unat base" "0 < room" "unat x < unat base ^ room"
  shows "\<exists>buf. u_printint_loop room base x = Some buf"
  using assms(2,3)
proof (induction room arbitrary: x)
  case 0
  then show ?case by simp
next
  case (Suc room)
  show ?case
  proof (cases "x div base = 0")
    case True
    then show ?thesis by (simp add: Let_def)
  next
    case False
    then have nz: "unat (x div base) \<noteq> 0" by (simp add: unat_eq_0)
    have lt: "unat (x div base) < unat base ^ room"
      using Suc.prems by (simp add: unat_div less_mult_imp_div_less mult.commute)
    with nz have "0 < room" by (cases room) auto
    from Suc.IH [OF this lt] False show ?thesis by (auto simp: Let_def)
  qed
qed

text \<open>\<open>atoi\<close> consumes the digits that the loop produces.\<close>

lemma atoi_printint_loop:
  assumes "u_printint_loop room 10 x = Some buf" "int (unat x) < 2 ^ 31"
  shows "atoi_loop 0 (rev buf @ r) =
     (if int (unat x) + 48 \<ge> 2 ^ 31 then None else atoi_loop (int (unat x)) r)"
  using assms
proof (induction room arbitrary: x buf r)
  case 0
  then show ?case by simp
next
  case (Suc room)
  define q where "q = unat (x div 10)"
  define k where "k = unat (x mod 10)"
  have k: "k < 10" and x: "unat x = q * 10 + k"
    by (simp_all add: q_def k_def unat_div unat_mod)
  show ?case
  proof (cases "x div 10 = 0")
    case True
    then have "buf = [u_digits ! k]" "q = 0"
      using Suc.prems(1) by (simp_all add: Let_def k_def q_def)
    then show ?thesis using atoi_digit [OF k, of 0 r] x by simp
  next
    case False
    then obtain buf' where b: "u_printint_loop room 10 (x div 10) = Some buf'" "buf = u_digits ! k # buf'"
      using Suc.prems(1) by (auto simp: Let_def k_def)
    have q: "int q < 2 ^ 31 - 48" using Suc.prems(2) x by simp
    from Suc.IH [OF b(1), of "u_digits ! k # r"] q
    have "atoi_loop 0 (rev buf @ r) = atoi_loop (int q) (u_digits ! k # r)"
      by (simp add: b(2) q_def)
    then show ?thesis using atoi_digit [OF k, of "int q" r] x by simp
  qed
qed

lemma va_int_small: "0 \<le> i \<Longrightarrow> i < 2 ^ 31 \<Longrightarrow> va_int (word_of_int i) = word_of_int i"
  by (simp add: va_int_def unsigned_of_int signed_of_int take_bit_int_eq_self signed_take_bit_int_eq_self)

lemma vprintf_d:
  assumes "0 \<le> i" "i < 2 ^ 31"
  shows "\<exists>buf. u_printint_loop 20 10 (word_of_int i) = Some buf \<and>
     vprintf (bytes ''%d'') [VNum (word_of_int i)] = Some (rev buf)"
proof -
  have i: "unat (word_of_int i :: u64) = nat i" using unat_word_of_int_nat [of i] assms by simp
  then have "unat (word_of_int i :: u64) < unat (10 :: u64) ^ 20" using assms by simp
  from u_printint_loop_ex [OF _ _ this] obtain buf
    where buf: "u_printint_loop 20 10 (word_of_int i) = Some buf" by auto
  have "0 \<le> sint (word_of_int i :: u64)"
    using assms by (simp add: signed_of_int signed_take_bit_int_eq_self)
  then have "u_printint (word_of_int i) 10 True = Some (rev buf)"
    by (simp add: u_printint_def buf)
  then have "vprintf (bytes ''%d'') [VNum (word_of_int i)] = Some (rev buf)"
    using va_int_small [OF assms]
    by (simp add: bytes_def ch_def vprintf.simps vprintf_conv_def u_num_def)
  with buf show ?thesis by blast
qed

text \<open>
  C36. Reading back what was printed: \<open>atoi\<close> of the text that \<^verbatim>\<open>printf("%d", i)\<close> writes is \<open>i\<close> for
  every non-negative \<open>int\<close> up to \<open>2\<^sup>31 - 49\<close>, whatever follows the terminating NUL; for the last
  48 numbers, among them the largest \<open>int\<close>, the sum \<^verbatim>\<open>n*10 + *s++\<close> overflows before the character
  \<open>0\<close> is subtracted.
\<close>

theorem atoi_printf:
  assumes "0 \<le> i" "i < 2 ^ 31"
  shows "\<exists>out. vprintf (bytes ''%d'') [VNum (word_of_int i)] = Some out \<and>
     atoi (out @ 0 # r) = (if i < 2 ^ 31 - 48 then Some i else None)"
proof -
  have i: "unat (word_of_int i :: u64) = nat i" using unat_word_of_int_nat [of i] assms by simp
  from vprintf_d [OF assms] obtain buf where
    "u_printint_loop 20 10 (word_of_int i) = Some buf"
    "vprintf (bytes ''%d'') [VNum (word_of_int i)] = Some (rev buf)" by blast
  moreover from atoi_printint_loop [OF this(1), of "0 # r"] assms
  have "atoi (rev buf @ 0 # r) = (if i < 2 ^ 31 - 48 then Some i else None)"
    unfolding atoi_def i by (simp add: ch_def word_le_def)
  ultimately show ?thesis by blast
qed

theorem atoi_printf_witness:
  "(\<exists>out. vprintf (bytes ''%d'') [VNum (word_of_int 1048)] = Some out \<and> atoi (out @ [0]) = Some 1048) \<and>
   (\<exists>out. vprintf (bytes ''%d'') [VNum (word_of_int 2147483647)] = Some out \<and> atoi (out @ [0]) = None)"
  using atoi_printf [of 1048 "[]"] atoi_printf [of 2147483647 "[]"] by simp

end
