(* ===== verification/Grep.thy ===== *)
theory Grep
  imports User_Lib
begin

text \<open>
  \<^verbatim>\<open>user/grep.c\<close>: the regular expression matcher and the line loop. The matcher works on the
  C strings of pattern and text; its lemmas relate it to the language that a pattern denotes. The
  line loop keeps the bytes of \<^verbatim>\<open>buf\<close> that are not yet a complete line; \<open>rd\<close> is the system call
  \<open>read\<close> and returns the bytes it stores, none at the end of the input or on an error. The loop
  runs with fuel, and more fuel than the input has bytes is shown to be enough.
\<close>

section \<open>Definitions\<close>

subsection \<open>The matcher\<close>

function matchhere :: "byte list \<Rightarrow> byte list \<Rightarrow> bool"
  and matchstar :: "byte \<Rightarrow> byte list \<Rightarrow> byte list \<Rightarrow> bool" where
  "matchhere re tx =
     (if deref re = 0 then True
      else if deref (tl re) = ch CHR ''*'' then matchstar (deref re) (drop 2 re) tx
      else if deref re = ch CHR ''$'' \<and> deref (tl re) = 0 then deref tx = 0
      else if deref tx \<noteq> 0 \<and> (deref re = ch CHR ''.'' \<or> deref re = deref tx)
      then matchhere (tl re) (tl tx)
      else False)"
| "matchstar c re tx =
     (if matchhere re tx then True
      else if deref tx \<noteq> 0 \<and> (deref tx = c \<or> c = ch CHR ''.'') then matchstar c re (tl tx)
      else False)"
  by pat_completeness auto
termination
  by (relation "measures [\<lambda>x. case x of Inl (re, tx) \<Rightarrow> length re | Inr (c, re, tx) \<Rightarrow> length re,
        \<lambda>x. case x of Inl (re, tx) \<Rightarrow> length tx | Inr (c, re, tx) \<Rightarrow> length tx,
        \<lambda>x. case x of Inl _ \<Rightarrow> 0 | Inr _ \<Rightarrow> 1]")
    (auto simp: deref_def split: list.splits)

function match_loop :: "byte list \<Rightarrow> byte list \<Rightarrow> bool" where
  "match_loop re tx =
     (if matchhere re tx then True
      else if deref tx \<noteq> 0 then match_loop re (tl tx) else False)"
  by pat_completeness auto
termination
  by (relation "measure (\<lambda>(re, tx). length tx)") (auto simp: deref_def split: list.splits)

definition match :: "byte list \<Rightarrow> byte list \<Rightarrow> bool" where
  "match re tx =
     (if deref re = ch CHR ''^'' then matchhere (tl re) tx else match_loop re tx)"

declare matchhere.simps [simp del] matchstar.simps [simp del] match_loop.simps [simp del]

subsection \<open>The line loop\<close>

abbreviation nl :: byte where "nl \<equiv> ch (CHR 0x0A)"

text \<open>
  The inner loop over the complete lines from \<open>p\<close> on: the bytes written and the new \<open>p\<close>. \<^verbatim>\<open>*q = 0\<close>
  ends the line for \<open>match\<close>; the store of the newline is undone or never read again.
\<close>

function grep_lines :: "byte list \<Rightarrow> byte list \<Rightarrow> byte list \<times> byte list" where
  "grep_lines pattern p =
     (case u_strchr p nl of
        None \<Rightarrow> ([], p)
      | Some q \<Rightarrow>
          let line = take (length p - length q) p;
              out = (if match pattern line then line @ [nl] else []);
              (rest, p) = grep_lines pattern (tl q)
          in (out @ rest, p))"
  by pat_completeness auto
termination
proof (relation "measure (\<lambda>(pattern, p). length p)")
  fix pattern p q assume "u_strchr p nl = Some q"
  then have "length q \<le> length p" "p \<noteq> []" "nl \<in> set p" "q = dropWhile (\<lambda>x. x \<noteq> nl) p"
    by (auto simp: u_strchr_eq length_dropWhile_le cstr_def split: if_splits dest: set_takeWhileD)
  then have "q \<noteq> []" by (simp add: dropWhile_eq_Nil_conv)
  then show "((pattern, tl q), (pattern, p)) \<in> measure (\<lambda>(pattern, p). length p)"
    using \<open>length q \<le> length p\<close> by (cases q) auto
qed auto

declare grep_lines.simps [simp del]

definition BUFSZ :: nat where "BUFSZ = 1024"

fun grep :: "nat \<Rightarrow> (nat \<Rightarrow> 's \<Rightarrow> byte list \<times> 's) \<Rightarrow> byte list \<Rightarrow> byte list \<Rightarrow> 's \<Rightarrow>
    (byte list \<times> 's) option" where
  "grep 0 rd pattern buf s = None"
| "grep (Suc fuel) rd pattern buf s =
     (let (bs, s) = rd (BUFSZ - length buf - 1) s
      in if bs = [] then Some ([], s)
         else let (out, p) = grep_lines pattern (buf @ bs)
              in map_option (\<lambda>(rest, s). (out @ rest, s)) (grep fuel rd pattern p s))"

text \<open>
  \<open>main\<close>: the exit status, the bytes written with their file descriptors, and the state. The
  arguments are those of the command line; \<open>op\<close>, \<open>rd\<close> and \<open>cl\<close> are the system calls.
\<close>

fun grep_files :: "nat \<Rightarrow> (byte list \<Rightarrow> 's \<Rightarrow> int \<times> 's) \<Rightarrow> (int \<Rightarrow> nat \<Rightarrow> 's \<Rightarrow> byte list \<times> 's) \<Rightarrow>
    (int \<Rightarrow> 's \<Rightarrow> 's) \<Rightarrow> byte list \<Rightarrow> byte list list \<Rightarrow> 's \<Rightarrow> (int \<times> (int \<times> byte list) list \<times> 's) option" where
  "grep_files fuel op rd cl pattern [] s = Some (0, [], s)"
| "grep_files fuel op rd cl pattern (name # names) s =
     (let (fd, s) = op name s
      in if fd < 0 then
           map_option (\<lambda>m. (1, [m], s)) (u_printf (bytes ''grep: cannot open %s'' @ [nl]) [VStr (Some name)])
         else case grep fuel (rd fd) pattern [] s of
                None \<Rightarrow> None
              | Some (out, s) \<Rightarrow>
                  map_option (\<lambda>(r, ms, s). (r, (1, out) # ms, s))
                    (grep_files fuel op rd cl pattern names (cl fd s)))"

definition grep_main :: "nat \<Rightarrow> (byte list \<Rightarrow> 's \<Rightarrow> int \<times> 's) \<Rightarrow> (int \<Rightarrow> nat \<Rightarrow> 's \<Rightarrow> byte list \<times> 's) \<Rightarrow>
    (int \<Rightarrow> 's \<Rightarrow> 's) \<Rightarrow> byte list list \<Rightarrow> 's \<Rightarrow> (int \<times> (int \<times> byte list) list \<times> 's) option" where
  "grep_main fuel op rd cl argv s =
     (if length argv \<le> 1 then
        map_option (\<lambda>m. (1, [m], s)) (fprintf 2 (bytes ''usage: grep pattern [file ...]'' @ [nl]) [])
      else let pattern = argv ! 1
           in if length argv \<le> 2
              then map_option (\<lambda>(out, s). (0, [(1, out)], s)) (grep fuel (rd 0) pattern [] s)
              else grep_files fuel op rd cl pattern (drop 2 argv) s)"

section \<open>The language of a pattern\<close>

text \<open>
  A pattern is a list of items with an optional end anchor. A star applies to the character before
  it, a dollar sign is an anchor at the end of the pattern only, and a dot stands for every
  character.
\<close>

datatype item = One byte | Many byte

fun items :: "byte list \<Rightarrow> item list \<times> bool" where
  "items [] = ([], False)"
| "items [c] = (if c = ch CHR ''$'' then ([], True) else ([One c], False))"
| "items (c # d # re) =
     (if d = ch CHR ''*'' then apfst ((#) (Many c)) (items re)
      else apfst ((#) (One c)) (items (d # re)))"

definition accepts :: "byte \<Rightarrow> byte \<Rightarrow> bool" where
  "accepts c x \<longleftrightarrow> c = ch CHR ''.'' \<or> c = x"

fun item_lang :: "item \<Rightarrow> byte list set" where
  "item_lang (One c) = {[x] | x. accepts c x}"
| "item_lang (Many c) = {w. \<forall>x\<in>set w. accepts c x}"

fun lang :: "item list \<Rightarrow> byte list set" where
  "lang [] = {[]}"
| "lang (i # is) = {v @ w | v w. v \<in> item_lang i \<and> w \<in> lang is}"

text \<open>A text begins with a word of the language, and with the anchor it ends there.\<close>

definition begins :: "item list \<times> bool \<Rightarrow> byte list \<Rightarrow> bool" where
  "begins p tx \<longleftrightarrow> (\<exists>w post. tx = w @ post \<and> w \<in> lang (fst p) \<and> (snd p \<longrightarrow> post = []))"

lemma begins_Nil: "begins ([], e) tx \<longleftrightarrow> e \<longrightarrow> tx = []"
  by (auto simp: begins_def)

lemma begins_Cons:
  "begins (apfst ((#) i) p) tx \<longleftrightarrow> (\<exists>v r. tx = v @ r \<and> v \<in> item_lang i \<and> begins p r)"
  (is "?l \<longleftrightarrow> ?r")
proof
  assume ?l
  then obtain u post where "tx = u @ post" "u \<in> lang (i # fst p)" "snd p \<longrightarrow> post = []"
    unfolding begins_def by (cases p) auto
  moreover from this(2) obtain v w where "u = v @ w" "v \<in> item_lang i" "w \<in> lang (fst p)"
    by auto
  ultimately show ?r unfolding begins_def by (intro exI [of _ v] exI [of _ "w @ post"]) auto
next
  assume ?r
  then obtain v w post where "tx = v @ w @ post" "v \<in> item_lang i" "w \<in> lang (fst p)"
      "snd p \<longrightarrow> post = []"
    by (auto simp: begins_def)
  then show ?l unfolding begins_def by (intro exI [of _ "v @ w"] exI [of _ post]) auto
qed

lemma begins_One:
  "begins (apfst ((#) (One c)) p) tx \<longleftrightarrow> (\<exists>x r. tx = x # r \<and> accepts c x \<and> begins p r)"
  unfolding begins_Cons item_lang.simps by (simp, metis append_Cons append_Nil)

lemma begins_Many:
  "begins (apfst ((#) (Many c)) p) tx \<longleftrightarrow>
     (\<exists>v r. tx = v @ r \<and> (\<forall>x\<in>set v. accepts c x) \<and> begins p r)"
  by (simp add: begins_Cons)

lemma begins_Many_step:
  "begins (apfst ((#) (Many c)) p) tx \<longleftrightarrow> begins p tx \<or>
     (\<exists>x r. tx = x # r \<and> accepts c x \<and> begins (apfst ((#) (Many c)) p) r)"
  (is "?l \<longleftrightarrow> ?r")
proof
  assume ?l
  then obtain v r where v: "tx = v @ r" "\<forall>x\<in>set v. accepts c x" "begins p r"
    by (auto simp: begins_Many)
  then show ?r by (cases v) (auto simp: begins_Many)
next
  assume ?r
  then show ?l
  proof
    assume "begins p tx"
    then show ?l unfolding begins_Many by (intro exI [of _ "[]"] exI [of _ tx]) simp
  next
    assume "\<exists>x r. tx = x # r \<and> accepts c x \<and> begins (apfst ((#) (Many c)) p) r"
    then obtain x v r where "tx = x # v @ r" "accepts c x" "\<forall>x\<in>set v. accepts c x" "begins p r"
      by (auto simp: begins_Many)
    then show ?l unfolding begins_Many by (intro exI [of _ "x # v"] exI [of _ r]) simp
  qed
qed

lemma matchhere_exact:
  "matchhere re tx \<longleftrightarrow> begins (items (cstr re)) (cstr tx)"
  "matchstar c re' tx' \<longleftrightarrow> begins (apfst ((#) (Many c)) (items (cstr re'))) (cstr tx')"
proof (induction re tx and c re' tx' rule: matchhere_matchstar.induct)
  case (1 re tx)
  show ?case
  proof (cases re)
    case Nil
    then show ?thesis by (simp add: matchhere.simps begins_Nil)
  next
    case (Cons c r)
    show ?thesis
    proof (cases "c = 0")
      case True
      with Cons show ?thesis by (simp add: matchhere.simps begins_Nil)
    next
      case c: False
      show ?thesis
      proof (cases "deref r = ch CHR ''*''")
        case True
        then have "cstr re = c # ch CHR ''*'' # cstr (drop 2 re)"
          using Cons c by (cases r) (auto simp: ch_def)
        with 1(1) Cons c True show ?thesis by (simp add: matchhere.simps [of "c # r"])
      next
        case star: False
        then have items: "items (cstr re) =
            (if c = ch CHR ''$'' \<and> deref r = 0 then ([], True) else apfst ((#) (One c)) (items (cstr r)))"
          using Cons c by (cases r) auto
        show ?thesis
        proof (cases "c = ch CHR ''$'' \<and> deref r = 0")
          case True
          then show ?thesis unfolding items using Cons c star
            by (cases tx) (auto simp: matchhere.simps [of "c # r" for c r] begins_Nil)
        next
          case False
          show ?thesis unfolding items if_not_P [OF False] begins_One
            using 1(2) Cons c star False
            by (cases tx) (auto simp: matchhere.simps [of "c # r" for c r] accepts_def)
        qed
      qed
    qed
  qed
next
  case (2 c re tx)
  show ?case
    unfolding begins_Many_step [of c _ "cstr tx"] matchstar.simps [of c re tx]
    using 2 by (cases tx) (auto simp: accepts_def)
qed

lemma match_loop_exact:
  "match_loop re tx \<longleftrightarrow> (\<exists>pre r. cstr tx = pre @ r \<and> begins (items (cstr re)) r)"
proof (induction re tx rule: match_loop.induct)
  case (1 re tx)
  let ?P = "begins (items (cstr re))"
  have step: "(\<exists>pre r. cstr tx = pre @ r \<and> ?P r) \<longleftrightarrow>
      ?P (cstr tx) \<or> (deref tx \<noteq> 0 \<and> (\<exists>pre r. cstr (tl tx) = pre @ r \<and> ?P r))" (is "?l \<longleftrightarrow> ?r")
  proof
    assume ?l
    then obtain pre r where "cstr tx = pre @ r" "?P r" by blast
    then show ?r by (cases pre; cases tx) (auto split: if_splits)
  next
    assume ?r
    then show ?l
    proof
      assume "?P (cstr tx)"
      then show ?l by (intro exI [of _ "[]"] exI [of _ "cstr tx"]) simp
    next
      assume "deref tx \<noteq> 0 \<and> (\<exists>pre r. cstr (tl tx) = pre @ r \<and> ?P r)"
      then obtain pre r where "cstr tx = (deref tx # pre) @ r" "?P r"
        using cstr_step [of tx] by auto
      then show ?l by blast
    qed
  qed
  show ?case
    unfolding match_loop.simps [of re tx] step using 1 by (auto simp: matchhere_exact)
qed

text \<open>
  C33. The matcher of \<open>grep\<close> decides its regular expressions: \<open>match\<close> is true exactly if the text has a
  substring in the language of the pattern, at the start of the text if the pattern begins with a
  circumflex and at its end if the pattern ends with a dollar sign. It terminates on every
  pattern and text, and looks at no byte past their NULs.
\<close>

theorem match_exact:
  "match re tx \<longleftrightarrow>
     (let anchored = deref re = ch CHR ''^''; p = items (cstr (if anchored then tl re else re))
      in \<exists>pre w post. cstr tx = pre @ w @ post \<and> w \<in> lang (fst p) \<and>
           (anchored \<longrightarrow> pre = []) \<and> (snd p \<longrightarrow> post = []))"
proof -
  have begins: "(\<exists>w post. r = w @ post \<and> w \<in> lang (fst p) \<and> (snd p \<longrightarrow> post = [])) \<longleftrightarrow> begins p r"
    for p r by (simp add: begins_def)
  show ?thesis
  proof (cases "deref re = ch CHR ''^''")
    case True
    then show ?thesis by (simp add: match_def matchhere_exact begins)
  next
    case False
    then show ?thesis by (simp add: match_def match_loop_exact begins_def Let_def) blast
  qed
qed

theorem match_exact_witness: "match (bytes ''b*c$'') (bytes ''abbc'')"
proof -
  let ?p = "items (cstr (bytes ''b*c$''))"
  have p: "?p = ([Many (ch CHR ''b''), One (ch CHR ''c'')], True)" by code_simp
  have "bytes ''bb'' @ [ch CHR ''c''] \<in> lang (fst ?p)"
  proof -
    have "bytes ''bb'' \<in> item_lang (Many (ch CHR ''b''))" by (simp add: bytes_def accepts_def)
    moreover have "[ch CHR ''c''] \<in> lang [One (ch CHR ''c'')]" by (simp add: accepts_def)
    ultimately show ?thesis unfolding p fst_conv lang.simps(2) [of "Many _"] by blast
  qed
  moreover have "cstr (bytes ''abbc'') = bytes ''a'' @ (bytes ''bb'' @ [ch CHR ''c'']) @ []" by code_simp
  moreover have "deref (bytes ''b*c$'') \<noteq> ch CHR ''^''" by code_simp
  ultimately show ?thesis
    unfolding match_exact Let_def
    by (intro exI [of _ "bytes ''a''"] exI [of _ "bytes ''bb'' @ [ch CHR ''c'']"] exI [of _ "[]"]) simp
qed

section \<open>The lines that are printed\<close>

text \<open>The complete lines of a text, and what follows the last of them.\<close>

function lines :: "byte list \<Rightarrow> byte list list" where
  "lines xs =
     (if nl \<in> set xs
      then takeWhile (\<lambda>x. x \<noteq> nl) xs # lines (tl (dropWhile (\<lambda>x. x \<noteq> nl) xs)) else [])"
  by pat_completeness auto
termination
proof (relation "measure length")
  fix xs :: "byte list" assume "nl \<in> set xs"
  then have "dropWhile (\<lambda>x. x \<noteq> nl) xs \<noteq> []" by (simp add: dropWhile_eq_Nil_conv)
  then show "(tl (dropWhile (\<lambda>x. x \<noteq> nl) xs), xs) \<in> measure length"
    using length_dropWhile_le [of "\<lambda>x. x \<noteq> nl" xs]
    by (cases "dropWhile (\<lambda>x. x \<noteq> nl) xs") auto
qed simp

declare lines.simps [simp del]

definition printed :: "byte list \<Rightarrow> byte list \<Rightarrow> byte list" where
  "printed pattern xs = concat (map (\<lambda>l. l @ [nl]) (filter (match pattern) (lines xs)))"

lemma lines_first: "nl \<notin> set l \<Longrightarrow> lines (l @ nl # r) = l # lines r"
proof -
  assume l: "nl \<notin> set l"
  then have "takeWhile (\<lambda>x. x \<noteq> nl) (l @ nl # r) = l" "dropWhile (\<lambda>x. x \<noteq> nl) (l @ nl # r) = nl # r"
    by (induction l) auto
  then show ?thesis by (subst lines.simps) simp
qed

lemma lines_none: "nl \<notin> set xs \<Longrightarrow> lines xs = []"
  by (simp add: lines.simps)

lemma split_first:
  assumes "nl \<in> set xs"
  obtains l r where "xs = l @ nl # r" "nl \<notin> set l"
  using split_list_first [OF assms] by blast

lemma printed_first:
  "nl \<notin> set l \<Longrightarrow>
   printed pattern (l @ nl # r) = (if match pattern l then l @ [nl] else []) @ printed pattern r"
  by (simp add: printed_def lines_first)

lemma strchr_first:
  assumes "0 \<notin> set (l @ nl # r)" "nl \<notin> set l"
  shows "u_strchr (l @ nl # r) nl = Some (nl # r)"
proof -
  have "cstr (l @ nl # r) = l @ nl # r"
    using assms(1) unfolding cstr_def by (intro takeWhile_eq_all_conv [THEN iffD2]) auto
  moreover have "dropWhile (\<lambda>x. x \<noteq> nl) (l @ nl # r) = nl # r"
    using assms(2) by (induction l) auto
  ultimately show ?thesis by (simp add: u_strchr_eq)
qed

lemma grep_lines_first:
  assumes "0 \<notin> set (l @ nl # r)" "nl \<notin> set l"
  shows "grep_lines pattern (l @ nl # r) =
    apfst ((@) (if match pattern l then l @ [nl] else [])) (grep_lines pattern r)"
  by (subst grep_lines.simps) (simp add: strchr_first [OF assms] split: prod.splits)

lemma grep_lines_none: "nl \<notin> set p \<Longrightarrow> grep_lines pattern p = ([], p)"
  by (subst grep_lines.simps) (auto simp: u_strchr_eq cstr_def dest: set_takeWhileD)

text \<open>
  The inner loop prints the lines of the buffer and keeps the rest, so that reading on gives the
  lines of the whole input.
\<close>

lemma grep_lines_ok:
  assumes "0 \<notin> set p" "grep_lines pattern p = (out, q)"
  shows "nl \<notin> set q \<and> set q \<subseteq> set p \<and> length q \<le> length p \<and>
    (\<forall>r. printed pattern (p @ r) = out @ printed pattern (q @ r)) \<and>
    (\<forall>r. set (lines (q @ r)) \<subseteq> set (lines (p @ r)))"
  using assms
proof (induction "length p" arbitrary: p out rule: less_induct)
  case less
  show ?case
  proof (cases "nl \<in> set p")
    case False
    with less.prems show ?thesis by (simp add: grep_lines_none)
  next
    case True
    then obtain l r where p: "p = l @ nl # r" and l: "nl \<notin> set l" by (rule split_first)
    obtain out' where r: "grep_lines pattern r = (out', q)"
      and out: "out = (if match pattern l then l @ [nl] else []) @ out'"
      using less.prems grep_lines_first [of l r pattern] l
      by (cases "grep_lines pattern r") (auto simp: p split: if_splits)
    from less.hyps [OF _ _ r] less.prems(1) show ?thesis
      using printed_first [OF l] lines_first [OF l] unfolding out p by auto
  qed
qed

text \<open>
  A source of bytes: \<open>read\<close> of at most \<open>k\<close> bytes returns a prefix of what is left, and nothing only
  if nothing is asked for or nothing is left. How much it returns is open, as for a file, a
  pipe or the console.
\<close>

definition reader :: "(nat \<Rightarrow> 's \<Rightarrow> byte list \<times> 's) \<Rightarrow> ('s \<Rightarrow> byte list) \<Rightarrow> bool" where
  "reader rd content \<longleftrightarrow>
     (\<forall>k s. content s = fst (rd k s) @ content (snd (rd k s)) \<and> length (fst (rd k s)) \<le> k \<and>
        (fst (rd k s) = [] \<longrightarrow> k = 0 \<or> content s = []))"

lemma readerD:
  assumes "reader rd content" "rd k s = (bs, s')"
  shows "content s = bs @ content s'" "length bs \<le> k" "bs = [] \<Longrightarrow> k = 0 \<or> content s = []"
  using assms unfolding reader_def by (metis fst_conv snd_conv)+

lemma no_line_if_long:
  assumes "nl \<notin> set b" "\<forall>l\<in>set (lines (b @ c)). length l < length b"
  shows "lines (b @ c) = []"
proof (cases "nl \<in> set c")
  case True
  then obtain l r where "c = l @ nl # r" "nl \<notin> set l" by (rule split_first)
  with assms lines_first [of "b @ l" r] show ?thesis by simp
qed (use assms in \<open>simp add: lines_none\<close>)

lemma grep_ok:
  assumes rd: "reader rd content"
  shows "length (content s) < fuel \<Longrightarrow> nl \<notin> set b \<Longrightarrow> 0 \<notin> set (b @ content s) \<Longrightarrow>
    length b < BUFSZ \<Longrightarrow>
    \<forall>l\<in>set (lines (b @ content s)). length l < BUFSZ - 1 \<Longrightarrow>
    \<exists>s'. grep fuel rd pattern b s = Some (printed pattern (b @ content s), s')"
proof (induction fuel arbitrary: b s)
  case 0
  then show ?case by simp
next
  case (Suc fuel)
  obtain bs s1 where r: "rd (BUFSZ - length b - 1) s = (bs, s1)" by fastforce
  note R = readerD [OF rd r]
  show ?case
  proof (cases "bs = []")
    case True
    with R(3) Suc.prems(4) consider "content s = []" | "length b = BUFSZ - 1" by linarith
    then have "lines (b @ content s) = []"
    proof cases
      case 1
      with Suc.prems(2) show ?thesis by (simp add: lines_none)
    next
      case 2
      with Suc.prems(2,5) show ?thesis by (intro no_line_if_long) auto
    qed
    then show ?thesis using r True by (simp add: printed_def)
  next
    case False
    obtain out p where g: "grep_lines pattern (b @ bs) = (out, p)" by fastforce
    have z: "0 \<notin> set (b @ bs)" using Suc.prems(3) R(1) by auto
    note G = grep_lines_ok [OF z g]
    have lp: "length p < BUFSZ" using G R(2) Suc.prems(4) by auto
    have "length (content s1) < fuel" using Suc.prems(1) R(1) False by (cases bs) auto
    moreover have "0 \<notin> set (p @ content s1)" using G Suc.prems(3) R(1) by auto
    moreover have "\<forall>l\<in>set (lines (p @ content s1)). length l < BUFSZ - 1"
    proof -
      from G have "set (lines (p @ content s1)) \<subseteq> set (lines ((b @ bs) @ content s1))" by blast
      with Suc.prems(5) R(1) show ?thesis by auto
    qed
    ultimately obtain s' where "grep fuel rd pattern p s1 = Some (printed pattern (p @ content s1), s')"
      using Suc.IH [of s1 p] G lp by auto
    moreover have "printed pattern (b @ content s) = out @ printed pattern (p @ content s1)"
      using G R(1) by simp
    ultimately show ?thesis using r g False by simp
  qed
qed


lemma grep_long_line:
  assumes rd: "reader rd content"
  shows "length (content s) < fuel \<Longrightarrow> length b < BUFSZ \<Longrightarrow>
    nl \<notin> set (take (BUFSZ - 1) (b @ content s)) \<Longrightarrow> \<exists>s'. grep fuel rd pattern b s = Some ([], s')"
proof (induction fuel arbitrary: b s)
  case 0
  then show ?case by simp
next
  case (Suc fuel)
  obtain bs s1 where r: "rd (BUFSZ - length b - 1) s = (bs, s1)" by fastforce
  note R = readerD [OF rd r]
  have "length (b @ bs) \<le> BUFSZ - 1" using R(2) Suc.prems(2) by simp
  then have "take (BUFSZ - 1) ((b @ bs) @ content s1) =
      (b @ bs) @ take (BUFSZ - 1 - length (b @ bs)) (content s1)"
    by (subst take_append) (simp only: take_all)
  then have "nl \<notin> set ((b @ bs) @ take (BUFSZ - 1 - length (b @ bs)) (content s1))"
    using Suc.prems(3) unfolding R(1) append_assoc by (simp only: not_False_eq_True)
  then have nb: "nl \<notin> set (b @ bs)" unfolding set_append by blast
  show ?case
  proof (cases "bs = []")
    case True
    then show ?thesis using r by simp
  next
    case False
    then have "length (content s1) < fuel" using Suc.prems(1) R(1) by (cases bs) auto
    moreover have "length (b @ bs) < BUFSZ" using R(2) Suc.prems(2) by simp
    moreover have "nl \<notin> set (take (BUFSZ - 1) ((b @ bs) @ content s1))" using Suc.prems(3) R(1) by simp
    ultimately obtain s' where "grep fuel rd pattern (b @ bs) s1 = Some ([], s')"
      using Suc.IH by blast
    then show ?thesis using r False grep_lines_none [OF nb] by simp
  qed
qed

text \<open>
  C35. A line too long for the buffer ends \<open>grep\<close> silently: if the first 1023 bytes of the input hold
  no newline, \<open>read\<close> is then asked for no byte at all, its 0 is taken for the end of the input,
  and no line of the rest is printed, matching or not.
\<close>

theorem grep_long_line_stops:
  assumes "reader rd content" "nl \<notin> set (take 1023 (content s))"
  shows "\<exists>s'. grep (Suc (length (content s))) rd pattern [] s = Some ([], s')"
  using grep_long_line [OF assms(1), of s "Suc (length (content s))" "[]" pattern] assms(2)
  by (simp add: BUFSZ_def)

text \<open>A source that returns at most 3 bytes at a time.\<close>

definition rd3 :: "nat \<Rightarrow> byte list \<Rightarrow> byte list \<times> byte list" where
  "rd3 k s = (take (min k 3) s, drop (min k 3) s)"

lemma reader_rd3: "reader rd3 id"
  by (auto simp: reader_def rd3_def)


theorem grep_long_line_stops_witness:
  "\<exists>s'. grep (Suc (1025 + 2)) rd3 (bytes ''x'') [] (replicate 1025 1 @ bytes ''x'' @ [nl]) = Some ([], s')"
proof -
  have "set (take 1023 (replicate 1025 1 @ bytes ''x'' @ [nl])) \<subseteq> {1}" by simp
  moreover have "nl \<noteq> 1" by (simp add: ch_def)
  ultimately have "nl \<notin> set (take 1023 (id (replicate 1025 1 @ bytes ''x'' @ [nl])))" by auto
  from grep_long_line_stops [OF reader_rd3 this, of "bytes ''x''"]
  show ?thesis by (simp add: bytes_def)
qed

end
