(* ===== verification/Sh_Parse.thy ===== *)
theory Sh_Parse
  imports User_Lib "HOL-Library.Sublist"
begin

text \<open>
  The parser of the shell, \<^verbatim>\<open>user/sh.c\<close> from \<open>gettoken\<close> on. A pointer into the line is the rest
  of the line from there on, so the pointer \<open>es\<close> is the empty list and \<^verbatim>\<open>*s\<close> is \<open>deref s\<close>. A parse
  function returns its command with the new position, or the error with which the shell exits. The
  functions run with fuel, and the fuel that \<open>parsecmd\<close> gives them is shown to be enough.

  A node of \<open>parseexec\<close> is filled in while redirections are already wrapped around it; the model
  collects arguments and redirections and builds the command at the end. Memory is always
  available: \<open>malloc\<close> of the node constructors does not fail.
\<close>

unbundle bit_operations_syntax

section \<open>Definitions\<close>

subsection \<open>Commands\<close>

definition MAXARGS :: nat where "MAXARGS = 10"

text \<open>
  A command over the type of its strings: pairs of pointers \<open>q\<close> and \<open>eq\<close> while parsing, C strings
  once the line is cut into strings.
\<close>

datatype 'w cmd =
    Execcmd "'w list"
  | Redircmd "'w cmd" 'w int int
  | Pipecmd "'w cmd" "'w cmd"
  | Listcmd "'w cmd" "'w cmd"
  | Backcmd "'w cmd"

type_synonym word_at = "byte list \<times> byte list"

datatype parse_error = Syntax string | Leftovers "byte list" | Stuck

subsection \<open>Tokens\<close>

definition whitespace :: "byte list" where
  "whitespace = [ch CHR '' '', ch (CHR 0x09), ch (CHR 0x0D), ch (CHR 0x0A), ch (CHR 0x0B)]"

definition symbols :: "byte list" where
  "symbols = bytes ''<|>&;()''"

fun skip_ws :: "byte list \<Rightarrow> byte list" where
  "skip_ws [] = []"
| "skip_ws (c # s) = (if u_strchr whitespace c \<noteq> None then skip_ws s else c # s)"

fun skip_word :: "byte list \<Rightarrow> byte list" where
  "skip_word [] = []"
| "skip_word (c # s) =
     (if u_strchr whitespace c = None \<and> u_strchr symbols c = None then skip_word s else c # s)"

text \<open>\<open>gettoken\<close>: the token, the pointers \<open>q\<close> and \<open>eq\<close> around it, and the new position.\<close>

definition gettoken :: "byte list \<Rightarrow> byte \<times> byte list \<times> byte list \<times> byte list" where
  "gettoken ps =
     (let s = skip_ws ps;
          q = s;
          (tok, s) =
            (if deref s = 0 then (0, s)
             else if deref s = ch CHR ''|'' \<or> deref s = ch CHR ''('' \<or> deref s = ch CHR '')'' \<or>
                     deref s = ch CHR '';'' \<or> deref s = ch CHR ''&'' \<or> deref s = ch CHR ''<''
             then (deref s, tl s)
             else if deref s = ch CHR ''>'' then
               (if deref (tl s) = ch CHR ''>'' then (ch CHR ''+'', tl (tl s)) else (deref s, tl s))
             else (ch CHR ''a'', skip_word s))
      in (tok, q, s, skip_ws s))"

definition peek :: "byte list \<Rightarrow> string \<Rightarrow> bool \<times> byte list" where
  "peek ps toks =
     (let s = skip_ws ps in (deref s \<noteq> 0 \<and> u_strchr (bytes toks) (deref s) \<noteq> None, s))"

subsection \<open>The parse functions\<close>

definition O_RDONLY :: int where "O_RDONLY = 0x000"

definition O_WRONLY :: int where "O_WRONLY = 0x001"

definition O_CREATE :: int where "O_CREATE = 0x200"

definition O_TRUNC :: int where "O_TRUNC = 0x400"

type_synonym 'w redir = "'w \<times> int \<times> int"

text \<open>The redirections that \<open>parseredirs\<close> wraps around its command, the innermost first.\<close>

definition wrap :: "'w cmd \<Rightarrow> 'w redir list \<Rightarrow> 'w cmd" where
  "wrap c rs = foldl (\<lambda>c (w, mode, fd). Redircmd c w mode fd) c rs"

definition redir_of :: "byte \<Rightarrow> 'w \<Rightarrow> 'w redir list" where
  "redir_of tok w =
     (if tok = ch CHR ''<'' then [(w, O_RDONLY, 0)]
      else if tok = ch CHR ''>'' then [(w, O_WRONLY OR O_CREATE OR O_TRUNC, 1)]
      else if tok = ch CHR ''+'' then [(w, O_WRONLY OR O_CREATE, 1)]
      else [])"

fun parseredirs :: "nat \<Rightarrow> byte list \<Rightarrow> parse_error + (word_at redir list \<times> byte list)" where
  "parseredirs 0 s = Inl Stuck"
| "parseredirs (Suc n) s =
     (let (b, s) = peek s ''<>''
      in if \<not> b then Inr ([], s)
         else let (tok, _, _, s) = gettoken s; (a, q, eq, s) = gettoken s
              in if a \<noteq> ch CHR ''a'' then Inl (Syntax ''missing file for redirection'')
                 else case parseredirs n s of
                        Inl e \<Rightarrow> Inl e
                      | Inr (rs, s) \<Rightarrow> Inr (redir_of tok (q, eq) @ rs, s))"

text \<open>The loop of \<open>parseexec\<close> over the arguments.\<close>

fun parse_args :: "nat \<Rightarrow> word_at list \<Rightarrow> word_at redir list \<Rightarrow> byte list \<Rightarrow>
    parse_error + (word_at cmd \<times> byte list)" where
  "parse_args 0 argv rs s = Inl Stuck"
| "parse_args (Suc n) argv rs s =
     (let (b, s) = peek s ''|)&;''
      in if b then Inr (wrap (Execcmd argv) rs, s)
         else let (tok, q, eq, s) = gettoken s
              in if tok = 0 then Inr (wrap (Execcmd argv) rs, s)
                 else if tok \<noteq> ch CHR ''a'' then Inl (Syntax ''syntax'')
                 else if length (argv @ [(q, eq)]) \<ge> MAXARGS then Inl (Syntax ''too many args'')
                 else case parseredirs n s of
                        Inl e \<Rightarrow> Inl e
                      | Inr (rs', s) \<Rightarrow> parse_args n (argv @ [(q, eq)]) (rs @ rs') s)"

text \<open>The loop of \<open>parseline\<close> over ampersands.\<close>

fun parse_backs :: "nat \<Rightarrow> word_at cmd \<Rightarrow> byte list \<Rightarrow> parse_error + (word_at cmd \<times> byte list)" where
  "parse_backs 0 c s = Inl Stuck"
| "parse_backs (Suc n) c s =
     (let (b, s) = peek s ''&''
      in if b then let (_, _, _, s) = gettoken s in parse_backs n (Backcmd c) s else Inr (c, s))"

fun parseline :: "nat \<Rightarrow> byte list \<Rightarrow> parse_error + (word_at cmd \<times> byte list)"
  and parsepipe :: "nat \<Rightarrow> byte list \<Rightarrow> parse_error + (word_at cmd \<times> byte list)"
  and parseexec :: "nat \<Rightarrow> byte list \<Rightarrow> parse_error + (word_at cmd \<times> byte list)"
  and parseblock :: "nat \<Rightarrow> byte list \<Rightarrow> parse_error + (word_at cmd \<times> byte list)" where
  "parseline 0 s = Inl Stuck"
| "parseline (Suc n) s =
     (case parsepipe n s of
        Inl e \<Rightarrow> Inl e
      | Inr (c, s) \<Rightarrow>
          (case parse_backs n c s of
             Inl e \<Rightarrow> Inl e
           | Inr (c, s) \<Rightarrow>
               let (b, s) = peek s '';''
               in if b then
                    let (_, _, _, s) = gettoken s
                    in case parseline n s of Inl e \<Rightarrow> Inl e | Inr (c', s) \<Rightarrow> Inr (Listcmd c c', s)
                  else Inr (c, s)))"
| "parsepipe 0 s = Inl Stuck"
| "parsepipe (Suc n) s =
     (case parseexec n s of
        Inl e \<Rightarrow> Inl e
      | Inr (c, s) \<Rightarrow>
          let (b, s) = peek s ''|''
          in if b then
               let (_, _, _, s) = gettoken s
               in case parsepipe n s of Inl e \<Rightarrow> Inl e | Inr (c', s) \<Rightarrow> Inr (Pipecmd c c', s)
             else Inr (c, s))"
| "parseexec 0 s = Inl Stuck"
| "parseexec (Suc n) s =
     (let (b, s) = peek s ''(''
      in if b then parseblock n s
         else case parseredirs n s of Inl e \<Rightarrow> Inl e | Inr (rs, s) \<Rightarrow> parse_args n [] rs s)"
| "parseblock 0 s = Inl Stuck"
| "parseblock (Suc n) s =
     (let (b, s) = peek s ''(''
      in if \<not> b then Inl (Syntax ''parseblock'')
         else let (_, _, _, s) = gettoken s
              in case parseline n s of
                   Inl e \<Rightarrow> Inl e
                 | Inr (c, s) \<Rightarrow>
                     let (b, s) = peek s '')''
                     in if \<not> b then Inl (Syntax ''syntax - missing )'')
                        else let (_, _, _, s) = gettoken s
                             in case parseredirs n s of
                                  Inl e \<Rightarrow> Inl e
                                | Inr (rs, s) \<Rightarrow> Inr (wrap c rs, s))"

text \<open>
  \<open>nulterminate\<close> stores a NUL at every pointer \<open>eq\<close> of the command: the buffer holds the line and
  its NUL, and a pointer is at the position that is as far from the end as it is long.
\<close>

definition offset :: "byte list \<Rightarrow> byte list \<Rightarrow> nat" where
  "offset buf p = length buf - Suc (length p)"

primrec nulterminate :: "word_at cmd \<Rightarrow> byte list \<Rightarrow> byte list" where
  "nulterminate (Execcmd argv) buf = fold (\<lambda>(q, eq) buf. buf[offset buf eq := 0]) argv buf"
| "nulterminate (Redircmd c w mode fd) buf =
     (let buf = nulterminate c buf in buf[offset buf (snd w) := 0])"
| "nulterminate (Pipecmd l r) buf = nulterminate r (nulterminate l buf)"
| "nulterminate (Listcmd l r) buf = nulterminate r (nulterminate l buf)"
| "nulterminate (Backcmd c) buf = nulterminate c buf"

text \<open>The C string at a pointer \<open>q\<close> of the command, in the final buffer.\<close>

definition string_at :: "byte list \<Rightarrow> word_at \<Rightarrow> byte list" where
  "string_at buf w = cstr (drop (offset buf (fst w)) buf)"

definition parsecmd :: "byte list \<Rightarrow> parse_error + (word_at cmd \<times> byte list)" where
  "parsecmd s =
     (let s = cstr s
      in case parseline (4 * length s + 4) s of
           Inl e \<Rightarrow> Inl e
         | Inr (c, r) \<Rightarrow>
             let (_, r) = peek r ''''
             in if r \<noteq> [] then Inl (Leftovers r) else Inr (c, nulterminate c (s @ [0])))"

section \<open>Tokens\<close>

definition is_ws :: "byte \<Rightarrow> bool" where
  "is_ws c \<longleftrightarrow> c \<in> set whitespace"

definition is_word :: "byte \<Rightarrow> bool" where
  "is_word c \<longleftrightarrow> c \<notin> set whitespace \<and> c \<notin> set symbols"

lemma no_nul: "0 \<notin> set whitespace" "0 \<notin> set symbols"
  by code_simp+

lemma cstr_id: "0 \<notin> set s \<Longrightarrow> cstr s = s"
  by (induction s) auto

lemma cstr_stop: "0 \<notin> set s \<Longrightarrow> cstr (s @ 0 # r) = s"
  by (induction s) auto

lemma strchr_None: "0 \<notin> set s \<Longrightarrow> u_strchr s c = None \<longleftrightarrow> c \<notin> set s"
  by (simp add: u_strchr_eq cstr_id)

lemma skip_ws_eq: "skip_ws s = dropWhile is_ws s"
  by (induction s) (auto simp: strchr_None no_nul is_ws_def simp del: not_None_eq)

lemma skip_word_eq: "skip_word s = dropWhile is_word s"
  by (induction s) (auto simp: strchr_None no_nul is_word_def simp del: not_None_eq)

declare skip_ws.simps [simp del] skip_word.simps [simp del]

lemma skip_Nil [simp]: "skip_ws [] = []" "skip_word [] = []"
  by (simp_all add: skip_ws_eq skip_word_eq)

lemma suffix_skip_ws [simp]: "suffix (skip_ws s) s"
  by (simp add: skip_ws_eq suffix_dropWhile)

lemma skip_ws_skip [simp]: "skip_ws (skip_ws s) = skip_ws s"
  by (simp add: skip_ws_eq)

lemma skip_word_split: "s = takeWhile is_word s @ skip_word s"
  by (simp add: skip_word_eq)

text \<open>
  A word of the line \<open>l\<close>: \<open>q\<close> points into the line, and the characters up to \<open>eq\<close> are the longest
  run of word characters there.
\<close>

definition word_in :: "byte list \<Rightarrow> word_at \<Rightarrow> bool" where
  "word_in l w \<longleftrightarrow>
     (case w of (q, eq) \<Rightarrow> suffix q l \<and> eq = skip_word q \<and> q \<noteq> eq)"

lemma deref_word: "deref s \<noteq> 0 \<Longrightarrow> s = deref s # tl s"
  by (cases s) auto

lemma suffix_tl: "suffix (tl s) s"
  by (cases s) (auto intro: suffix_ConsI)

lemma ws_first: "skip_ws s = c # r \<Longrightarrow> \<not> is_ws c"
  by (simp add: skip_ws_eq dropWhile_eq_Cons_conv)

lemma symbols_eq:
  "c \<in> set symbols \<longleftrightarrow> c = ch CHR ''|'' \<or> c = ch CHR ''('' \<or> c = ch CHR '')'' \<or> c = ch CHR '';'' \<or>
     c = ch CHR ''&'' \<or> c = ch CHR ''<'' \<or> c = ch CHR ''>''"
  by (auto simp: symbols_def bytes_def)

text \<open>A token lies in the line, and one other than the end of the line consumes a character.\<close>

lemma gettoken_ok:
  assumes g: "gettoken s = (tok, q, eq, s')" and l: "suffix s l"
  shows "suffix s' s" "tok = ch CHR ''a'' \<Longrightarrow> word_in l (q, eq)" "tok \<noteq> 0 \<Longrightarrow> length s' < length s"
proof -
  let ?s = "skip_ws s" and ?c = "deref (skip_ws s)"
  have tok: "q = ?s" "s' = skip_ws eq"
    using g by (auto simp: gettoken_def Let_def split: if_splits)
  have ls: "length ?s \<le> length s" using suffix_skip_ws by (rule suffix_length_le)
  have len: "length s' \<le> length eq" unfolding tok using suffix_skip_ws by (rule suffix_length_le)
  have sq: "suffix ?s l" using suffix_skip_ws l by (rule suffix_order.trans)
  consider (nul) "?c = 0" "tok = 0" "eq = ?s"
    | (sym) "?c \<noteq> 0" "tok \<noteq> ch CHR ''a''" "eq = tl ?s \<or> eq = tl (tl ?s)"
    | (word) "?c \<noteq> 0" "?c \<notin> set symbols" "tok = ch CHR ''a''" "eq = skip_word ?s"
    using g unfolding gettoken_def Let_def symbols_eq
    by (auto split: if_splits simp: ch_def)
  then have "suffix eq ?s \<and> (tok = ch CHR ''a'' \<longrightarrow> word_in l (q, eq)) \<and>
      (tok \<noteq> 0 \<longrightarrow> length eq < length ?s)"
  proof cases
    case nul
    then show ?thesis by (simp add: ch_def)
  next
    case sym
    then obtain c r where cr: "?s = c # r" by (cases ?s) auto
    have "suffix (tl r) (c # r)" by (rule suffix_ConsI [OF suffix_tl])
    with cr sym(3) have "suffix eq ?s \<and> length eq < length ?s"
      by (auto intro: suffix_ConsI)
    with sym show ?thesis by blast
  next
    case word
    then obtain c r where cr: "?s = c # r" "is_word c"
      using ws_first [of s] by (cases ?s) (auto simp: is_word_def is_ws_def)
    then have "skip_word ?s = skip_word r" by (simp add: skip_word_eq)
    moreover have "suffix (skip_word r) r" by (simp add: skip_word_eq suffix_dropWhile)
    ultimately have "suffix eq ?s \<and> length eq < length ?s"
      unfolding word(4) using cr by (auto dest: suffix_length_le intro: suffix_ConsI)
    moreover from this have "word_in l (q, eq)"
      using sq tok word(4) by (auto simp: word_in_def)
    ultimately show ?thesis by blast
  qed
  then show "suffix s' s" "tok = ch CHR ''a'' \<Longrightarrow> word_in l (q, eq)" "tok \<noteq> 0 \<Longrightarrow> length s' < length s"
    using len ls suffix_order.trans [OF suffix_skip_ws suffix_order.trans [OF _ suffix_skip_ws], of eq s]
    unfolding tok by auto
qed

section \<open>Every line is parsed or rejected\<close>

definition mode_ok :: "int \<times> int \<Rightarrow> bool" where
  "mode_ok m \<longleftrightarrow> m = (O_RDONLY, 0) \<or> m = (O_WRONLY OR O_CREATE OR O_TRUNC, 1) \<or> m = (O_WRONLY OR O_CREATE, 1)"

primrec shape :: "'w cmd \<Rightarrow> bool" where
  "shape (Execcmd argv) \<longleftrightarrow> length argv < MAXARGS"
| "shape (Redircmd c w mode fd) \<longleftrightarrow> shape c \<and> mode_ok (mode, fd)"
| "shape (Pipecmd l r) \<longleftrightarrow> shape l \<and> shape r"
| "shape (Listcmd l r) \<longleftrightarrow> shape l \<and> shape r"
| "shape (Backcmd c) \<longleftrightarrow> shape c"

definition cmd_ok :: "byte list \<Rightarrow> word_at cmd \<Rightarrow> bool" where
  "cmd_ok l c \<longleftrightarrow> shape c \<and> (\<forall>w\<in>set_cmd c. word_in l w)"

definition redirs_ok :: "byte list \<Rightarrow> word_at redir list \<Rightarrow> bool" where
  "redirs_ok l rs \<longleftrightarrow> (\<forall>(w, m)\<in>set rs. word_in l w \<and> mode_ok m)"

text \<open>The outcome of a parse function called at \<open>s\<close> in the line \<open>l\<close>.\<close>

fun outcome :: "(byte list \<Rightarrow> 'a \<Rightarrow> bool) \<Rightarrow> byte list \<Rightarrow> byte list \<Rightarrow> parse_error + ('a \<times> byte list) \<Rightarrow> bool" where
  "outcome P l s (Inl e) \<longleftrightarrow> e \<noteq> Stuck"
| "outcome P l s (Inr (x, s')) \<longleftrightarrow> suffix s' s \<and> P l x"

lemma outcome_Inl: "r = Inl e \<Longrightarrow> outcome P l s r \<Longrightarrow> e \<noteq> Stuck"
  by simp

lemma outcome_Inr: "r = Inr (x, s') \<Longrightarrow> outcome P l s r \<Longrightarrow> suffix s' s \<and> P l x"
  by simp

lemma outcome_mono: "outcome P l s' r \<Longrightarrow> suffix s' s \<Longrightarrow> outcome P l s r"
  by (cases r) (auto intro: suffix_order.trans)

lemma cmd_ok_simps [simp]:
  "cmd_ok l (Execcmd argv) \<longleftrightarrow> length argv < MAXARGS \<and> (\<forall>w\<in>set argv. word_in l w)"
  "cmd_ok l (Redircmd c w mode fd) \<longleftrightarrow> cmd_ok l c \<and> word_in l w \<and> mode_ok (mode, fd)"
  "cmd_ok l (Pipecmd c d) \<longleftrightarrow> cmd_ok l c \<and> cmd_ok l d"
  "cmd_ok l (Listcmd c d) \<longleftrightarrow> cmd_ok l c \<and> cmd_ok l d"
  "cmd_ok l (Backcmd c) \<longleftrightarrow> cmd_ok l c"
  by (auto simp: cmd_ok_def)

lemma redirs_ok_simps [simp]:
  "redirs_ok l []" "redirs_ok l ((w, m) # rs) \<longleftrightarrow> word_in l w \<and> mode_ok m \<and> redirs_ok l rs"
  "redirs_ok l (rs @ rs') \<longleftrightarrow> redirs_ok l rs \<and> redirs_ok l rs'"
  by (auto simp: redirs_ok_def)

lemma wrap_ok: "cmd_ok l c \<Longrightarrow> redirs_ok l rs \<Longrightarrow> cmd_ok l (wrap c rs)"
  by (induction rs arbitrary: c) (auto simp: wrap_def)

lemma redir_of_ok: "word_in l w \<Longrightarrow> redirs_ok l (redir_of tok w)"
  by (simp add: redir_of_def mode_ok_def)

lemma peekD: "peek s toks = (b, s') \<Longrightarrow> s' = skip_ws s \<and> (b \<longrightarrow> deref s' \<noteq> 0)"
  by (auto simp: peek_def Let_def)

lemma gettoken_nonzero:
  "gettoken s = (tok, q, eq, s') \<Longrightarrow> deref (skip_ws s) \<noteq> 0 \<Longrightarrow> tok \<noteq> 0"
  by (auto simp: gettoken_def Let_def ch_def split: if_splits)

text \<open>A character that was seen by \<open>peek\<close> is consumed.\<close>

lemma advance:
  assumes "peek s toks = (b, s1)" "gettoken s1 = (tok, q, eq, s2)" "b"
  shows "suffix s2 s \<and> length s2 < length s"
proof -
  have s1: "s1 = skip_ws s" "deref s1 \<noteq> 0" using peekD [OF assms(1)] assms(3) by auto
  then have "tok \<noteq> 0" using gettoken_nonzero [OF assms(2)] by simp
  with gettoken_ok [OF assms(2), of s] s1 suffix_length_le [OF suffix_skip_ws, of s] show ?thesis
    using suffix_order.trans [OF _ suffix_skip_ws, of s2 s] by auto
qed

lemma parseredirs_ok:
  "suffix s l \<Longrightarrow> length s < n \<Longrightarrow> outcome redirs_ok l s (parseredirs n s)"
proof (induction n arbitrary: s)
  case 0
  then show ?case by simp
next
  case (Suc n)
  obtain b s1 where p: "peek s ''<>'' = (b, s1)" by fastforce
  obtain tok q eq s2 where g: "gettoken s1 = (tok, q, eq, s2)" by (metis prod.exhaust)
  obtain a q' eq' s3 where h: "gettoken s2 = (a, q', eq', s3)" by (metis prod.exhaust)
  show ?case
  proof (cases b)
    case False
    then show ?thesis using p peekD [OF p] by simp
  next
    case True
    have s2: "suffix s2 s" "length s2 < length s" using advance [OF p g True] by auto
    have s3: "suffix s3 s" "length s3 < n" "suffix s3 l"
      using gettoken_ok(1) [OF h suffix_order.trans [OF s2(1) Suc.prems(1)]] s2 Suc.prems
      by (auto dest: suffix_length_le intro: suffix_order.trans)
    have w: "a = ch CHR ''a'' \<Longrightarrow> word_in l (q', eq')"
      using gettoken_ok(2) [OF h] s2(1) Suc.prems(1) suffix_order.trans by blast
    from Suc.IH [OF s3(3,2)] have "outcome redirs_ok l s (parseredirs n s3)"
      by (rule outcome_mono) (rule s3(1))
    then show ?thesis using p g h True w
      by (cases "parseredirs n s3") (auto simp: redir_of_ok)
  qed
qed

lemma parse_args_ok:
  "suffix s l \<Longrightarrow> length s < n \<Longrightarrow> length argv < MAXARGS \<Longrightarrow> \<forall>w\<in>set argv. word_in l w \<Longrightarrow>
   redirs_ok l rs \<Longrightarrow> outcome cmd_ok l s (parse_args n argv rs s)"
proof (induction n arbitrary: s argv rs)
  case 0
  then show ?case by simp
next
  case (Suc n)
  obtain b s1 where p: "peek s ''|)&;'' = (b, s1)" by fastforce
  obtain tok q eq s2 where g: "gettoken s1 = (tok, q, eq, s2)" by (metis prod.exhaust)
  have s1: "suffix s1 s" "suffix s1 l" "length s1 \<le> length s"
    using peekD [OF p] suffix_order.trans [OF suffix_skip_ws Suc.prems(1)]
      suffix_length_le [OF suffix_skip_ws, of s]
    by auto
  have wr: "cmd_ok l (wrap (Execcmd argv) rs)" using Suc.prems by (intro wrap_ok) auto
  have s2: "suffix s2 s" using gettoken_ok(1) [OF g s1(2)] s1(1) suffix_order.trans by blast
  note g2 = gettoken_ok(2,3) [OF g s1(2)]
  show ?case
  proof (cases "b \<or> tok \<noteq> ch CHR ''a'' \<or> MAXARGS \<le> Suc (length argv)")
    case True
    then show ?thesis using p g wr s1 s2 by auto
  next
    case False
    then have s2n: "length s2 < n" "suffix s2 l" "word_in l (q, eq)"
      using g2 s1 s2 Suc.prems(1,2) by (auto simp: ch_def intro: suffix_order.trans)
    note pr = parseredirs_ok [OF s2n(2,1)]
    show ?thesis
    proof (cases "parseredirs n s2")
      case (Inl e)
      then show ?thesis using p g False outcome_Inl [OF Inl pr] by (auto simp: ch_def)
    next
      case (Inr x)
      then obtain rs' s3 where x: "parseredirs n s2 = Inr (rs', s3)" by (cases x) auto
      from outcome_Inr [OF x pr] have s3: "suffix s3 s2" "redirs_ok l rs'" by auto
      have "outcome cmd_ok l s3 (parse_args n (argv @ [(q, eq)]) (rs @ rs') s3)"
        using s3 s2n False Suc.prems(4,5)
        by (intro Suc.IH) (auto dest: suffix_length_le intro: suffix_order.trans)
      then show ?thesis
        using p g x False suffix_order.trans [OF s3(1) s2] by (auto intro: outcome_mono simp: ch_def)
    qed
  qed
qed

lemma parse_backs_ok:
  "suffix s l \<Longrightarrow> length s < n \<Longrightarrow> cmd_ok l c \<Longrightarrow> outcome cmd_ok l s (parse_backs n c s)"
proof (induction n arbitrary: s c)
  case 0
  then show ?case by simp
next
  case (Suc n)
  obtain b s1 where p: "peek s ''&'' = (b, s1)" by fastforce
  obtain tok q eq s2 where g: "gettoken s1 = (tok, q, eq, s2)" by (metis prod.exhaust)
  show ?case
  proof (cases b)
    case False
    then show ?thesis using p peekD [OF p] Suc.prems(3) by simp
  next
    case True
    have s2: "suffix s2 s" "length s2 < length s" using advance [OF p g True] by auto
    have "outcome cmd_ok l s2 (parse_backs n (Backcmd c) s2)"
      using s2 Suc.prems by (intro Suc.IH) (auto intro: suffix_order.trans)
    then show ?thesis using p g True s2(1) by (auto intro: outcome_mono)
  qed
qed

lemma parseline_step:
  assumes l: "suffix s l" "length s < n" and P: "outcome cmd_ok l s (parsepipe n s)"
    and IH: "\<And>s'. suffix s' s \<Longrightarrow> length s' < length s \<Longrightarrow> outcome cmd_ok l s' (parseline n s')"
  shows "outcome cmd_ok l s (parseline (Suc n) s)"
proof -
  show ?thesis
  proof (cases "parsepipe n s")
    case (Inl e)
    then show ?thesis using outcome_Inl [OF Inl P] by simp
  next
    case (Inr x)
    then obtain c s1 where x: "parsepipe n s = Inr (c, s1)" by (cases x) auto
    have s1: "suffix s1 s" "cmd_ok l c" using outcome_Inr [OF x P] by auto
    then have s1': "suffix s1 l" "length s1 < n"
      using l by (auto dest: suffix_length_le intro: suffix_order.trans)
    note B = parse_backs_ok [OF s1' s1(2)]
    show ?thesis
    proof (cases "parse_backs n c s1")
      case (Inl e)
      then show ?thesis using outcome_Inl [OF Inl B] x by simp
    next
      case (Inr y)
      then obtain d s2 where y: "parse_backs n c s1 = Inr (d, s2)" by (cases y) auto
      have s2: "suffix s2 s1" "cmd_ok l d" using outcome_Inr [OF y B] by auto
      obtain b s3 where p: "peek s2 '';'' = (b, s3)" by fastforce
      obtain tok q eq s4 where g: "gettoken s3 = (tok, q, eq, s4)" by (metis prod.exhaust)
      show ?thesis
      proof (cases b)
        case False
        have "suffix s3 s" using peekD [OF p] s2(1) s1(1) suffix_skip_ws suffix_order.trans by blast
        then show ?thesis using False x y p s2(2) by simp
      next
        case True
        have s4: "suffix s4 s2" "length s4 < length s2" using advance [OF p g True] by auto
        have "suffix s4 s" using s4(1) s2(1) s1(1) suffix_order.trans by blast
        moreover have "length s4 < length s"
          using s4(2) suffix_length_le [OF s2(1)] suffix_length_le [OF s1(1)] by simp
        ultimately have "outcome cmd_ok l s (parseline n s4)" using IH outcome_mono by blast
        then show ?thesis
          using True x y p g s2(2) by (cases "parseline n s4") auto
      qed
    qed
  qed
qed

lemma parsepipe_step:
  assumes P: "outcome cmd_ok l s (parseexec n s)"
    and IH: "\<And>s'. suffix s' s \<Longrightarrow> length s' < length s \<Longrightarrow> outcome cmd_ok l s' (parsepipe n s')"
  shows "outcome cmd_ok l s (parsepipe (Suc n) s)"
proof -
  show ?thesis
  proof (cases "parseexec n s")
    case (Inl e)
    then show ?thesis using outcome_Inl [OF Inl P] by simp
  next
    case (Inr x)
    then obtain c s1 where x: "parseexec n s = Inr (c, s1)" by (cases x) auto
    have s1: "suffix s1 s" "cmd_ok l c" using outcome_Inr [OF x P] by auto
    obtain b s3 where p: "peek s1 ''|'' = (b, s3)" by fastforce
    obtain tok q eq s4 where g: "gettoken s3 = (tok, q, eq, s4)" by (metis prod.exhaust)
    show ?thesis
    proof (cases b)
      case False
      have "suffix s3 s" using peekD [OF p] s1(1) suffix_skip_ws suffix_order.trans by blast
      then show ?thesis using False x p s1(2) by simp
    next
      case True
      have s4: "suffix s4 s1" "length s4 < length s1" using advance [OF p g True] by auto
      have "suffix s4 s" using s4(1) s1(1) suffix_order.trans by blast
      moreover have "length s4 < length s" using s4(2) suffix_length_le [OF s1(1)] by simp
      ultimately have "outcome cmd_ok l s (parsepipe n s4)" using IH outcome_mono by blast
      then show ?thesis
        using True x p g s1(2) by (cases "parsepipe n s4") auto
    qed
  qed
qed

lemma parseexec_step:
  assumes l: "suffix s l" "length s < n" and P: "outcome cmd_ok l (skip_ws s) (parseblock n (skip_ws s))"
  shows "outcome cmd_ok l s (parseexec (Suc n) s)"
proof -
  obtain b s1 where p: "peek s ''('' = (b, s1)" by fastforce
  have s1: "suffix s1 s" "suffix s1 l" "length s1 \<le> length s"
    using peekD [OF p] suffix_order.trans [OF suffix_skip_ws l(1)]
      suffix_length_le [OF suffix_skip_ws, of s] by auto
  show ?thesis
  proof (cases b)
    case True
    have "outcome cmd_ok l s (parseblock n s1)"
      using outcome_mono [OF P suffix_skip_ws] peekD [OF p] by simp
    then show ?thesis using True p by simp
  next
    case False
    have n: "length s1 < n" using s1 l(2) by simp
    note R = parseredirs_ok [OF s1(2) n]
    show ?thesis
    proof (cases "parseredirs n s1")
      case (Inl e)
      then show ?thesis using outcome_Inl [OF Inl R] p False by simp
    next
      case (Inr x)
      then obtain rs s2 where x: "parseredirs n s1 = Inr (rs, s2)" by (cases x) auto
      have s2: "suffix s2 s1" "redirs_ok l rs" using outcome_Inr [OF x R] by auto
      have "outcome cmd_ok l s2 (parse_args n [] rs s2)"
        using s2 n s1(2) by (intro parse_args_ok)
          (auto simp: MAXARGS_def dest: suffix_length_le intro: suffix_order.trans)
      then show ?thesis using False p x suffix_order.trans [OF s2(1) s1(1)]
        by (auto intro: outcome_mono)
    qed
  qed
qed

lemma parseblock_step:
  assumes l: "suffix s l" "length s \<le> n"
    and IH: "\<And>s'. suffix s' s \<Longrightarrow> length s' < length s \<Longrightarrow> outcome cmd_ok l s' (parseline n s')"
  shows "outcome cmd_ok l s (parseblock (Suc n) s)"
proof -
  obtain b s1 where p: "peek s ''('' = (b, s1)" by fastforce
  obtain tok q eq s2 where g: "gettoken s1 = (tok, q, eq, s2)" by (metis prod.exhaust)
  show ?thesis
  proof (cases b)
    case False
    then show ?thesis using p by simp
  next
    case True
    have s2: "suffix s2 s" "length s2 < length s" using advance [OF p g True] by auto
    note P = IH [OF s2]
    show ?thesis
    proof (cases "parseline n s2")
      case (Inl e)
      then show ?thesis using outcome_Inl [OF Inl P] p g True by simp
    next
      case (Inr x)
      then obtain c s3 where x: "parseline n s2 = Inr (c, s3)" by (cases x) auto
      have s3: "suffix s3 s2" "cmd_ok l c" using outcome_Inr [OF x P] by auto
      obtain b' s4 where p': "peek s3 '')'' = (b', s4)" by fastforce
      obtain tok' q' eq' s5 where g': "gettoken s4 = (tok', q', eq', s5)" by (metis prod.exhaust)
      show ?thesis
      proof (cases b')
        case False
        then show ?thesis using p g x p' True by simp
      next
        case b': True
        have s5: "suffix s5 s3" "length s5 < length s3" using advance [OF p' g' b'] by auto
        have "suffix s5 s" using s5(1) s3(1) s2(1) suffix_order.trans by blast
        moreover have "length s5 < n"
          using s5(2) suffix_length_le [OF s3(1)] s2(2) l(2) by simp
        ultimately have s5': "suffix s5 s" "suffix s5 l" "length s5 < n"
          using l(1) by (auto intro: suffix_order.trans)
        from outcome_mono [OF parseredirs_ok [OF s5'(2,3)] s5'(1)] show ?thesis
          using p g x p' g' True b' s3(2) by (cases "parseredirs n s5") (auto intro: wrap_ok)
      qed
    qed
  qed
qed

lemma parse_ok:
  "suffix s l \<Longrightarrow> 4 * length s + 4 \<le> n \<Longrightarrow> outcome cmd_ok l s (parseline n s)"
  "suffix s l \<Longrightarrow> 4 * length s + 3 \<le> n \<Longrightarrow> outcome cmd_ok l s (parsepipe n s)"
  "suffix s l \<Longrightarrow> 4 * length s + 2 \<le> n \<Longrightarrow> outcome cmd_ok l s (parseexec n s)"
  "suffix s l \<Longrightarrow> 4 * length s + 1 \<le> n \<Longrightarrow> outcome cmd_ok l s (parseblock n s)"
proof (induction n arbitrary: s)
  case (Suc n)
  {
    case 1
    then show ?case
      by (intro parseline_step Suc.IH) (auto intro: suffix_order.trans)
  next
    case 2
    then show ?case
      by (intro parsepipe_step Suc.IH) (auto intro: suffix_order.trans)
  next
    case 3
    then show ?case
      using suffix_length_le [OF suffix_skip_ws, of s] suffix_order.trans [OF suffix_skip_ws 3(1)]
      by (intro parseexec_step Suc.IH) (auto intro: suffix_order.trans)
  next
    case 4
    then show ?case
      by (intro parseblock_step Suc.IH) (auto intro: suffix_order.trans)
  }
qed simp_all

section \<open>Cutting the line into strings\<close>

text \<open>The characters of a word, as they are in the line.\<close>

definition word_text :: "word_at \<Rightarrow> byte list" where
  "word_text w = take (length (fst w) - length (snd w)) (fst w)"

lemma word_in_split:
  assumes "word_in l w"
  obtains pre where "l = pre @ word_text w @ snd w" "fst w = word_text w @ snd w"
    "\<forall>c\<in>set (word_text w). is_word c" "word_text w \<noteq> []"
    "snd w = [] \<or> \<not> is_word (hd (snd w))"
proof -
  obtain q eq where w: "w = (q, eq)" by fastforce
  from assms have *: "suffix q l" "eq = dropWhile is_word q" "q \<noteq> eq"
    by (auto simp: word_in_def w skip_word_eq)
  then have q: "q = takeWhile is_word q @ eq" by simp
  then have t: "word_text w = takeWhile is_word q"
    by (metis append_eq_conv_conj fst_conv length_takeWhile_le snd_conv takeWhile_eq_take w
        word_text_def diff_add_inverse2 length_append)
  obtain pre where "l = pre @ q" using *(1) by (auto simp: suffix_def)
  moreover have "takeWhile is_word q \<noteq> []" using * q by force
  moreover have "eq = [] \<or> \<not> is_word (hd eq)" using *(2) hd_dropWhile [of is_word q] by auto
  ultimately show thesis
    using that [of pre] q t by (auto simp: w dest: set_takeWhileD)
qed

text \<open>Where \<open>nulterminate\<close> stores: at the ends of the words, and nowhere else.\<close>

definition ends :: "byte list \<Rightarrow> word_at cmd \<Rightarrow> nat set" where
  "ends l c = (\<lambda>w. length l - length (snd w)) ` set_cmd c"

definition cut :: "nat set \<Rightarrow> byte list \<Rightarrow> byte list" where
  "cut E buf = map (\<lambda>i. if i \<in> E then 0 else buf ! i) [0..<length buf]"

lemma cut_simps [simp]: "length (cut E buf) = length buf" "cut {} buf = buf"
  "i < length buf \<Longrightarrow> cut E buf ! i = (if i \<in> E then 0 else buf ! i)"
  by (auto simp: cut_def map_nth)

lemma cut_upd: "(cut E buf)[k := 0] = cut (insert k E) buf"
proof (rule nth_equalityI)
  fix i assume "i < length ((cut E buf)[k := 0])"
  then show "(cut E buf)[k := 0] ! i = cut (insert k E) buf ! i" by (cases "i = k") auto
qed simp

lemma cut_cut: "cut E (cut F buf) = cut (E \<union> F) buf"
  by (rule nth_equalityI) auto

lemma nulterminate_eq:
  "length buf = Suc (length l) \<Longrightarrow> nulterminate c buf = cut (ends l c) buf"
proof (induction c arbitrary: buf)
  case (Execcmd argv)
  then show ?case
  proof (induction argv arbitrary: buf)
    case Nil
    then show ?case by (simp add: ends_def)
  next
    case (Cons w argv)
    obtain q eq where w: "w = (q, eq)" by fastforce
    let ?b = "buf[offset buf eq := 0]"
    have "nulterminate (Execcmd (w # argv)) buf = nulterminate (Execcmd argv) ?b"
      by (simp add: w)
    also have "\<dots> = cut (ends l (Execcmd argv)) ?b" using Cons by simp
    also have "?b = cut {length l - length eq} buf"
      using Cons.prems cut_upd [of "{}" buf] by (simp add: offset_def)
    finally show ?case by (simp add: cut_cut ends_def w)
  qed
next
  case (Redircmd c w mode fd)
  then show ?case
    by (cases w) (simp add: Let_def cut_upd offset_def ends_def insert_commute)
qed (simp_all add: cut_cut ends_def image_Un Un_commute)

lemma end_not_in_word:
  assumes "word_in l w" "i < length l" "i = length l - length (snd w)"
  shows "\<not> is_word (l ! i)"
proof -
  obtain pre where p: "l = pre @ word_text w @ snd w" "snd w = [] \<or> \<not> is_word (hd (snd w))"
    using word_in_split [OF assms(1)] by metis
  have "i = length (pre @ word_text w)" using assms(3) arg_cong [OF p(1), of length] by simp
  moreover from this assms(2) p have "snd w \<noteq> []" by auto
  ultimately have "l ! i = hd (snd w)" using p(1) by (metis append_assoc hd_conv_nth nth_append_length_plus add_0_right)
  with p \<open>snd w \<noteq> []\<close> show ?thesis by simp
qed

lemma word_of_cut:
  assumes w: "w \<in> set_cmd c" and c: "\<forall>w\<in>set_cmd c. word_in l w" and nul: "0 \<notin> set l"
  shows "string_at (cut (ends l c) (l @ [0])) w = word_text w"
proof -
  let ?t = "word_text w" and ?b = "cut (ends l c) (l @ [0])"
  obtain pre where p: "l = pre @ ?t @ snd w" "fst w = ?t @ snd w" "\<forall>c\<in>set ?t. is_word c"
    using word_in_split [of l w] w c by metis
  have off: "offset ?b (fst w) = length pre" using p by (simp add: offset_def)
  have len: "length l = length pre + length ?t + length (snd w)" using arg_cong [OF p(1), of length] by simp
  have in_t: "?b ! (length pre + i) = ?t ! i" if i: "i < length ?t" for i
  proof -
    have li: "length pre + i < length l" "l ! (length pre + i) = ?t ! i"
      using len i p(1) by (simp_all add: nth_append)
    have "length pre + i \<notin> ends l c"
    proof
      assume "length pre + i \<in> ends l c"
      then obtain v where "v \<in> set_cmd c" "length pre + i = length l - length (snd v)"
        by (auto simp: ends_def)
      with end_not_in_word [of l v] c li(1) have "\<not> is_word (l ! (length pre + i))" by blast
      with li(2) p(3) i show False by auto
    qed
    then show ?thesis using li by (simp add: nth_append)
  qed
  have at_end: "?b ! (length pre + length ?t) = 0"
  proof -
    have "length pre + length ?t \<in> ends l c" unfolding ends_def using w len by force
    then show ?thesis using len by simp
  qed
  have "drop (length pre) ?b = ?t @ 0 # drop (Suc (length pre + length ?t)) ?b"
    by (rule nth_equalityI) (use len in_t at_end in \<open>auto simp: nth_append nth_Cons' not_less\<close>)
  moreover have "cstr (?t @ 0 # r) = ?t" for r
    using nul p(1) by (intro cstr_stop) (metis Un_iff set_append)
  ultimately show ?thesis unfolding string_at_def off by simp
qed

lemma parsecmd_cases:
  obtains (Inl) e where "parsecmd s = Inl e" "e \<noteq> Stuck"
  | (Inr) c r where "parseline (4 * length (cstr s) + 4) (cstr s) = Inr (c, r)"
      "parsecmd s = Inr (c, cut (ends (cstr s) c) (cstr s @ [0]))" "cmd_ok (cstr s) c"
proof -
  let ?l = "cstr s"
  have P: "outcome cmd_ok ?l ?l (parseline (4 * length ?l + 4) ?l)" by (intro parse_ok) simp_all
  show thesis
  proof (cases "parseline (4 * length ?l + 4) ?l")
    case (Inl e)
    then show thesis using outcome_Inl [OF Inl P] that(1) by (simp add: parsecmd_def)
  next
    case (Inr x)
    then obtain c r where x: "parseline (4 * length ?l + 4) ?l = Inr (c, r)" by (cases x) auto
    obtain b r' where "peek r '''' = (b, r')" by fastforce
    with x have "parsecmd s =
        (if r' \<noteq> [] then Inl (Leftovers r') else Inr (c, cut (ends ?l c) (?l @ [0])))"
      by (simp add: parsecmd_def nulterminate_eq)
    with outcome_Inr [OF x P] x that show thesis by (cases "r' = []") auto
  qed
qed

lemma cstr_no_nul: "0 \<notin> set (cstr s)"
  by (auto simp: cstr_def dest: set_takeWhileD)

text \<open>
  C39. The parser of the shell is total and its results are well formed. Every line is either
  rejected with an error message or yields a command in which each simple command has fewer than
  \<open>MAXARGS\<close> arguments and each redirection one of the three modes; after \<open>nulterminate\<close> every
  argument and file name is a non-empty C string of word characters, the one the line has
  there, although all strings share the buffer.
\<close>

theorem parsecmd_well_formed:
  "(\<exists>msg. parsecmd s = Inl (Syntax msg)) \<or> (\<exists>rest. parsecmd s = Inl (Leftovers rest)) \<or>
   (\<exists>c buf. parsecmd s = Inr (c, buf) \<and> shape c \<and>
      (\<forall>w\<in>set_cmd c. string_at buf w = word_text w \<and> word_text w \<noteq> [] \<and>
         (\<forall>x\<in>set (word_text w). is_word x \<and> x \<noteq> 0)))"
proof (cases rule: parsecmd_cases [of s])
  case (Inl e)
  then show ?thesis by (cases e) auto
next
  case (Inr c r)
  have "string_at (cut (ends (cstr s) c) (cstr s @ [0])) w = word_text w \<and> word_text w \<noteq> [] \<and>
      (\<forall>x\<in>set (word_text w). is_word x \<and> x \<noteq> 0)" if w: "w \<in> set_cmd c" for w
  proof -
    have ok: "\<forall>w\<in>set_cmd c. word_in (cstr s) w" using Inr(3) by (simp add: cmd_ok_def)
    with w obtain pre where "cstr s = pre @ word_text w @ snd w"
        "\<forall>c\<in>set (word_text w). is_word c" "word_text w \<noteq> []"
      using word_in_split [of "cstr s" w] by metis
    moreover from this(1) cstr_no_nul [of s] have "0 \<notin> set (word_text w)" by auto
    ultimately show ?thesis using word_of_cut [OF w ok cstr_no_nul] by auto
  qed
  with Inr(2,3) show ?thesis by (auto simp: cmd_ok_def)
qed

text \<open>A line with a redirection, and one with ten arguments, which is rejected.\<close>

theorem parsecmd_well_formed_witness:
  "(\<exists>c buf. parsecmd (bytes ''a b c <f'') = Inr (c, buf) \<and> shape c \<and> map_cmd (string_at buf) c =
      Redircmd (Execcmd [bytes ''a'', bytes ''b'', bytes ''c'']) (bytes ''f'') O_RDONLY 0) \<and>
   (\<exists>msg. parsecmd (bytes ''a a a a a a a a a a'') = Inl (Syntax msg))"
proof -
  have 1: "parsecmd (bytes ''a a a a a a a a a a'') = Inl (Syntax ''too many args'')" by code_simp
  have 2: "(case parsecmd (bytes ''a b c <f'') of Inl e \<Rightarrow> False | Inr (c, buf) \<Rightarrow> map_cmd (string_at buf) c =
      Redircmd (Execcmd [bytes ''a'', bytes ''b'', bytes ''c'']) (bytes ''f'') O_RDONLY 0)"
    by code_simp
  from parsecmd_well_formed [of "bytes ''a b c <f''"] 1 2 show ?thesis by auto
qed

end
