(* ===== verification/Sh_Print.thy ===== *)
theory Sh_Print
  imports Sh_Parse
begin

text \<open>
  Every command can be written: \<open>show_cmd\<close> writes a command with all parentheses, and the parser of
  theory \<open>Sh_Parse\<close> reads the command back.
\<close>

section \<open>Writing a command\<close>

definition show_op :: "int \<times> int \<Rightarrow> byte list" where
  "show_op m =
     (if m = (O_RDONLY, 0) then bytes ''<''
      else if m = (O_WRONLY OR O_CREATE OR O_TRUNC, 1) then bytes ''>'' else bytes ''>>'')"

abbreviation sp :: byte where "sp \<equiv> ch CHR '' ''"

definition paren :: "byte list \<Rightarrow> byte list" where
  "paren s = ch CHR ''('' # s @ [ch CHR '')'']"

primrec show_cmd :: "byte list cmd \<Rightarrow> byte list" where
  "show_cmd (Execcmd argv) = concat (map (\<lambda>w. w @ [sp]) argv)"
| "show_cmd (Redircmd c w mode fd) = paren (show_cmd c) @ show_op (mode, fd) @ w @ [sp]"
| "show_cmd (Pipecmd l r) = paren (show_cmd l) @ ch CHR ''|'' # paren (show_cmd r)"
| "show_cmd (Listcmd l r) = paren (show_cmd l) @ ch CHR '';'' # paren (show_cmd r)"
| "show_cmd (Backcmd c) = paren (show_cmd c) @ [ch CHR ''&'']"

text \<open>A string that is one word.\<close>

definition plain :: "byte list \<Rightarrow> bool" where
  "plain w \<longleftrightarrow> w \<noteq> [] \<and> (\<forall>c\<in>set w. is_word c \<and> c \<noteq> 0)"

section \<open>Reading it back\<close>

definition follow :: "byte list \<Rightarrow> bool" where
  "follow r \<longleftrightarrow> r = [] \<or> (\<exists>r'. r = ch CHR '')'' # r')"

lemma symbol_not_ws:
  "\<not> is_ws (ch CHR ''('')" "\<not> is_ws (ch CHR '')'')" "\<not> is_ws (ch CHR ''|'')" "\<not> is_ws (ch CHR '';'')"
  "\<not> is_ws (ch CHR ''&'')" "\<not> is_ws (ch CHR ''<'')" "\<not> is_ws (ch CHR ''>'')" "is_ws sp"
  by code_simp+

lemma word_not_ws: "is_word c \<Longrightarrow> \<not> is_ws c"
  by (simp add: is_word_def is_ws_def)

lemma skip_ws_first [simp]: "\<not> is_ws c \<Longrightarrow> skip_ws (c # s) = c # s"
  by (simp add: skip_ws_eq)

lemma skip_ws_sp [simp]: "skip_ws (sp # s) = skip_ws s"
  by (simp add: skip_ws_eq symbol_not_ws)

lemma peek_Nil [simp]: "peek [] toks = (False, [])"
  by (simp add: peek_def)

lemma peek_first:
  "\<not> is_ws c \<Longrightarrow> peek (c # s) toks = (c \<noteq> 0 \<and> u_strchr (bytes toks) c \<noteq> None, c # s)"
  by (simp add: peek_def)

text \<open>What \<open>peek\<close> and \<open>gettoken\<close> do on the symbols.\<close>

lemma peek_paren [simp]:
  "peek (ch CHR ''('' # s) ''('' = (True, ch CHR ''('' # s)"
  "peek (ch CHR '')'' # s) '')'' = (True, ch CHR '')'' # s)"
  "peek (ch CHR ''|'' # s) ''|'' = (True, ch CHR ''|'' # s)"
  "peek (ch CHR ''|'' # s) ''<>'' = (False, ch CHR ''|'' # s)"
  "peek (ch CHR '';'' # s) ''<>'' = (False, ch CHR '';'' # s)"
  "peek (ch CHR '';'' # s) ''|'' = (False, ch CHR '';'' # s)"
  "peek (ch CHR '';'' # s) ''&'' = (False, ch CHR '';'' # s)"
  "peek (ch CHR '';'' # s) '';'' = (True, ch CHR '';'' # s)"
  "peek (ch CHR ''&'' # s) ''<>'' = (False, ch CHR ''&'' # s)"
  "peek (ch CHR ''&'' # s) ''|'' = (False, ch CHR ''&'' # s)"
  "peek (ch CHR ''&'' # s) ''&'' = (True, ch CHR ''&'' # s)"
  "peek (ch CHR ''<'' # s) ''<>'' = (True, ch CHR ''<'' # s)"
  "peek (ch CHR ''>'' # s) ''<>'' = (True, ch CHR ''>'' # s)"
  by (simp_all add: peek_first symbol_not_ws bytes_def) (simp_all add: ch_def)

lemma peek_follow [simp]:
  assumes "follow r"
  shows "peek r ''<>'' = (False, r)" "peek r ''|'' = (False, r)" "peek r ''&'' = (False, r)"
    "peek r '';'' = (False, r)" "peek r ''('' = (False, r)" "skip_ws r = r"
  using assms
  by (auto simp: follow_def peek_first symbol_not_ws bytes_def) (simp_all add: ch_def)

lemma gettoken_symbol [simp]:
  "gettoken (ch CHR ''('' # s) = (ch CHR ''('', ch CHR ''('' # s, s, skip_ws s)"
  "gettoken (ch CHR '')'' # s) = (ch CHR '')'', ch CHR '')'' # s, s, skip_ws s)"
  "gettoken (ch CHR ''|'' # s) = (ch CHR ''|'', ch CHR ''|'' # s, s, skip_ws s)"
  "gettoken (ch CHR '';'' # s) = (ch CHR '';'', ch CHR '';'' # s, s, skip_ws s)"
  "gettoken (ch CHR ''&'' # s) = (ch CHR ''&'', ch CHR ''&'' # s, s, skip_ws s)"
  "gettoken (ch CHR ''<'' # s) = (ch CHR ''<'', ch CHR ''<'' # s, s, skip_ws s)"
  by (simp_all add: gettoken_def symbol_not_ws) (simp_all add: ch_def)

lemma gettoken_append [simp]:
  "gettoken (ch CHR ''>'' # ch CHR ''>'' # s) = (ch CHR ''+'', ch CHR ''>'' # ch CHR ''>'' # s, s, skip_ws s)"
  by (simp add: gettoken_def symbol_not_ws) (simp add: ch_def)

lemma gettoken_truncate:
  "deref s \<noteq> ch CHR ''>'' \<Longrightarrow>
   gettoken (ch CHR ''>'' # s) = (ch CHR ''>'', ch CHR ''>'' # s, s, skip_ws s)"
  by (simp add: gettoken_def symbol_not_ws) (simp add: ch_def)

lemma gettoken_Nil [simp]: "gettoken [] = (0, [], [], [])"
  by (simp add: gettoken_def)

lemma sp_not_word: "\<not> is_word sp"
  by code_simp

lemma plain_first:
  assumes "plain w"
  obtains c v where "w = c # v" "is_word c" "c \<noteq> 0"
  using assms by (cases w) (auto simp: plain_def)

lemma gettoken_word [simp]:
  assumes "plain w"
  shows "gettoken (w @ sp # r) = (ch CHR ''a'', w @ sp # r, sp # r, skip_ws r)"
proof -
  obtain c v where w: "w = c # v" "is_word c" "c \<noteq> 0" using assms by (rule plain_first)
  have "c \<notin> set symbols" using w(2) by (simp add: is_word_def)
  then have "c \<noteq> ch CHR ''|''" "c \<noteq> ch CHR ''(''" "c \<noteq> ch CHR '')''" "c \<noteq> ch CHR '';''"
    "c \<noteq> ch CHR ''&''" "c \<noteq> ch CHR ''<''" "c \<noteq> ch CHR ''>''"
    by (simp_all add: symbols_eq)
  moreover have "skip_word (w @ sp # r) = sp # r"
    using assms sp_not_word by (simp add: skip_word_eq plain_def dropWhile_append2)
  ultimately show ?thesis
    using w word_not_ws [OF w(2)] by (simp add: gettoken_def)
qed

lemma skip_ws_word [simp]: "plain w \<Longrightarrow> skip_ws (w @ r) = w @ r"
  by (elim plain_first) (simp add: word_not_ws)

lemma word_text_append [simp]: "word_text (w @ r, r) = w"
  by (simp add: word_text_def)

lemma peek_word:
  assumes "plain w" "set (bytes toks) \<subseteq> set symbols"
  shows "peek (w @ r) toks = (False, w @ r)"
proof -
  obtain c v where w: "w = c # v" "is_word c" "c \<noteq> 0" using assms(1) by (rule plain_first)
  have nul: "0 \<notin> set (bytes toks)" using no_nul(2) assms(2) by blast
  have "c \<notin> set (bytes toks)" using w(2) assms(2) by (auto simp: is_word_def)
  then show ?thesis
    using w word_not_ws [OF w(2)] strchr_None [OF nul, of c] by (simp add: peek_first)
qed

lemma peek_word_simps [simp]:
  assumes "plain w"
  shows "peek (w @ r) ''<>'' = (False, w @ r)" "peek (w @ r) ''|)&;'' = (False, w @ r)"
    "peek (w @ r) ''('' = (False, w @ r)"
  by (rule peek_word [OF assms], code_simp)+

lemma parseredirs_none:
  "peek s ''<>'' = (False, s') \<Longrightarrow> 0 < n \<Longrightarrow> parseredirs n s = Inr ([], s')"
  by (cases n) simp_all

section \<open>Simple commands\<close>

lemma parse_args_end:
  assumes "follow r" "0 < n"
  shows "parse_args n argv [] r = Inr (Execcmd argv, r)"
proof (cases "r = []")
  case True
  then show ?thesis using assms(2) by (cases n) (simp_all add: wrap_def)
next
  case False
  then obtain r' where r: "r = ch CHR '')'' # r'" using assms(1) by (auto simp: follow_def)
  have "peek r ''|)&;'' = (True, r)"
    unfolding r by (simp add: peek_first symbol_not_ws bytes_def) (simp add: ch_def)
  then show ?thesis using assms(2) by (cases n) (simp_all add: wrap_def)
qed

abbreviation (input) spaced :: "byte list list \<Rightarrow> byte list" where
  "spaced ws \<equiv> concat (map (\<lambda>w. w @ [sp]) ws)"

lemma spaced_peek:
  assumes "\<forall>w\<in>set ws. plain w" "follow r"
  shows "peek (spaced ws @ r) ''<>'' = (False, spaced ws @ r)"
    "peek (spaced ws @ r) ''('' = (False, spaced ws @ r)"
    "skip_ws (spaced ws @ r) = spaced ws @ r"
  using assms by (cases ws; simp)+

lemma parse_args_spaced:
  assumes "\<forall>w\<in>set ws. plain w" "follow r" "length argv + length ws < MAXARGS" "length ws + 1 < n"
  shows "\<exists>vs. parse_args n argv [] (spaced ws @ r) = Inr (Execcmd (argv @ vs), r) \<and> map word_text vs = ws"
  using assms
proof (induction ws arbitrary: argv n)
  case Nil
  then show ?case by (simp add: parse_args_end)
next
  case (Cons w ws)
  let ?s = "spaced ws @ r"
  obtain m where n: "n = Suc m" "0 < m" using Cons.prems(4) by (cases n) auto
  have w: "plain w" using Cons.prems(1) by simp
  have "parse_args n argv [] (w @ sp # ?s) = parse_args m (argv @ [(w @ sp # ?s, sp # ?s)]) [] ?s"
    using w Cons.prems spaced_peek [of ws r] parseredirs_none [of ?s ?s m] n
    by (simp add: n) (simp add: ch_def)
  moreover obtain vs where
    "parse_args m (argv @ [(w @ sp # ?s, sp # ?s)]) [] ?s =
       Inr (Execcmd ((argv @ [(w @ sp # ?s, sp # ?s)]) @ vs), r)" "map word_text vs = ws"
    using Cons.IH [of "argv @ [(w @ sp # ?s, sp # ?s)]" m] Cons.prems n by auto
  ultimately show ?case
    by (intro exI [of _ "(w @ sp # ?s, sp # ?s) # vs"]) simp
qed

section \<open>All commands\<close>

definition writable :: "byte list cmd \<Rightarrow> bool" where
  "writable c \<longleftrightarrow> shape c \<and> (\<forall>w\<in>set_cmd c. plain w)"

lemma writable_simps [simp]:
  "writable (Execcmd argv) \<longleftrightarrow> length argv < MAXARGS \<and> (\<forall>w\<in>set argv. plain w)"
  "writable (Redircmd c w mode fd) \<longleftrightarrow> writable c \<and> mode_ok (mode, fd) \<and> plain w"
  "writable (Pipecmd c d) \<longleftrightarrow> writable c \<and> writable d"
  "writable (Listcmd c d) \<longleftrightarrow> writable c \<and> writable d"
  "writable (Backcmd c) \<longleftrightarrow> writable c"
  by (auto simp: writable_def)

text \<open>The command is read back by \<open>parseline\<close> in front of a closing parenthesis or the end.\<close>

definition reads :: "byte list cmd \<Rightarrow> bool" where
  "reads c \<longleftrightarrow>
     (\<forall>n r. follow r \<longrightarrow> 4 * length (show_cmd c @ r) + 4 \<le> n \<longrightarrow>
        (\<exists>c'. parseline n (show_cmd c @ r) = Inr (c', r) \<and> map_cmd word_text c' = c))"

lemma paren_append: "paren s @ r = ch CHR ''('' # s @ ch CHR '')'' # r"
  by (simp add: paren_def)

lemma skip_ws_paren [simp]: "skip_ws (paren s @ r) = paren s @ r"
  by (simp add: paren_def symbol_not_ws)

lemma skip_ws_show:
  assumes "writable c" "follow r"
  shows "skip_ws (show_cmd c @ r) = show_cmd c @ r"
  using assms by (cases c) (simp_all add: spaced_peek)

text \<open>A command in parentheses and the redirections after it.\<close>

lemma parseexec_paren:
  assumes "reads c" "writable c" "4 * length (show_cmd c @ r) + 10 \<le> n"
  obtains c' where "map_cmd word_text c' = c"
    "\<And>rs s. parseredirs (n - 2) (skip_ws r) = Inr (rs, s) \<Longrightarrow>
       parseexec n (paren (show_cmd c) @ r) = Inr (wrap c' rs, s)"
proof -
  define m where "m = n - 2"
  then have n: "n = Suc (Suc m)" using assms(3) by simp
  let ?r = "ch CHR '')'' # r"
  have f: "follow ?r" by (simp add: follow_def)
  obtain c' where c': "parseline m (show_cmd c @ ?r) = Inr (c', ?r)" "map_cmd word_text c' = c"
    using assms(1,3) f unfolding reads_def n by force
  have "parseexec n (paren (show_cmd c) @ r) = Inr (wrap c' rs, s)"
    if "parseredirs (n - 2) (skip_ws r) = Inr (rs, s)" for rs s
    using that c' skip_ws_show [OF assms(2) f] unfolding paren_append by (simp add: n)
  with c'(2) that show thesis by blast
qed

text \<open>A command in parentheses as an element of a pipeline.\<close>

lemma parsepipe_paren:
  assumes "reads c" "writable c" "4 * length (show_cmd c @ r) + 11 \<le> n"
    and "peek (skip_ws r) ''<>'' = (False, r')" "peek r' ''|'' = (False, r'')"
  obtains c' where "map_cmd word_text c' = c" "parsepipe n (paren (show_cmd c) @ r) = Inr (c', r'')"
proof -
  obtain m where n: "n = Suc m" using assms(3) by (cases n) auto
  have m: "4 * length (show_cmd c @ r) + 10 \<le> m" "0 < m - 2" using assms(3) n by auto
  obtain c' where c': "map_cmd word_text c' = c"
    "\<And>rs s. parseredirs (m - 2) (skip_ws r) = Inr (rs, s) \<Longrightarrow>
       parseexec m (paren (show_cmd c) @ r) = Inr (wrap c' rs, s)"
    using parseexec_paren [OF assms(1,2) m(1)] by blast
  from c'(2) [OF parseredirs_none [OF assms(4) m(2)]] assms(5)
  have "parsepipe n (paren (show_cmd c) @ r) = Inr (c', r'')" by (simp add: n wrap_def)
  with c'(1) that show thesis by blast
qed

lemma reads_exec: "writable (Execcmd ws) \<Longrightarrow> reads (Execcmd ws)"
  unfolding reads_def
proof (intro allI impI)
  fix n r assume c: "writable (Execcmd ws)" "follow r" "4 * length (show_cmd (Execcmd ws) @ r) + 4 \<le> n"
  have ws: "length ws \<le> length (spaced ws)" by (induction ws) auto
  define m where "m = n - 3"
  then have n1: "n = Suc (Suc (Suc m))" and m: "4 * length (spaced ws) + 1 \<le> m" using c(3) by simp_all
  have "length ws + 1 < m \<or> ws = [] \<and> 0 < m"
  proof (cases ws)
    case (Cons w ws')
    then have "0 < length ws" by simp
    with m ws show ?thesis by linarith
  qed (use m in simp)
  note n = n1 this
  obtain vs where vs: "parse_args m [] [] (spaced ws @ r) = Inr (Execcmd vs, r)" "map word_text vs = ws"
    using parse_args_spaced [of ws r "[]" m] parse_args_end [of r m "[]"] n(2) c by fastforce
  then show "\<exists>c'. parseline n (show_cmd (Execcmd ws) @ r) = Inr (c', r) \<and> map_cmd word_text c' = Execcmd ws"
    using spaced_peek [of ws r] parseredirs_none [of "spaced ws @ r" "spaced ws @ r" m] n c
    by (intro exI [of _ "Execcmd vs"]) simp
qed

lemma parse_line_end:
  assumes "parsepipe n s = Inr (c, r)" "follow r" "0 < n"
  shows "parseline (Suc n) s = Inr (c, r)"
  using assms by (cases n) simp_all

lemma parseredirs_one:
  assumes "mode_ok (mode, fd)" "plain w" "follow r" "1 < n"
  shows "parseredirs n (show_op (mode, fd) @ w @ sp # r) = Inr ([((w @ sp # r, sp # r), mode, fd)], r)"
proof -
  obtain k where n: "n = Suc k" "0 < k" using assms(4) by (cases n) auto
  have none: "parseredirs k r = Inr ([], r)" using assms(3) n(2) by (simp add: parseredirs_none)
  obtain c v where w: "w = c # v" "is_word c" using assms(2) by (rule plain_first)
  then have "deref (w @ sp # r) \<noteq> ch CHR ''>''" by (auto simp: is_word_def symbols_eq)
  note trunc = gettoken_truncate [OF this]
  have modes: "(O_RDONLY, 0 :: int) \<noteq> (O_WRONLY OR O_CREATE OR O_TRUNC, 1)"
    "(O_WRONLY OR O_CREATE OR O_TRUNC, 1 :: int) \<noteq> (O_WRONLY OR O_CREATE, 1)"
    "(O_RDONLY, 0 :: int) \<noteq> (O_WRONLY OR O_CREATE, 1)"
    by code_simp+
  have ch: "ch CHR ''<'' \<noteq> ch CHR ''>''" "ch CHR ''<'' \<noteq> ch CHR ''+''" "ch CHR ''>'' \<noteq> ch CHR ''+''"
    by code_simp+
  from assms(1) consider "(mode, fd) = (O_RDONLY, 0)" | "(mode, fd) = (O_WRONLY OR O_CREATE OR O_TRUNC, 1)"
    | "(mode, fd) = (O_WRONLY OR O_CREATE, 1)" unfolding mode_ok_def by blast
  then show ?thesis
  proof cases
    case 1
    then show ?thesis using assms none by (simp add: n show_op_def bytes_def redir_of_def)
  next
    case 2
    then show ?thesis
      using assms none modes ch trunc by (simp add: n show_op_def bytes_def redir_of_def)
  next
    case 3
    then show ?thesis
      using assms none modes ch by (simp add: n show_op_def bytes_def redir_of_def)
  qed
qed

lemma show_op_start: "mode_ok m \<Longrightarrow> skip_ws (show_op m @ r) = show_op m @ r"
  by (simp add: show_op_def bytes_def symbol_not_ws)

lemma reads_redir:
  assumes "reads c" "writable (Redircmd c w mode fd)"
  shows "reads (Redircmd c w mode fd)"
  unfolding reads_def
proof (intro allI impI)
  fix n r
  assume r: "follow r" and len: "4 * length (show_cmd (Redircmd c w mode fd) @ r) + 4 \<le> n"
  let ?o = "show_op (mode, fd) @ w @ sp # r"
  have c: "writable c" "mode_ok (mode, fd)" "plain w" using assms(2) by auto
  define b where "b = n - 2"
  then have n: "n = Suc (Suc b)" "4 * length (show_cmd c @ ?o) + 10 \<le> b" "1 < b - 2"
    using len by (simp_all add: paren_def)
  obtain c' where c': "map_cmd word_text c' = c"
    "\<And>rs s. parseredirs (b - 2) (skip_ws ?o) = Inr (rs, s) \<Longrightarrow>
       parseexec b (paren (show_cmd c) @ ?o) = Inr (wrap c' rs, s)"
    using parseexec_paren [OF assms(1) c(1) n(2)] by blast
  from c'(2) [unfolded show_op_start [OF c(2)], OF parseredirs_one [OF c(2,3) r n(3)]]
  have "parsepipe (Suc b) (paren (show_cmd c) @ ?o) = Inr (Redircmd c' (w @ sp # r, sp # r) mode fd, r)"
    using r by (simp add: wrap_def)
  from parse_line_end [OF this r] c'(1)
  show "\<exists>c'. parseline n (show_cmd (Redircmd c w mode fd) @ r) = Inr (c', r) \<and>
      map_cmd word_text c' = Redircmd c w mode fd"
    by (intro exI [of _ "Redircmd c' (w @ sp # r, sp # r) mode fd"]) (simp add: n)
qed

lemma reads_pipe:
  assumes "reads c" "reads d" "writable c" "writable d"
  shows "reads (Pipecmd c d)"
  unfolding reads_def
proof (intro allI impI)
  fix n r
  assume r: "follow r" and len: "4 * length (show_cmd (Pipecmd c d) @ r) + 4 \<le> n"
  let ?d = "paren (show_cmd d) @ r" and ?b = "ch CHR ''|''"
  define b where "b = n - 2"
  then have n: "n = Suc (Suc b)" "4 * length (show_cmd c @ ?b # ?d) + 10 \<le> b"
      "4 * length (show_cmd d @ r) + 11 \<le> b" "0 < b - 2"
    using len by (simp_all add: paren_def)
  obtain d' where d': "map_cmd word_text d' = d" "parsepipe b ?d = Inr (d', r)"
    using parsepipe_paren [OF assms(2,4) n(3), of r r] r by auto
  obtain c' where c': "map_cmd word_text c' = c"
    "\<And>rs s. parseredirs (b - 2) (skip_ws (?b # ?d)) = Inr (rs, s) \<Longrightarrow>
       parseexec b (paren (show_cmd c) @ ?b # ?d) = Inr (wrap c' rs, s)"
    using parseexec_paren [OF assms(1,3) n(2)] by blast
  have "parseexec b (paren (show_cmd c) @ ?b # ?d) = Inr (c', ?b # ?d)"
    using c'(2) [of "[]" "?b # ?d"] n(4) by (simp add: symbol_not_ws parseredirs_none wrap_def)
  then have "parsepipe (Suc b) (paren (show_cmd c) @ ?b # ?d) = Inr (Pipecmd c' d', r)"
    using d'(2) by simp
  from parse_line_end [OF this r] c'(1) d'(1)
  show "\<exists>c'. parseline n (show_cmd (Pipecmd c d) @ r) = Inr (c', r) \<and>
      map_cmd word_text c' = Pipecmd c d"
    by (intro exI [of _ "Pipecmd c' d'"]) (simp add: n)
qed

lemma reads_list:
  assumes "reads c" "reads d" "writable c" "writable d"
  shows "reads (Listcmd c d)"
  unfolding reads_def
proof (intro allI impI)
  fix n r
  assume r: "follow r" and len: "4 * length (show_cmd (Listcmd c d) @ r) + 4 \<le> n"
  let ?d = "paren (show_cmd d) @ r" and ?b = "ch CHR '';''"
  define b where "b = n - 1"
  then have n: "n = Suc b" "4 * length (show_cmd c @ ?b # ?d) + 11 \<le> b"
      "4 * length (show_cmd d @ r) + 11 \<le> b - 1" "0 < b" "0 < b - 1"
    using len by (simp_all add: paren_def)
  obtain d' where d': "map_cmd word_text d' = d" "parsepipe (b - 1) ?d = Inr (d', r)"
    using parsepipe_paren [OF assms(2,4) n(3), of r r] r by auto
  from parse_line_end [OF this(2) r n(5)] n(4) have d: "parseline b ?d = Inr (d', r)" by simp
  obtain c' where c': "map_cmd word_text c' = c" "parsepipe b (paren (show_cmd c) @ ?b # ?d) = Inr (c', ?b # ?d)"
    using parsepipe_paren [OF assms(1,3) n(2), of "?b # ?d" "?b # ?d"] by (auto simp: symbol_not_ws)
  have "parse_backs b c' (?b # ?d) = Inr (c', ?b # ?d)" using n(4) by (cases b) simp_all
  then have "parseline n (paren (show_cmd c) @ ?b # ?d) = Inr (Listcmd c' d', r)"
    using c'(2) d by (simp add: n(1))
  with c'(1) d'(1) show "\<exists>c'. parseline n (show_cmd (Listcmd c d) @ r) = Inr (c', r) \<and>
      map_cmd word_text c' = Listcmd c d"
    by (intro exI [of _ "Listcmd c' d'"]) simp
qed

lemma reads_back:
  assumes "reads c" "writable c"
  shows "reads (Backcmd c)"
  unfolding reads_def
proof (intro allI impI)
  fix n r
  assume r: "follow r" and len: "4 * length (show_cmd (Backcmd c) @ r) + 4 \<le> n"
  let ?b = "ch CHR ''&''"
  define b where "b = n - 1"
  then have n: "n = Suc b" "4 * length (show_cmd c @ ?b # r) + 11 \<le> b" "1 < b"
    using len by (simp_all add: paren_def)
  obtain c' where c': "map_cmd word_text c' = c" "parsepipe b (paren (show_cmd c) @ ?b # r) = Inr (c', ?b # r)"
    using parsepipe_paren [OF assms n(2), of "?b # r" "?b # r"] by (auto simp: symbol_not_ws)
  obtain k where k: "b = Suc (Suc k)" using n(3) by (cases b; cases "b - 1") auto
  have "parse_backs b c' (?b # r) = Inr (Backcmd c', r)" using r by (simp add: k)
  then have "parseline n (paren (show_cmd c) @ ?b # r) = Inr (Backcmd c', r)"
    using c'(2) r by (simp add: n(1))
  with c'(1) show "\<exists>c'. parseline n (show_cmd (Backcmd c) @ r) = Inr (c', r) \<and>
      map_cmd word_text c' = Backcmd c"
    by (intro exI [of _ "Backcmd c'"]) simp
qed

lemma reads_all: "writable c \<Longrightarrow> reads c"
  by (induction c) (simp_all add: reads_exec reads_redir reads_pipe reads_list reads_back)

lemma show_no_nul: "writable c \<Longrightarrow> 0 \<notin> set (show_cmd c)"
proof (induction c)
  case (Execcmd ws)
  then show ?case by (auto simp: plain_def ch_def)
next
  case (Redircmd c w mode fd)
  then show ?case by (auto simp: plain_def paren_def show_op_def bytes_def ch_def)
qed (auto simp: paren_def ch_def)

text \<open>
  C38. Every command can be written and is read back. For a command tree of any shape, with fewer
  than \<open>MAXARGS\<close> arguments in each simple command and strings without blanks and operators, the
  parser applied to the text of the tree with parentheses returns that tree, and the strings that
  \<open>nulterminate\<close> leaves in the buffer are the ones that were written.
\<close>

theorem parse_show:
  assumes "shape c" "\<forall>w\<in>set_cmd c. plain w"
  shows "\<exists>c' buf. parsecmd (show_cmd c) = Inr (c', buf) \<and> map_cmd (string_at buf) c' = c"
proof -
  have w: "writable c" using assms by (simp add: writable_def)
  have cs: "cstr (show_cmd c) = show_cmd c" using show_no_nul [OF w] by (rule cstr_id)
  obtain c' where p: "parseline (4 * length (show_cmd c) + 4) (show_cmd c) = Inr (c', [])"
      "map_cmd word_text c' = c"
    using reads_all [OF w, unfolded reads_def, rule_format, of "[]"] by (auto simp: follow_def)
  let ?buf = "cut (ends (show_cmd c) c') (show_cmd c @ [0])"
  have r: "parsecmd (show_cmd c) = Inr (c', ?buf)"
    using p(1) by (simp add: parsecmd_def cs nulterminate_eq Let_def)
  have "outcome cmd_ok (show_cmd c) (show_cmd c) (Inr (c', []))"
    unfolding p(1) [symmetric] by (rule parse_ok(1)) simp_all
  then have "\<forall>w\<in>set_cmd c'. word_in (show_cmd c) w" by (simp add: cmd_ok_def)
  then have "map_cmd (string_at ?buf) c' = map_cmd word_text c'"
    using show_no_nul [OF w] by (intro cmd.map_cong0 word_of_cut) auto
  with r p(2) show ?thesis by auto
qed

theorem parse_show_witness:
  "\<exists>c' buf. parsecmd (bytes ''((ls -l )|(wc ))>>f '') = Inr (c', buf) \<and>
     map_cmd (string_at buf) c' =
       Redircmd (Pipecmd (Execcmd [bytes ''ls'', bytes ''-l'']) (Execcmd [bytes ''wc''])) (bytes ''f'')
         (O_WRONLY OR O_CREATE) 1"
proof -
  let ?c = "Redircmd (Pipecmd (Execcmd [bytes ''ls'', bytes ''-l'']) (Execcmd [bytes ''wc''])) (bytes ''f'')
         (O_WRONLY OR O_CREATE) 1"
  have shape: "shape ?c" by code_simp
  have "list_all plain [bytes ''ls'', bytes ''-l'', bytes ''wc'', bytes ''f'']" by code_simp
  then have plain: "\<forall>w\<in>set_cmd ?c. plain w" by simp
  have "show_cmd ?c = bytes ''((ls -l )|(wc ))>>f ''" by code_simp
  with parse_show [OF shape plain] show ?thesis by (simp only:)
qed

end
