(* ===== verification/Sh_Run.thy ===== *)
theory Sh_Run
  imports Sh_Print
begin

text \<open>
  The shell runs its commands: \<open>runcmd\<close>, \<open>getcmd\<close> and \<open>main\<close> of \<^verbatim>\<open>user/sh.c\<close>. A program is the tree
  of the system calls it makes, with the continuation for each result; \<open>fork\<close> continues in the
  child with 0 and in the parent with the process identifier. A run of such a tree over file
  descriptor tables gives the programs that are executed, with the descriptors each one gets.
\<close>

section \<open>Definitions\<close>

datatype act =
    DoExit int
  | DoExec "byte list list" act
  | DoClose int act
  | DoOpen "byte list" int "int \<Rightarrow> act"
  | DoFork "int \<Rightarrow> act"
  | DoWait act
  | DoPipe "int \<Rightarrow> int \<Rightarrow> int \<Rightarrow> act"
  | DoDup int act
  | DoWrite int "byte list" act
  | DoChdir "byte list" "int \<Rightarrow> act"
  | DoGets int "byte list \<Rightarrow> act"
  | DoUndef

definition fputs :: "int \<Rightarrow> string \<Rightarrow> byte list \<Rightarrow> act \<Rightarrow> act" where
  "fputs fd fmt arg k =
     (case fprintf fd (bytes fmt @ [ch (CHR 0x0A)]) [VStr (Some arg)] of
        None \<Rightarrow> DoUndef
      | Some (fd, out) \<Rightarrow> DoWrite fd out k)"

definition sh_panic :: "string \<Rightarrow> act" where
  "sh_panic msg = fputs 2 ''%s'' (bytes msg) (DoExit 1)"

definition fork1 :: "(int \<Rightarrow> act) \<Rightarrow> act" where
  "fork1 k = DoFork (\<lambda>pid. if pid = - 1 then sh_panic ''fork'' else k pid)"

primrec runcmd :: "byte list cmd \<Rightarrow> act" where
  "runcmd (Execcmd argv) =
     (case argv of
        [] \<Rightarrow> DoExit 1
      | a # _ \<Rightarrow> DoExec argv (fputs 2 ''exec %s failed'' a (DoExit 0)))"
| "runcmd (Redircmd c file mode fd) =
     DoClose fd (DoOpen file mode (\<lambda>r.
       if r < 0 then fputs 2 ''open %s failed'' file (DoExit 1) else runcmd c))"
| "runcmd (Listcmd l r) = fork1 (\<lambda>pid. if pid = 0 then runcmd l else DoWait (runcmd r))"
| "runcmd (Pipecmd l r) =
     DoPipe (\<lambda>res p0 p1.
       if res < 0 then sh_panic ''pipe''
       else fork1 (\<lambda>pid.
         if pid = 0 then DoClose 1 (DoDup p1 (DoClose p0 (DoClose p1 (runcmd l))))
         else fork1 (\<lambda>pid.
           if pid = 0 then DoClose 0 (DoDup p0 (DoClose p0 (DoClose p1 (runcmd r))))
           else DoClose p0 (DoClose p1 (DoWait (DoWait (DoExit 0)))))))"
| "runcmd (Backcmd c) = fork1 (\<lambda>pid. if pid = 0 then runcmd c else DoExit 0)"

text \<open>The child of the shell: \<^verbatim>\<open>runcmd(parsecmd(cmd))\<close>.\<close>

definition run_line :: "byte list \<Rightarrow> act" where
  "run_line line =
     (case parsecmd line of
        Inl (Syntax msg) \<Rightarrow> sh_panic msg
      | Inl (Leftovers rest) \<Rightarrow> fputs 2 ''leftovers: %s'' rest (sh_panic ''syntax'')
      | Inl Stuck \<Rightarrow> DoUndef
      | Inr (c, buf) \<Rightarrow> runcmd (map_cmd (string_at buf) c))"

text \<open>
  \<open>getcmd\<close> continues with the line or, at the end of the input, with \<open>None\<close>. \<open>DoGets\<close> is \<open>gets\<close> of
  theory \<open>User_Lib\<close> into a buffer of the given size.
\<close>

definition getcmd :: "(byte list option \<Rightarrow> act) \<Rightarrow> act" where
  "getcmd k =
     DoWrite 2 (bytes ''$ '') (DoGets 100 (\<lambda>buf. k (if deref buf = 0 then None else Some buf)))"

text \<open>The loop of \<open>main\<close> for at most the given number of lines.\<close>

fun sh_loop :: "nat \<Rightarrow> act" where
  "sh_loop 0 = DoUndef"
| "sh_loop (Suc n) =
     getcmd (\<lambda>line.
       case line of
         None \<Rightarrow> DoExit 0
       | Some buf \<Rightarrow>
           let cmd = dropWhile (\<lambda>c. c = ch CHR '' '' \<or> c = ch (CHR 0x09)) buf
           in if deref cmd = ch (CHR 0x0A) then sh_loop n
              else if deref cmd = ch CHR ''c'' \<and> deref (tl cmd) = ch CHR ''d'' \<and>
                      deref (tl (tl cmd)) = ch CHR '' '' then
                let cmd = take (u_strlen cmd - 1) cmd
                in DoChdir (drop 3 cmd) (\<lambda>r.
                     if r < 0 then fputs 2 ''cannot cd %s'' (drop 3 cmd) (sh_loop n) else sh_loop n)
              else fork1 (\<lambda>pid. if pid = 0 then run_line cmd else DoWait (sh_loop n)))"

text \<open>
  \<open>main\<close> first opens the console until the descriptors 0 to 2 are in use; the first argument bounds
  the number of attempts.
\<close>

definition O_RDWR :: int where "O_RDWR = 0x002"

fun sh_main :: "nat \<Rightarrow> nat \<Rightarrow> act" where
  "sh_main 0 n = DoUndef"
| "sh_main (Suc k) n =
     DoOpen (bytes ''console'') O_RDWR (\<lambda>fd.
       if fd \<ge> 0 then if fd \<ge> 3 then DoClose fd (sh_loop n) else sh_main k n
       else sh_loop n)"

section \<open>Running over descriptor tables\<close>

text \<open>
  What a descriptor refers to: something the shell was started with, a file that was opened, or
  an end of a pipe.
\<close>

datatype 'f obj = Inherited 'f | Opened "byte list" int | ReadEnd nat | WriteEnd nat

type_synonym 'f fds = "nat \<Rightarrow> 'f obj option"

definition NFDS :: nat where "NFDS = 16"

text \<open>The lowest free descriptor, which \<open>open\<close>, \<open>dup\<close> and \<open>pipe\<close> take.\<close>

definition lowest :: "'f fds \<Rightarrow> nat option" where
  "lowest f = find (\<lambda>i. f i = None) [0..<NFDS]"

text \<open>
  The run in which every system call succeeds that has a free descriptor: the executed programs
  with their descriptors, and the number of pipes created so far.
\<close>

primrec execs :: "act \<Rightarrow> 'f fds \<Rightarrow> nat \<Rightarrow> (byte list list \<times> 'f fds) list \<times> nat" where
  "execs (DoExit r) f n = ([], n)"
| "execs (DoExec argv k) f n = ([(argv, f)], n)"
| "execs (DoClose d k) f n = execs k (f(nat d := None)) n"
| "execs (DoOpen p m k) f n =
     (case lowest f of
        None \<Rightarrow> execs (k (- 1)) f n
      | Some d \<Rightarrow> execs (k (int d)) (f(d \<mapsto> Opened p m)) n)"
| "execs (DoFork k) f n =
     (let (xs, n) = execs (k 0) f n; (ys, n) = execs (k 2) f n in (xs @ ys, n))"
| "execs (DoWait k) f n = execs k f n"
| "execs (DoPipe k) f n =
     (case lowest f of
        None \<Rightarrow> execs (k (- 1) 0 0) f n
      | Some a \<Rightarrow>
          (case lowest (f(a \<mapsto> ReadEnd n)) of
             None \<Rightarrow> execs (k (- 1) 0 0) f n
           | Some b \<Rightarrow> execs (k 0 (int a) (int b)) (f(a \<mapsto> ReadEnd n, b \<mapsto> WriteEnd n)) (Suc n)))"
| "execs (DoDup d k) f n =
     (case lowest f of None \<Rightarrow> execs k f n | Some e \<Rightarrow> execs k (f(e := f (nat d))) n)"
| "execs (DoWrite d out k) f n = execs k f n"
| "execs (DoChdir p k) f n = execs (k 0) f n"
| "execs (DoGets m k) f n = execs (k []) f n"
| "execs DoUndef f n = ([], n)"

text \<open>
  The meaning of a command: a redirection replaces its descriptor, a pipe connects the output of
  its left side to the input of its right side, and nothing else changes.
\<close>

primrec meaning :: "byte list cmd \<Rightarrow> 'f fds \<Rightarrow> nat \<Rightarrow> (byte list list \<times> 'f fds) list \<times> nat" where
  "meaning (Execcmd argv) f n = (if argv = [] then ([], n) else ([(argv, f)], n))"
| "meaning (Redircmd c file mode fd) f n = meaning c (f(nat fd \<mapsto> Opened file mode)) n"
| "meaning (Listcmd l r) f n =
     (let (xs, n) = meaning l f n; (ys, n) = meaning r f n in (xs @ ys, n))"
| "meaning (Pipecmd l r) f n =
     (let (xs, k) = meaning l (f(1 \<mapsto> WriteEnd n)) (Suc n);
          (ys, k) = meaning r (f(0 \<mapsto> ReadEnd n)) k in (xs @ ys, k))"
| "meaning (Backcmd c) f n = meaning c f n"

text \<open>Standard input and output are open and two descriptors are free.\<close>

definition room :: "'f fds \<Rightarrow> bool" where
  "room f \<longleftrightarrow> f 0 \<noteq> None \<and> f 1 \<noteq> None \<and>
     (\<exists>a b. a < b \<and> b < NFDS \<and> f a = None \<and> f b = None)"

lemma upt_NFDS: "[0..<NFDS] = 0 # 1 # [2..<NFDS]"
  by (simp add: NFDS_def upt_conv_Cons numeral_2_eq_2)

lemma lowest_std:
  "f 0 = None \<Longrightarrow> lowest f = Some 0" "f 0 \<noteq> None \<Longrightarrow> f 1 = None \<Longrightarrow> lowest f = Some 1"
  by (simp_all add: lowest_def upt_NFDS)

lemma lowestD: "lowest f = Some a \<Longrightarrow> f a = None"
  by (auto simp: lowest_def find_Some_iff)

lemma lowest_free: "f a = None \<Longrightarrow> a < NFDS \<Longrightarrow> \<exists>d. lowest f = Some d"
  by (cases "lowest f") (auto simp: lowest_def find_None_iff)

lemma room_std: "room f \<Longrightarrow> i < 2 \<Longrightarrow> room (f(i \<mapsto> x))"
  unfolding room_def
proof (elim conjE exE)
  fix a b assume "f 0 \<noteq> None" "f 1 \<noteq> None" "a < b" "b < NFDS" "f a = None" "f b = None" "i < 2"
  moreover from this have "a \<noteq> i" "b \<noteq> i" by (auto simp: less_2_cases_iff)
  ultimately show "(f(i \<mapsto> x)) 0 \<noteq> None \<and> (f(i \<mapsto> x)) 1 \<noteq> None \<and>
      (\<exists>a b. a < b \<and> b < NFDS \<and> (f(i \<mapsto> x)) a = None \<and> (f(i \<mapsto> x)) b = None)"
    by (intro conjI exI [of _ a] exI [of _ b]) auto
qed

text \<open>The two descriptors of a new pipe are free ones.\<close>

lemma room_pipe:
  assumes "room f"
  obtains a b where "lowest f = Some a" "lowest (f(a \<mapsto> x)) = Some b"
    "f a = None" "f b = None" "a \<noteq> b" "a \<noteq> 0" "a \<noteq> 1" "b \<noteq> 0" "b \<noteq> 1"
proof -
  obtain i j where ij: "i < j" "j < NFDS" "f i = None" "f j = None"
    using assms by (auto simp: room_def)
  obtain a where a: "lowest f = Some a" using lowest_free [of f i] ij by auto
  have "\<exists>b. lowest (f(a \<mapsto> x)) = Some b"
    using ij lowest_free [of "f(a \<mapsto> x)" i] lowest_free [of "f(a \<mapsto> x)" j] by (cases "a = i") auto
  then obtain b where b: "lowest (f(a \<mapsto> x)) = Some b" by blast
  have "f a = None" "a \<noteq> b" "f b = None"
    using lowestD [OF a] lowestD [OF b] by (auto split: if_splits)
  moreover have "k \<noteq> 0 \<and> k \<noteq> 1" if "f k = None" for k
    using assms that unfolding room_def by metis
  ultimately show thesis using that [OF a b] by blast
qed

lemma execs_fork1:
  "execs (fork1 k) f n =
     (let (xs, n) = execs (k 0) f n; (ys, n) = execs (k 2) f n in (xs @ ys, n))"
  by (simp add: fork1_def)



end
