(* ===== verification/Umalloc.thy ===== *)
theory Umalloc
  imports User_Lib
begin

text \<open>
  The memory allocator of the user library, \<^verbatim>\<open>user/umalloc.c\<close>. A pointer is a byte address, a
  \<open>Header\<close> takes 16 bytes and the fields of all headers are two functions of the address. The
  circular free list is searched by loops that do not end on a corrupt list; they are partial
  functions and \<open>None\<close> is a run that never returns. The system call \<open>sbrk\<close> is a parameter with the
  result \<open>None\<close> for \<open>SBRK_ERROR\<close>. The lemmas show that the free list stays sorted and coalesced, that
  the blocks in use are disjoint from each other and from the free ones, and that
  \<open>malloc\<close> and \<open>free\<close> return.
\<close>

section \<open>Definitions\<close>

record um =
  hptr :: "nat \<Rightarrow> nat"
  hsize :: "nat \<Rightarrow> nat"
  freep :: nat

definition set_ptr :: "nat \<Rightarrow> nat \<Rightarrow> um \<Rightarrow> um" where
  "set_ptr p v h = h\<lparr>hptr := (hptr h)(p := v)\<rparr>"

definition set_size :: "nat \<Rightarrow> nat \<Rightarrow> um \<Rightarrow> um" where
  "set_size p n h = h\<lparr>hsize := (hsize h)(p := n mod 2 ^ 32)\<rparr>"

text \<open>\<open>free\<close>: the search for the place of the block, and the two merges.\<close>

partial_function (option) free_search :: "um \<Rightarrow> nat \<Rightarrow> nat \<Rightarrow> nat option" where
  "free_search h bp p =
     (if bp > p \<and> bp < hptr h p then Some p
      else if p \<ge> hptr h p \<and> (bp > p \<or> bp < hptr h p) then Some p
      else free_search h bp (hptr h p))"

definition merge_next :: "nat \<Rightarrow> nat \<Rightarrow> um \<Rightarrow> um" where
  "merge_next bp p h =
     (if bp + 16 * hsize h bp = hptr h p
      then let h = set_size bp (hsize h bp + hsize h (hptr h p)) h
           in set_ptr bp (hptr h (hptr h p)) h
      else set_ptr bp (hptr h p) h)"

definition merge_prev :: "nat \<Rightarrow> nat \<Rightarrow> um \<Rightarrow> um" where
  "merge_prev bp p h =
     (if p + 16 * hsize h p = bp
      then let h = set_size p (hsize h p + hsize h bp) h in set_ptr p (hptr h bp) h
      else set_ptr p bp h)"

definition um_free :: "nat \<Rightarrow> um \<Rightarrow> um option" where
  "um_free ap h =
     (let bp = ap - 16
      in case free_search h bp (freep h) of
           None \<Rightarrow> None
         | Some p \<Rightarrow> Some ((merge_prev bp p (merge_next bp p h))\<lparr>freep := p\<rparr>))"

text \<open>\<open>morecore\<close>: the argument of \<open>sbrk\<close> is an \<open>int\<close>.\<close>

definition int32 :: "nat \<Rightarrow> int" where
  "int32 n = sint (of_nat n :: u32)"

definition morecore :: "(int \<Rightarrow> 's \<Rightarrow> nat option \<times> 's) \<Rightarrow> nat \<Rightarrow> um \<Rightarrow> 's \<Rightarrow>
    (nat option \<times> um \<times> 's) option" where
  "morecore sbrk nu h s =
     (let nu = (if nu < 4096 then 4096 else nu);
          (p, s) = sbrk (int32 (nu * 16)) s
      in case p of
           None \<Rightarrow> Some (None, h, s)
         | Some hp \<Rightarrow>
             (case um_free (hp + 16) (set_size hp nu h) of
                None \<Rightarrow> None
              | Some h \<Rightarrow> Some (Some (freep h), h, s)))"

text \<open>\<open>malloc\<close>: taking units from a block that is large enough, and the search.\<close>

definition take_units :: "nat \<Rightarrow> nat \<Rightarrow> nat \<Rightarrow> um \<Rightarrow> nat \<times> um" where
  "take_units nunits prevp p h =
     (let (p, h) = (if hsize h p = nunits then (p, set_ptr prevp (hptr h p) h)
                    else let h = set_size p (hsize h p - nunits) h;
                             p = p + 16 * hsize h p
                         in (p, set_size p nunits h))
      in (p + 16, h\<lparr>freep := prevp\<rparr>))"

partial_function (option) malloc_loop :: "(int \<Rightarrow> 's \<Rightarrow> nat option \<times> 's) \<Rightarrow> nat \<Rightarrow> nat \<Rightarrow> nat \<Rightarrow> um \<Rightarrow> 's \<Rightarrow>
    (nat option \<times> um \<times> 's) option" where
  "malloc_loop sbrk nunits prevp p h s =
     (if hsize h p \<ge> nunits then
        (let (q, h) = take_units nunits prevp p h in Some (Some q, h, s))
      else if p = freep h then
        Option.bind (morecore sbrk nunits h s) (\<lambda>(r, h, s).
          case r of
            None \<Rightarrow> Some (None, h, s)
          | Some p \<Rightarrow> malloc_loop sbrk nunits p (hptr h p) h s)
      else malloc_loop sbrk nunits p (hptr h p) h s)"

definition units :: "nat \<Rightarrow> nat" where
  "units nbytes = (nbytes + 16 - 1) div 16 + 1"

definition malloc :: "nat \<Rightarrow> (int \<Rightarrow> 's \<Rightarrow> nat option \<times> 's) \<Rightarrow> nat \<Rightarrow> um \<Rightarrow> 's \<Rightarrow>
    (nat option \<times> um \<times> 's) option" where
  "malloc base sbrk nbytes h s =
     (let nunits = units nbytes mod 2 ^ 32;
          h = (if freep h = 0 then set_size base 0 ((set_ptr base base h)\<lparr>freep := base\<rparr>) else h)
      in malloc_loop sbrk nunits (freep h) (hptr h (freep h)) h s)"

section \<open>The free list\<close>

text \<open>A chain of headers with their sizes, from \<open>p\<close> to \<open>q\<close>.\<close>

fun linked :: "(nat \<Rightarrow> nat) \<Rightarrow> (nat \<Rightarrow> nat) \<Rightarrow> nat \<Rightarrow> (nat \<times> nat) list \<Rightarrow> nat \<Rightarrow> bool" where
  "linked ptr sz p [] q \<longleftrightarrow> p = q"
| "linked ptr sz p ((a, n) # xs) q \<longleftrightarrow> p = a \<and> sz a = n \<and> linked ptr sz (ptr a) xs q"

abbreviation addrs :: "(nat \<times> nat) list \<Rightarrow> nat set" where
  "addrs xs \<equiv> fst ` set xs"

lemma linked_append:
  "linked ptr sz p (xs @ ys) q \<longleftrightarrow> (\<exists>m. linked ptr sz p xs m \<and> linked ptr sz m ys q)"
  by (induction xs arbitrary: p) auto

lemma linked_upd [simp]:
  "a \<notin> addrs xs \<Longrightarrow> linked (ptr(a := v)) sz p xs q = linked ptr sz p xs q"
  "a \<notin> addrs xs \<Longrightarrow> linked ptr (sz(a := n)) p xs q = linked ptr sz p xs q"
  by (induction xs arbitrary: p) auto

lemma linked_last: "linked ptr sz p xs q \<Longrightarrow> xs \<noteq> [] \<Longrightarrow> ptr (fst (last xs)) = q"
proof (induction xs arbitrary: p)
  case (Cons x xs)
  then show ?case by (cases x; cases xs) auto
qed simp

lemma linked_sz: "linked ptr sz p xs q \<Longrightarrow> (a, n) \<in> set xs \<Longrightarrow> sz a = n"
  by (induction xs arbitrary: p) auto

text \<open>Two blocks that do not overlap, and one that ends before the other begins.\<close>

definition apart :: "nat \<times> nat \<Rightarrow> nat \<times> nat \<Rightarrow> bool" where
  "apart x y \<longleftrightarrow> fst x + 16 * snd x \<le> fst y \<or> fst y + 16 * snd y \<le> fst x"

definition before :: "nat \<times> nat \<Rightarrow> nat \<times> nat \<Rightarrow> bool" where
  "before x y \<longleftrightarrow> fst x + 16 * snd x < fst y"

text \<open>
  The state of the allocator with the free blocks \<open>fl\<close> and the blocks in use \<open>al\<close>, all between the
  static header \<open>base\<close> and the end \<open>brk\<close> of the heap.
\<close>

definition block_in :: "nat \<Rightarrow> nat \<Rightarrow> nat \<times> nat \<Rightarrow> bool" where
  "block_in base brk x \<longleftrightarrow> 0 < snd x \<and> base + 16 \<le> fst x \<and> fst x + 16 * snd x \<le> brk"

definition heap_inv :: "nat \<Rightarrow> nat \<Rightarrow> um \<Rightarrow> (nat \<times> nat) list \<Rightarrow> (nat \<times> nat) set \<Rightarrow> bool" where
  "heap_inv base brk h fl al \<longleftrightarrow>
     0 < base \<and> base + 16 \<le> brk \<and> brk \<le> 2 ^ 36 \<and>
     linked (hptr h) (hsize h) base ((base, 0) # fl) base \<and>
     freep h \<in> addrs ((base, 0) # fl) \<and>
     sorted_wrt before ((base, 0) # fl) \<and>
     (\<forall>x\<in>set fl. block_in base brk x) \<and>
     (\<forall>x\<in>al. block_in base brk x \<and> hsize h (fst x) = snd x) \<and>
     (\<forall>x\<in>al. \<forall>y\<in>set fl. apart x y) \<and>
     (\<forall>x\<in>al. \<forall>y\<in>al. x = y \<or> apart x y)"

lemma linked_next:
  "linked ptr sz q (xs @ (a, n) # ys) e \<Longrightarrow> ptr a = (case ys of [] \<Rightarrow> e | y # _ \<Rightarrow> fst y)"
  by (cases ys) (auto simp: linked_append)

lemma split_addr: "a \<in> addrs xs \<Longrightarrow> \<exists>X n Y. xs = X @ (a, n) # Y"
  by (auto dest!: split_list) blast

lemma before_less: "before x y \<Longrightarrow> fst x < fst y"
  by (simp add: before_def)

section \<open>Freeing a block\<close>

lemma free_search_walk:
  assumes "linked (hptr h) (hsize h) q xs m"
    and "\<forall>a\<in>addrs xs. \<not> (a < bp \<and> bp < hptr h a) \<and> \<not> (hptr h a \<le> a \<and> (a < bp \<or> bp < hptr h a))"
  shows "free_search h bp q = free_search h bp m"
  using assms
proof (induction xs arbitrary: q)
  case (Cons x xs)
  obtain a n where x: "x = (a, n)" by fastforce
  have "q = a" "linked (hptr h) (hsize h) (hptr h a) xs m" using Cons.prems(1) by (auto simp: x)
  moreover have "free_search h bp a = free_search h bp (hptr h a)"
    using Cons.prems(2) by (subst free_search.simps) (auto simp: x)
  ultimately show ?case using Cons by simp
qed simp

lemma free_search_found:
  assumes L: "linked (hptr h) (hsize h) base L base" "L = pre @ (p, k) # post" "sorted_wrt before L"
    and b: "fst (hd L) = base" "base < bp"
    and pre: "\<forall>a\<in>addrs pre. a < bp" "p < bp" and post: "\<forall>a\<in>addrs post. bp < a"
    and q: "q \<in> addrs L"
  shows "free_search h bp q = Some p"
proof -
  have min: "base \<le> a" if "a \<in> addrs L" for a
    using that L(3) b(1) by (cases L) (auto dest: before_less less_imp_le)
  have nx: "hptr h a = (case Y of [] \<Rightarrow> base | y # _ \<Rightarrow> fst y)" if "L = X @ (a, n) # Y" for X a n Y
    using linked_next [of "hptr h" "hsize h" base X a n Y base] L(1) that by simp
  have at_p: "free_search h bp p = Some p"
    using nx [OF L(2)] post pre(2) min [of p] L(2) b(2)
    by (subst free_search.simps) (auto split: list.splits)
  have from_pre: "free_search h bp q = Some p" if q': "q \<in> addrs pre" for q
  proof -
    obtain X n Y where X: "pre = X @ (q, n) # Y" using split_addr [OF q'] by blast
    have "linked (hptr h) (hsize h) q ((q, n) # Y) p"
      using L(1,2) X by (auto simp: linked_append)
    then have "free_search h bp q = free_search h bp p"
    proof (rule free_search_walk, intro ballI)
      fix a assume "a \<in> addrs ((q, n) # Y)"
      then have "a \<in> addrs pre" using X by auto
      then obtain X' m Y' where s: "pre = X' @ (a, m) # Y'" using split_addr by blast
      have "hptr h a \<in> addrs (Y' @ [(p, k)])" "a < hptr h a"
        using nx [of X' a m "Y' @ (p, k) # post"] s L(2,3)
        by (cases Y'; auto simp: sorted_wrt_append dest: before_less)+
      then have "hptr h a < bp" "a < hptr h a" using s pre by force+
      then show "\<not> (a < bp \<and> bp < hptr h a) \<and> \<not> (hptr h a \<le> a \<and> (a < bp \<or> bp < hptr h a))" by auto
    qed
    then show ?thesis using at_p by simp
  qed
  have "base \<in> addrs pre \<or> base = p" using b(1) L(2) by (cases pre) auto
  then have at_base: "free_search h bp base = Some p" using from_pre at_p by auto
  have from_post: "free_search h bp q = Some p" if q': "q \<in> addrs post" for q
  proof -
    obtain X n Y where X: "post = X @ (q, n) # Y" using split_addr [OF q'] by blast
    have "linked (hptr h) (hsize h) q ((q, n) # Y) base"
      using L(1,2) X by (auto simp: linked_append)
    then have "free_search h bp q = free_search h bp base"
    proof (rule free_search_walk, intro ballI)
      fix a assume "a \<in> addrs ((q, n) # Y)"
      then have a: "a \<in> addrs post" using X by auto
      then obtain X' m Y' where s: "post = X' @ (a, m) # Y'" using split_addr by blast
      have "hptr h a = base \<or> a < hptr h a"
        using nx [of "pre @ (p, k) # X'" a m Y'] s L(2,3)
        by (auto simp: sorted_wrt_append dest: before_less split: list.splits)
      then show "\<not> (a < bp \<and> bp < hptr h a) \<and> \<not> (hptr h a \<le> a \<and> (a < bp \<or> bp < hptr h a))"
        using a post b(2) by force
    qed
    then show ?thesis using at_base by simp
  qed
  show ?thesis using q L(2) from_pre from_post at_p by auto
qed

lemma heap_invD:
  assumes "heap_inv base brk h fl al"
  shows "0 < base" "brk \<le> 2 ^ 36" "linked (hptr h) (hsize h) base ((base, 0) # fl) base"
    "freep h \<in> addrs ((base, 0) # fl)" "sorted_wrt before ((base, 0) # fl)"
    "y \<in> set fl \<Longrightarrow> block_in base brk y"
    "x \<in> al \<Longrightarrow> block_in base brk x" "x \<in> al \<Longrightarrow> hsize h (fst x) = snd x"
    "x \<in> al \<Longrightarrow> y \<in> set fl \<Longrightarrow> apart x y" "x \<in> al \<Longrightarrow> z \<in> al \<Longrightarrow> x = z \<or> apart x z"
    "base + 16 \<le> brk"
  using assms unfolding heap_inv_def by blast+

text \<open>The place of a block in use among the free blocks.\<close>

lemma free_place:
  assumes inv: "heap_inv base brk h fl al" and x: "(bp, n) \<in> al"
  obtains pre p k post where "(base, 0) # fl = pre @ (p, k) # post"
    "\<forall>y\<in>set (pre @ [(p, k)]). fst y + 16 * snd y \<le> bp" "\<forall>a\<in>addrs pre. a < bp" "p < bp"
    "\<forall>y\<in>set post. bp + 16 * n \<le> fst y" "\<forall>a\<in>addrs post. bp < a"
proof -
  let ?L = "(base, 0) # fl"
  let ?P = "\<lambda>y. fst y < bp"
  have bp: "base + 16 \<le> bp" "0 < n" using inv x by (auto simp: heap_inv_def block_in_def)
  have srt: "sorted_wrt before ?L" using inv by (simp add: heap_inv_def)
  have ap: "apart (bp, n) y" if "y \<in> set ?L" for y
  proof (cases "y \<in> set fl")
    case False
    then have "y = (base, 0)" using that by simp
    then show ?thesis using bp by (simp add: apart_def)
  qed (rule heap_invD(9) [OF inv x])
  define A where "A = takeWhile ?P ?L"
  define B where "B = dropWhile ?P ?L"
  have AB: "?L = A @ B" by (simp add: A_def B_def)
  have "A \<noteq> []" using bp by (simp add: A_def)
  then obtain pre p k where A: "A = pre @ [(p, k)]" by (metis prod.exhaust rev_exhaust)
  have As: "\<forall>y\<in>set A. fst y < bp" by (auto simp: A_def dest: set_takeWhileD)
  have Bs: "bp \<le> fst y" if y: "y \<in> set B" for y
  proof -
    obtain z zs where B: "B = z # zs" using y by (cases B) auto
    have "bp \<le> fst z" using hd_dropWhile [of ?P ?L] B by (simp add: B_def not_less)
    moreover have "fst z \<le> fst y" using srt y B unfolding AB by (auto simp: sorted_wrt_append before_def)
    ultimately show ?thesis by simp
  qed
  have 1: "fst y + 16 * snd y \<le> bp" if "y \<in> set A" for y
    using ap [of y] As that AB by (auto simp: apart_def)
  have 2: "bp + 16 * n \<le> fst y" if "y \<in> set B" for y
  proof -
    have "y \<in> set ?L" using that AB by simp
    moreover have "y \<noteq> (base, 0)" using Bs [OF that] bp by auto
    ultimately have "y \<in> set fl" by simp
    then have "0 < snd y" "apart (bp, n) y" using heap_invD(6,9) [OF inv] x by (auto simp: block_in_def)
    then show ?thesis using Bs [OF that] by (auto simp: apart_def)
  qed
  show thesis
    by (rule that [of pre p k B]) (use AB A As 1 2 bp in force)+
qed

text \<open>A header with new fields.\<close>

definition put :: "nat \<Rightarrow> nat \<Rightarrow> nat \<Rightarrow> um \<Rightarrow> um" where
  "put a n e h = h\<lparr>hptr := (hptr h)(a := e), hsize := (hsize h)(a := n)\<rparr>"

lemma put_simps [simp]:
  "hptr (put a n e h) = (hptr h)(a := e)" "hsize (put a n e h) = (hsize h)(a := n)"
  "freep (put a n e h) = freep h"
  by (simp_all add: put_def)

lemma set_put: "n < 2 ^ 32 \<Longrightarrow> set_ptr a e (set_size a n h) = put a n e h"
  by (simp add: set_ptr_def set_size_def put_def)

lemma set_ptr_put: "set_ptr a e h = put a (hsize h a) e h"
  by (simp add: set_ptr_def put_def)

text \<open>A block apart from two adjacent ones is apart from their union.\<close>

lemma apart_union:
  "0 < snd x \<Longrightarrow> apart x (a, n) \<Longrightarrow> apart x (a + 16 * n, m) \<Longrightarrow> apart x (a, n + m)"
  by (auto simp: apart_def)

lemma small_size: "(a :: nat) + 16 * n \<le> brk \<Longrightarrow> brk \<le> 2 ^ 36 \<Longrightarrow> 0 < a \<Longrightarrow> n < 2 ^ 32"
  by simp

lemma merge_next_ok:
  assumes p: "linked (hptr h) (hsize h) e ((p, k) # post) base" "base < bp" "p \<noteq> bp" "hsize h bp = n"
    and post: "\<forall>y\<in>set post. bp + 16 * n \<le> fst y \<and> fst y + 16 * snd y \<le> brk"
    and srt: "sorted_wrt before post" and n: "bp + 16 * n \<le> brk" "brk \<le> 2 ^ 36"
  obtains n1 e1 post1 where "merge_next bp p h = put bp n1 e1 h" "n \<le> n1" "bp + 16 * n1 \<le> brk"
    "linked (hptr h) (hsize h) e1 post1 base" "sorted_wrt before ((bp, n1) # post1)"
    "set post1 \<subseteq> set post"
    "\<And>x. 0 < snd x \<Longrightarrow> apart x (bp, n) \<Longrightarrow> \<forall>y\<in>set post. apart x y \<Longrightarrow> apart x (bp, n1)"
proof (cases "bp + 16 * n = hptr h p")
  case False
  have m: "merge_next bp p h = put bp n (hptr h p) h"
    using False p(4) by (simp add: merge_next_def set_ptr_put)
  have "bp + 16 * n < fst y" if "y \<in> set post" for y
    using that post srt p(1) False by (cases post) (auto simp: before_def)
  with m that [of n "hptr h p" post] p(1) srt n(1) show thesis by (auto simp: before_def)
next
  case True
  then obtain m ys where ys: "post = (bp + 16 * n, m) # ys" using p(1,2) by (cases post) auto
  let ?q = "bp + 16 * n"
  have q: "hsize h ?q = m" "linked (hptr h) (hsize h) (hptr h ?q) ys base" using p(1) ys by auto
  have le: "bp + 16 * (n + m) \<le> brk" using post ys by simp
  have "n + m < 2 ^ 32" using small_size [OF le n(2)] p(2) by simp
  moreover have "hptr h p = ?q" using True by simp
  ultimately have m: "merge_next bp p h = put bp (n + m) (hptr h ?q) h"
    using p(4) q(1) set_put [of "n + m" bp "hptr h ?q" h]
    by (simp add: merge_next_def Let_def) (simp add: set_size_def)
  have "before (bp, n + m) y" if "y \<in> set ys" for y
    using srt ys that by (auto simp: before_def)
  then show thesis
    using that [of "n + m" "hptr h ?q" ys] m le q(2) srt ys apart_union [of _ bp n m] by auto
qed

lemma merge_prev_ok:
  assumes p: "p \<noteq> bp" "hsize h p = k" "p + 16 * k \<le> bp" "0 < p"
    and n: "hsize h bp = n" "hptr h bp = e" "bp + 16 * n \<le> brk" "brk \<le> 2 ^ 36"
  shows "merge_prev bp p h = (if p + 16 * k = bp then put p (k + n) e h else put p k bp h)"
proof (cases "p + 16 * k = bp")
  case True
  have "p + 16 * (k + n) \<le> brk" using True n(3) by (simp add: distrib_left)
  then have "k + n < 2 ^ 32" using small_size [OF _ n(4) p(4)] by blast
  then show ?thesis
    using True p n set_put [of "k + n" p e h] by (simp add: merge_prev_def Let_def) (simp add: set_size_def)
qed (use p in \<open>simp add: merge_prev_def set_ptr_put\<close>)

text \<open>A new free list, with fewer blocks in use.\<close>

lemma heap_inv_relink:
  assumes "heap_inv base brk h fl al" "al' \<subseteq> al"
    and "linked (hptr h') (hsize h') base ((base, 0) # fl') base" "freep h' \<in> addrs ((base, 0) # fl')"
    and "sorted_wrt before ((base, 0) # fl')" "\<forall>y\<in>set fl'. block_in base brk y"
    and "\<forall>x\<in>al'. hsize h' (fst x) = snd x \<and> (\<forall>y\<in>set fl'. apart x y)"
  shows "heap_inv base brk h' fl' al'"
  using assms unfolding heap_inv_def by blast

lemma apart_neq: "apart x y \<Longrightarrow> 0 < snd x \<Longrightarrow> 0 < snd y \<Longrightarrow> fst x \<noteq> fst y"
  by (auto simp: apart_def)

lemma insert_sorted:
  assumes "sorted_wrt before (pre @ (p, k) # post)" "sorted_wrt before ((bp, n1) # post1)"
    and "set post1 \<subseteq> set post" "p + 16 * k \<le> bp"
  shows "sorted_wrt before (pre @ (if p + 16 * k = bp then [(p, k + n1)] else [(p, k), (bp, n1)]) @ post1)"
proof -
  have a: "\<forall>y\<in>set pre. before y (p, k)" "\<forall>y\<in>set pre. \<forall>z\<in>set post1. before y z" "sorted_wrt before pre"
    using assms(1,3) by (auto simp: sorted_wrt_append)
  have b: "\<forall>z\<in>set post1. before (bp, n1) z" "sorted_wrt before post1" using assms(2) by auto
  have c: "\<forall>y\<in>set pre. before y (p, k + n1)" "\<forall>y\<in>set pre. before y (bp, n1)"
    "\<forall>z\<in>set post1. before (p, k) z"
    using a(1) b(1) assms(4) by (fastforce simp: before_def)+
  show ?thesis
  proof (cases "p + 16 * k = bp")
    case True
    then have "\<forall>z\<in>set post1. before (p, k + n1) z" using b(1) by (auto simp: before_def)
    then show ?thesis using a b c True by (auto simp: sorted_wrt_append)
  next
    case False
    then have "before (p, k) (bp, n1)" using assms(4) by (simp add: before_def)
    then show ?thesis using a b c False by (auto simp: sorted_wrt_append)
  qed
qed

text \<open>
  \<open>free\<close> returns, the block is no longer in use, and the free list has a block at least as large.
\<close>

lemma um_free_ok:
  assumes inv: "heap_inv base brk h fl al" and x: "(bp, n) \<in> al"
  obtains h' fl' where "um_free (bp + 16) h = Some h'" "heap_inv base brk h' fl' (al - {(bp, n)})"
    "\<exists>y\<in>set fl'. n \<le> snd y"
proof -
  note D = heap_invD [OF inv]
  obtain pre p k post where L: "(base, 0) # fl = pre @ (p, k) # post"
    and pre: "\<forall>y\<in>set (pre @ [(p, k)]). fst y + 16 * snd y \<le> bp" "\<forall>a\<in>addrs pre. a < bp" "p < bp"
    and post: "\<forall>y\<in>set post. bp + 16 * n \<le> fst y" "\<forall>a\<in>addrs post. bp < a"
    by (rule free_place [OF inv x])
  have bp: "base + 16 \<le> bp" "0 < n" "bp + 16 * n \<le> brk" "hsize h bp = n"
    using D(7,8) [OF x] by (auto simp: block_in_def)
  have search: "free_search h bp (freep h) = Some p"
    using free_search_found [OF D(3) L D(5)] pre post D(4) bp(1) by auto
  have srt: "sorted_wrt before (pre @ (p, k) # post)" using D(5) L by simp
  obtain e where lk: "linked (hptr h) (hsize h) base pre p" "linked (hptr h) (hsize h) p ((p, k) # post) base"
    using D(3) unfolding L linked_append by auto
  have pfl: "post = [] \<or> set post \<subseteq> set fl" using L by (cases pre) auto
  have end_post: "\<forall>y\<in>set post. bp + 16 * n \<le> fst y \<and> fst y + 16 * snd y \<le> brk"
    using post(1) pfl D(6) by (auto simp: block_in_def)
  obtain n1 e1 post1 where m: "merge_next bp p h = put bp n1 e1 h" "n \<le> n1" "bp + 16 * n1 \<le> brk"
    "linked (hptr h) (hsize h) e1 post1 base" "sorted_wrt before ((bp, n1) # post1)"
    "set post1 \<subseteq> set post"
    "\<And>x. 0 < snd x \<Longrightarrow> apart x (bp, n) \<Longrightarrow> \<forall>y\<in>set post. apart x y \<Longrightarrow> apart x (bp, n1)"
    using merge_next_ok [OF lk(2) _ _ bp(4) end_post _ bp(3) D(2)] bp(1) pre(3) srt
    by (auto simp: sorted_wrt_append)
  let ?h = "put bp n1 e1 h" and ?c = "p + 16 * k = bp"
  define h' where "h' = (if ?c then put p (k + n1) e1 ?h else put p k bp ?h)\<lparr>freep := p\<rparr>"
  define mid where "mid = (if ?c then [(p, k + n1)] else [(p, k), (bp, n1)])"
  have "base \<le> p"
  proof (cases pre)
    case (Cons y ys)
    then show ?thesis using srt L by (auto simp: before_def)
  qed (use L in simp)
  then have kp: "hsize h p = k" "p + 16 * k \<le> bp" "0 < p" using lk(2) pre(1) D(1) by auto
  have prev: "merge_prev bp p ?h = (if ?c then put p (k + n1) e1 ?h else put p k bp ?h)"
    using merge_prev_ok [of p bp ?h k n1 e1 brk] kp pre(3) m(3) D(2) by simp
  have run: "um_free (bp + 16) h = Some h'"
    by (simp add: um_free_def search m(1) prev h'_def)
  have "p \<notin> addrs pre" "bp \<notin> addrs pre" "bp \<notin> addrs post" "p \<notin> addrs post"
    using srt pre post by (auto simp: sorted_wrt_append before_def)
  moreover have "bp \<notin> addrs post1" "p \<notin> addrs post1" using calculation m(6) by auto
  ultimately have link: "linked (hptr h') (hsize h') base (pre @ mid @ post1) base"
    using lk(1) m(4) pre(3) unfolding linked_append by (auto simp: h'_def mid_def)
  have sorted: "sorted_wrt before (pre @ mid @ post1)"
    unfolding mid_def by (rule insert_sorted [OF srt m(5,6) kp(2)])
  obtain fl' where fl': "pre @ mid @ post1 = (base, 0) # fl'"
    using L bp(1) by (cases pre) (auto simp: mid_def)
  have pL: "(p, k) = (base, 0) \<or> (p, k) \<in> set fl"
    and sL: "set pre \<union> set post1 \<subseteq> insert (base, 0) (set fl)"
    using arg_cong [OF L, of set] m(6) by auto
  have pfl': "(p, k) \<in> set fl" if ?c using pL that bp(1) by auto
  have low: "base < fst y" if "y \<in> set fl'" for y using sorted that unfolding fl' by (auto simp: before_def)
  have new: "y \<in> set fl \<or> y = (bp, n1) \<or> ?c \<and> y = (p, k + n1)" if "y \<in> set fl'" for y
  proof -
    have "y \<in> set pre \<union> set mid \<union> set post1" using arg_cong [OF fl', of set] that by auto
    then show ?thesis using sL pL low [OF that] by (auto simp: mid_def split: if_splits)
  qed
  have in_use: "hsize h' (fst x) = snd x \<and> (\<forall>y\<in>set fl'. apart x y)" if xa: "x \<in> al - {(bp, n)}" for x
  proof -
    have x: "0 < snd x" "hsize h (fst x) = snd x" "apart x (bp, n)" "base + 16 \<le> fst x"
      "\<forall>y\<in>set fl. apart x y"
    proof -
      have xal: "x \<in> al" "x \<noteq> (bp, n)" using xa by auto
      show "0 < snd x" "base + 16 \<le> fst x" using D(7) [OF xal(1)] by (simp_all add: block_in_def)
      show "hsize h (fst x) = snd x" by (rule D(8) [OF xal(1)])
      show "apart x (bp, n)" using D(10) [OF xal(1) \<open>(bp, n) \<in> al\<close>] xal(2) by blast
      show "\<forall>y\<in>set fl. apart x y" using D(9) [OF xal(1)] by blast
    qed
    have ne: "fst x \<noteq> bp" using apart_neq [OF x(3,1)] bp(2) by simp
    moreover have "fst x \<noteq> p" using pL x(4) apart_neq [of x "(p, k)"] x(1,5) D(6) by (auto simp: block_in_def)
    ultimately have "hsize h' (fst x) = snd x" using x(2) by (simp add: h'_def)
    moreover have a: "apart x (bp, n1)" using m(7) [OF x(1,3)] pfl x(5) by auto
    moreover have "apart x (p, k + n1)" if ?c
      using apart_union [of x p k n1] x(1,5) pfl' [OF that] a that by simp
    ultimately show ?thesis using new x(5) by blast
  qed
  have "block_in base brk (bp, n1)" using m(2,3) bp by (simp add: block_in_def)
  moreover have "block_in base brk (p, k + n1)" if ?c
    using D(6) [OF pfl' [OF that]] m(3) that by (simp add: block_in_def)
  ultimately have blocks: "\<forall>y\<in>set fl'. block_in base brk y" using new D(6) by blast
  have "heap_inv base brk h' fl' (al - {(bp, n)})"
  proof (rule heap_inv_relink [OF inv])
    have "p \<in> addrs (pre @ mid @ post1)" by (auto simp: mid_def)
    then show "freep h' \<in> addrs ((base, 0) # fl')" unfolding fl' by (simp add: h'_def)
  qed (use link sorted fl' blocks in_use in auto)
  moreover have "\<exists>y\<in>set fl'. n \<le> snd y"
  proof -
    have y: "last mid \<in> set mid" "n \<le> snd (last mid)" using m(2) by (auto simp: mid_def)
    then have "last mid \<in> set ((base, 0) # fl')" unfolding fl' [symmetric] by simp
    moreover have "last mid \<noteq> (base, 0)" using y(2) bp(2) by auto
    ultimately show ?thesis using y(2) by auto
  qed
  ultimately show thesis using run that by blast
qed

section \<open>Taking a block\<close>

text \<open>The block before a block of the free list is the one that points to it.\<close>

lemma linked_pred:
  assumes "linked ptr sz base L base" "prev \<in> addrs L" "ptr prev = p" "(p, m) \<in> set L" "p \<noteq> base"
  obtains X k Y where "L = X @ (prev, k) # (p, m) # Y"
proof -
  obtain X k Z where L: "L = X @ (prev, k) # Z" using split_addr [OF assms(2)] by blast
  then have nx: "ptr prev = (case Z of [] \<Rightarrow> base | y # _ \<Rightarrow> fst y)"
    using linked_next [of ptr sz base X prev k Z base] assms(1) by simp
  with assms(3,5) obtain m' Y where Z: "Z = (p, m') # Y" by (cases Z) auto
  have "sz p = m" "sz p = m'" using linked_sz [OF assms(1)] assms(4) L Z by auto
  with L Z that show thesis by simp
qed

lemma apart_commute: "apart x y \<longleftrightarrow> apart y x"
  by (auto simp: apart_def)

lemma apart_part:
  "apart x (p, m) \<Longrightarrow> j + i \<le> m \<Longrightarrow> apart x (p + 16 * j, i)"
  by (auto simp: apart_def)

lemma heap_inv_take:
  assumes inv: "heap_inv base brk h fl al"
    and "linked (hptr h') (hsize h') base ((base, 0) # fl') base" "freep h' \<in> addrs ((base, 0) # fl')"
    and "sorted_wrt before ((base, 0) # fl')" "\<forall>y\<in>set fl'. block_in base brk y"
    and "block_in base brk b" "hsize h' (fst b) = snd b" "\<forall>x\<in>al. hsize h' (fst x) = hsize h (fst x)"
    and "\<forall>x\<in>insert b al. \<forall>y\<in>set fl'. apart x y" "\<forall>x\<in>al. apart b x"
  shows "heap_inv base brk h' fl' (insert b al)"
proof -
  note D = heap_invD [OF inv]
  have "\<forall>x\<in>insert b al. \<forall>y\<in>insert b al. x = y \<or> apart x y"
    using D(10) assms(10) apart_commute by blast
  then show ?thesis
    using assms(2-9) D(1,2,7,8,11) unfolding heap_inv_def by auto
qed

text \<open>The place of a free block, found through the block that points to it.\<close>

lemma block_place:
  assumes inv: "heap_inv base brk h fl al" and p: "(p, m) \<in> set fl"
    and prev: "prev \<in> addrs ((base, 0) # fl)" "hptr h prev = p"
  obtains X k Y where "(base, 0) # fl = X @ (prev, k) # (p, m) # Y"
    "linked (hptr h) (hsize h) base X prev" "hsize h prev = k"
    "linked (hptr h) (hsize h) (hptr h p) Y base"
    "hsize h p = m" "prev < p" "\<forall>y\<in>set X. fst y < prev" "\<forall>y\<in>set Y. p + 16 * m < fst y"
    "\<forall>y\<in>set (X @ (prev, k) # Y). apart (p, m) y"
    "sorted_wrt before (X @ (prev, k) # (p, m) # Y)"
proof -
  note D = heap_invD [OF inv]
  have "base + 16 \<le> p" using D(6) [OF p(1)] by (auto simp: block_in_def)
  then have "(p, m) \<in> set ((base, 0) # fl)" "p \<noteq> base" using p by auto
  then obtain X k Y where L: "(base, 0) # fl = X @ (prev, k) # (p, m) # Y"
    by (rule linked_pred [OF D(3) prev])
  have srt: "sorted_wrt before (X @ (prev, k) # (p, m) # Y)" using D(5) L by simp
  have lk: "linked (hptr h) (hsize h) base X prev" "hsize h prev = k" "hsize h p = m"
      "linked (hptr h) (hsize h) (hptr h p) Y base"
    using D(3) prev(2) unfolding L linked_append by auto
  have far: "prev < p" "\<forall>y\<in>set X. fst y < prev" "\<forall>y\<in>set Y. p + 16 * m < fst y"
    "\<forall>y\<in>set (X @ (prev, k) # Y). apart (p, m) y"
    using srt by (auto simp: sorted_wrt_append before_def apart_def less_imp_le)
  show thesis by (rule that [OF L lk(1,2,4,3) far srt])
qed

text \<open>A block that fits exactly is unlinked.\<close>

lemma take_exact:
  assumes inv: "heap_inv base brk h fl al" and p: "(p, m) \<in> set fl"
    and prev: "prev \<in> addrs ((base, 0) # fl)" "hptr h prev = p"
  obtains h' fl' where "take_units m prev p h = (p + 16, h')"
    "heap_inv base brk h' fl' (insert (p, m) al)"
proof -
  note D = heap_invD [OF inv]
  obtain X k Y where L: "(base, 0) # fl = X @ (prev, k) # (p, m) # Y"
    and lk: "linked (hptr h) (hsize h) base X prev" "hsize h prev = k"
      "linked (hptr h) (hsize h) (hptr h p) Y base" "hsize h p = m"
    and far: "prev < p" "\<forall>y\<in>set X. fst y < prev" "\<forall>y\<in>set Y. p + 16 * m < fst y"
      "\<forall>y\<in>set (X @ (prev, k) # Y). apart (p, m) y"
    and srt: "sorted_wrt before (X @ (prev, k) # (p, m) # Y)"
    by (rule block_place [OF inv p prev])
  define h' where "h' = (set_ptr prev (hptr h p) h)\<lparr>freep := prev\<rparr>"
  have run: "take_units m prev p h = (p + 16, h')" using lk(4) by (simp add: take_units_def h'_def)
  obtain fl' where fl': "(base, 0) # fl' = X @ (prev, k) # Y" using L by (cases X) auto
  have sub: "set fl' \<subseteq> set fl"
    using L fl' by (cases X) auto
  have "prev \<notin> addrs X" "prev \<notin> addrs Y" using far by auto
  then have link: "linked (hptr h') (hsize h') base ((base, 0) # fl') base"
    unfolding fl' linked_append using lk by (auto simp: h'_def set_ptr_def)
  have "heap_inv base brk h' fl' (insert (p, m) al)"
  proof (rule heap_inv_take [OF inv link])
    have "prev \<in> addrs (X @ (prev, k) # Y)" by simp
    then show "freep h' \<in> addrs ((base, 0) # fl')" unfolding fl' by (simp add: h'_def)
    show "sorted_wrt before ((base, 0) # fl')" unfolding fl' using srt by (auto simp: sorted_wrt_append)
    show "\<forall>y\<in>set fl'. block_in base brk y" using sub D(6) by blast
    show "block_in base brk (p, m)" by (rule D(6) [OF p])
    show "hsize h' (fst (p, m)) = snd (p, m)" "\<forall>x\<in>al. hsize h' (fst x) = hsize h (fst x)"
      using lk(4) by (simp_all add: h'_def set_ptr_def)
    have "set fl' \<subseteq> set (X @ (prev, k) # Y)" unfolding fl' [symmetric] by auto
    then show "\<forall>x\<in>insert (p, m) al. \<forall>y\<in>set fl'. apart x y" using far(4) sub D(9) by blast
    show "\<forall>x\<in>al. apart (p, m) x" using D(9) p apart_commute by blast
  qed
  with run that show thesis by blast
qed

text \<open>From a larger block the units are taken at its end.\<close>

lemma take_split:
  assumes inv: "heap_inv base brk h fl al" and p: "(p, m) \<in> set fl" "n < m" "0 < n"
    and prev: "prev \<in> addrs ((base, 0) # fl)" "hptr h prev = p"
  obtains h' fl' where "take_units n prev p h = (p + 16 * (m - n) + 16, h')"
    "heap_inv base brk h' fl' (insert (p + 16 * (m - n), n) al)"
proof -
  note D = heap_invD [OF inv]
  obtain X k Y where L: "(base, 0) # fl = X @ (prev, k) # (p, m) # Y"
    and lk: "linked (hptr h) (hsize h) base X prev" "hsize h prev = k"
      "linked (hptr h) (hsize h) (hptr h p) Y base" "hsize h p = m"
    and far: "prev < p" "\<forall>y\<in>set X. fst y < prev" "\<forall>y\<in>set Y. p + 16 * m < fst y"
      "\<forall>y\<in>set (X @ (prev, k) # Y). apart (p, m) y"
    and srt: "sorted_wrt before (X @ (prev, k) # (p, m) # Y)"
    by (rule block_place [OF inv p(1) prev])
  let ?a = "p + 16 * (m - n)" and ?r = "m - n"
  have pb: "base + 16 \<le> p" "p + 16 * m \<le> brk" using D(6) [OF p(1)] by (auto simp: block_in_def)
  have small: "m < 2 ^ 32" using small_size [OF pb(2) D(2)] pb(1) by simp
  have r: "0 < ?r" "?r < m" "n + ?r = m" using p(2,3) by auto
  define h' where "h' = (set_size ?a n (set_size p ?r h))\<lparr>freep := prev\<rparr>"
  have sz: "hsize h' = (hsize h)(p := ?r, ?a := n)" "hptr h' = hptr h" "freep h' = prev"
    using small p(2) r(2) by (simp_all add: h'_def set_size_def)
  have run: "take_units n prev p h = (?a + 16, h')"
    using lk(4) p(2) small r(2) by (simp add: take_units_def Let_def h'_def) (simp add: set_size_def)
  obtain fl' where fl': "(base, 0) # fl' = X @ (prev, k) # (p, ?r) # Y" using L by (cases X) auto
  have sub: "set fl' \<subseteq> insert (p, ?r) (set fl \<inter> set (X @ (prev, k) # Y))"
    using L fl' by (cases X) auto
  have "?a \<notin> addrs X" "?a \<notin> addrs Y" "?a \<noteq> prev" "?a \<noteq> p" "p \<notin> addrs X" "p \<notin> addrs Y" "p \<noteq> prev"
    using far r by (fastforce+)
  then have link: "linked (hptr h') (hsize h') base ((base, 0) # fl') base"
    unfolding fl' linked_append sz using lk prev(2) by auto
  have part: "apart x (p, ?r)" "apart x (?a, n)" if "apart x (p, m)" for x
    using apart_part [OF that, of 0 ?r] apart_part [OF that, of ?r n] r by auto
  have al: "apart x (p, m)" "0 < snd x" if "x \<in> al" for x
    using D(7) [OF that] D(9) [OF that p(1)] by (auto simp: block_in_def)
  have "heap_inv base brk h' fl' (insert (?a, n) al)"
  proof (rule heap_inv_take [OF inv link])
    have "prev \<in> addrs (X @ (prev, k) # (p, ?r) # Y)" by simp
    then show "freep h' \<in> addrs ((base, 0) # fl')" unfolding fl' by (simp add: sz)
    show "sorted_wrt before ((base, 0) # fl')"
      unfolding fl' using srt r(2) by (auto simp: sorted_wrt_append before_def)
    have "block_in base brk (p, ?r)" using pb r by (simp add: block_in_def)
    then show "\<forall>y\<in>set fl'. block_in base brk y" using sub D(6) by blast
    show "block_in base brk (?a, n)" using pb r p(3) by (simp add: block_in_def)
    show "hsize h' (fst (?a, n)) = snd (?a, n)" by (simp add: sz)
    show "\<forall>x\<in>al. hsize h' (fst x) = hsize h (fst x)"
      using apart_neq [OF al(1) al(2)] apart_neq [OF part(2) [OF al(1)] al(2)] r p(3)
      by (simp add: sz)
    have "apart (?a, n) (p, ?r)" by (simp add: apart_def)
    moreover have "apart (?a, n) y" if "y \<in> set (X @ (prev, k) # Y)" for y
      using far(4) that part(2) apart_commute by blast
    moreover have "apart x y" if "x \<in> al" "y \<in> insert (p, ?r) (set fl)" for x y
      using D(9) [OF that(1)] part(1) [OF al(1) [OF that(1)]] that(2) by blast
    ultimately show "\<forall>x\<in>insert (?a, n) al. \<forall>y\<in>set fl'. apart x y" using sub by blast
    show "\<forall>x\<in>al. apart (?a, n) x" using al(1) part(2) apart_commute by blast
  qed
  with run that show thesis by blast
qed

section \<open>Allocating a block\<close>

lemma malloc_scan:
  assumes "linked (hptr h) (hsize h) p xs q" "\<forall>x\<in>set xs. snd x < nunits \<and> fst x \<noteq> freep h"
  shows "malloc_loop sbrk nunits prev p h s = malloc_loop sbrk nunits (last (prev # map fst xs)) q h s"
  using assms
proof (induction xs arbitrary: p prev)
  case (Cons x xs)
  obtain a n where x: "x = (a, n)" by fastforce
  have a: "p = a" "hsize h a = n" "linked (hptr h) (hsize h) (hptr h a) xs q" using Cons.prems(1) by (auto simp: x)
  have "malloc_loop sbrk nunits prev p h s = malloc_loop sbrk nunits a (hptr h a) h s"
    using Cons.prems(2) a by (subst malloc_loop.simps) (simp add: x)
  also have "\<dots> = malloc_loop sbrk nunits (last (a # map fst xs)) q h s"
    using Cons.prems(2) by (intro Cons.IH [OF a(3)]) simp
  finally show ?case by (simp add: x)
qed simp

text \<open>The circular list, read from the block after \<open>freep\<close> on.\<close>

lemma round_trip:
  assumes inv: "heap_inv base brk h fl al"
  obtains R k where "linked (hptr h) (hsize h) (hptr h (freep h)) (R @ [(freep h, k)]) (hptr h (freep h))"
    "set (R @ [(freep h, k)]) = set ((base, 0) # fl)" "freep h \<notin> addrs R"
proof -
  note D = heap_invD [OF inv]
  obtain A k B where L: "(base, 0) # fl = A @ (freep h, k) # B" using split_addr [OF D(4)] by blast
  have "linked (hptr h) (hsize h) base A (freep h)" "hsize h (freep h) = k"
      "linked (hptr h) (hsize h) (hptr h (freep h)) B base"
    using D(3) unfolding L linked_append by auto
  then have "linked (hptr h) (hsize h) (hptr h (freep h)) ((B @ A) @ [(freep h, k)]) (hptr h (freep h))"
    by (auto simp: linked_append)
  moreover have "set ((B @ A) @ [(freep h, k)]) = set ((base, 0) # fl)" unfolding L by auto
  moreover have "freep h \<notin> addrs (B @ A)"
    using D(5) unfolding L by (auto simp: sorted_wrt_append before_def)
  ultimately show thesis by (rule that)
qed

lemma malloc_fits:
  assumes inv: "heap_inv base brk h fl al" and y: "y \<in> set fl" "nunits \<le> snd y" "0 < nunits"
  obtains a h' fl' where
    "malloc_loop sbrk nunits (freep h) (hptr h (freep h)) h s = Some (Some (a + 16), h', s)"
    "heap_inv base brk h' fl' (insert (a, nunits) al)" "\<forall>x\<in>al. apart (a, nunits) x"
proof -
  note D = heap_invD [OF inv]
  obtain R k where R: "linked (hptr h) (hsize h) (hptr h (freep h)) (R @ [(freep h, k)]) (hptr h (freep h))"
    "set (R @ [(freep h, k)]) = set ((base, 0) # fl)" "freep h \<notin> addrs R"
    by (rule round_trip [OF inv])
  have "y \<in> set (R @ [(freep h, k)])" unfolding R(2) using y(1) by simp
  then obtain ys p m zs where sp: "R @ [(freep h, k)] = ys @ (p, m) # zs" "nunits \<le> m"
      "\<forall>x\<in>set ys. \<not> nunits \<le> snd x"
    using split_list_first_prop [of "R @ [(freep h, k)]" "\<lambda>x. nunits \<le> snd x"] y(2) by (metis prod.exhaust_sel)
  have ysR: "set ys \<subseteq> set R" using sp(1) by (cases zs rule: rev_cases) auto
  let ?prev = "last (freep h # map fst ys)"
  have lk: "linked (hptr h) (hsize h) (hptr h (freep h)) ys p" "hsize h p = m"
    using R(1) unfolding sp(1) linked_append by auto
  have scan: "malloc_loop sbrk nunits (freep h) (hptr h (freep h)) h s = malloc_loop sbrk nunits ?prev p h s"
    using sp(3) ysR R(3) by (intro malloc_scan [OF lk(1)]) (force simp: not_le)
  have pfl: "(p, m) \<in> set fl"
  proof -
    have "(p, m) \<in> set (R @ [(freep h, k)])" unfolding sp(1) by simp
    then show ?thesis unfolding R(2) using sp(2) y(3) by auto
  qed
  have prev: "?prev \<in> addrs ((base, 0) # fl)" "hptr h ?prev = p"
  proof -
    show "?prev \<in> addrs ((base, 0) # fl)"
    proof (cases "ys = []")
      case False
      then have "last ys \<in> set (R @ [(freep h, k)])" using subsetD [OF ysR last_in_set [OF False]] by simp
      then show ?thesis unfolding R(2) using False by (simp add: last_map image_iff) (metis fst_conv)
    qed (use D(4) in simp)
    show "hptr h ?prev = p"
      using lk(1) linked_last [OF lk(1)] by (cases "ys = []") (simp_all add: last_map)
  qed
  have run: "malloc_loop sbrk nunits ?prev p h s = (let (q, h) = take_units nunits ?prev p h in Some (Some q, h, s))"
    using sp(2) lk(2) by (subst malloc_loop.simps) simp
  show thesis
  proof (cases "nunits = m")
    case True
    obtain h' fl' where "take_units m ?prev p h = (p + 16, h')" "heap_inv base brk h' fl' (insert (p, m) al)"
      by (rule take_exact [OF inv pfl prev])
    then show thesis using that [of p h' fl'] scan run True D(9) [OF _ pfl] apart_commute by auto
  next
    case False
    then have n: "nunits < m" using sp(2) by simp
    obtain h' fl' where t: "take_units nunits ?prev p h = (p + 16 * (m - nunits) + 16, h')"
      "heap_inv base brk h' fl' (insert (p + 16 * (m - nunits), nunits) al)"
      by (rule take_split [OF inv pfl n y(3) prev])
    have "apart (p + 16 * (m - nunits), nunits) x" if "x \<in> al" for x
      using apart_part [OF D(9) [OF that pfl], of "m - nunits" nunits] n apart_commute by simp
    then show thesis using that [of "p + 16 * (m - nunits)" h' fl'] scan run t by simp
  qed
qed

lemma malloc_full:
  assumes inv: "heap_inv base brk h fl al" and y: "\<forall>y\<in>set fl. snd y < nunits" "0 < nunits"
  shows "malloc_loop sbrk nunits (freep h) (hptr h (freep h)) h s =
    Option.bind (morecore sbrk nunits h s) (\<lambda>(r, h, s).
      case r of None \<Rightarrow> Some (None, h, s) | Some p \<Rightarrow> malloc_loop sbrk nunits p (hptr h p) h s)"
proof -
  obtain R k where R: "linked (hptr h) (hsize h) (hptr h (freep h)) (R @ [(freep h, k)]) (hptr h (freep h))"
    "set (R @ [(freep h, k)]) = set ((base, 0) # fl)" "freep h \<notin> addrs R"
    by (rule round_trip [OF inv])
  have small: "\<forall>x\<in>set (R @ [(freep h, k)]). snd x < nunits" unfolding R(2) using y by simp
  have lk: "linked (hptr h) (hsize h) (hptr h (freep h)) R (freep h)" "hsize h (freep h) = k"
    using R(1) unfolding linked_append by auto
  have "malloc_loop sbrk nunits (freep h) (hptr h (freep h)) h s =
      malloc_loop sbrk nunits (last (freep h # map fst R)) (freep h) h s"
    using small R(3) by (intro malloc_scan [OF lk(1)]) force
  then show ?thesis using small lk(2) by (subst (asm) (2) malloc_loop.simps) simp
qed

text \<open>
  The system call: it extends the heap at its end or leaves it as it is. The limit keeps the
  number of units of a block below \<open>2\<^sup>32\<close>.
\<close>

definition sbrk_ok :: "(int \<Rightarrow> 's \<Rightarrow> nat option \<times> 's) \<Rightarrow> ('s \<Rightarrow> nat) \<Rightarrow> bool" where
  "sbrk_ok sbrk brk \<longleftrightarrow>
     (\<forall>n s. 0 \<le> n \<longrightarrow>
        (case sbrk n s of
           (None, s') \<Rightarrow> brk s' = brk s
         | (Some p, s') \<Rightarrow> p = brk s \<and> brk s' = brk s + nat n \<and> brk s' \<le> 2 ^ 36))"

lemma int32_small: "n < 2 ^ 31 \<Longrightarrow> int32 n = int n"
  by (simp add: int32_def signed_of_nat signed_take_bit_int_eq_self)

lemma heap_inv_extend:
  assumes inv: "heap_inv base b h fl al" and n: "0 < n" "n < 2 ^ 32" "b + 16 * n \<le> b'" "b' \<le> 2 ^ 36"
  shows "heap_inv base b' (set_size b n h) fl (insert (b, n) al)" "(b, n) \<notin> al"
proof -
  note D = heap_invD [OF inv]
  have out: "fst x \<noteq> b" "block_in base b' x" "apart x (b, n)" if "block_in base b x" for x
    using that n(3) unfolding block_in_def apart_def fst_conv snd_conv by linarith+
  have fl: "b \<notin> addrs ((base, 0) # fl)" using out(1) D(6,11) by fastforce
  have sz: "hsize (set_size b n h) = (hsize h)(b := n)" "hptr (set_size b n h) = hptr h"
      "freep (set_size b n h) = freep h"
    using n(2) by (simp_all add: set_size_def)
  show "(b, n) \<notin> al" using D(7) [of "(b, n)"] out(1) [of "(b, n)"] by auto
  have link: "linked (hptr h) ((hsize h)(b := n)) base ((base, 0) # fl) base"
    using D(3) fl by simp
  have sizes: "\<forall>x\<in>al. block_in base b' x \<and> ((hsize h)(b := n)) (fst x) = snd x"
    using D(7,8) out by auto
  have "block_in base b' (b, n)" using n D(11) by (simp add: block_in_def)
  moreover have "\<forall>x\<in>insert (b, n) al. \<forall>y\<in>set fl. apart x y"
    using D(6,9) out(3) apart_commute by blast
  moreover have "\<forall>x\<in>insert (b, n) al. \<forall>y\<in>insert (b, n) al. x = y \<or> apart x y"
    using D(7,10) out(3) apart_commute by blast
  moreover have "\<forall>y\<in>set fl. block_in base b' y" using D(6) out(2) by blast
  ultimately show "heap_inv base b' (set_size b n h) fl (insert (b, n) al)"
    unfolding heap_inv_def sz using D(1,4,5,11) n link sizes by auto
qed

lemma malloc_loop_ok:
  assumes sb: "sbrk_ok sbrk brk" and inv: "heap_inv base (brk s) h fl al"
    and n: "0 < nunits" "nunits * 16 < 2 ^ 31"
  shows "\<exists>r h' s' fl'. malloc_loop sbrk nunits (freep h) (hptr h (freep h)) h s = Some (r, h', s') \<and>
    (case r of
       None \<Rightarrow> heap_inv base (brk s') h' fl' al
     | Some q \<Rightarrow> \<exists>a. q = a + 16 \<and> heap_inv base (brk s') h' fl' (insert (a, nunits) al) \<and>
         (\<forall>x\<in>al. apart (a, nunits) x))"
proof (cases "\<exists>y\<in>set fl. nunits \<le> snd y")
  case True
  then obtain y where y: "y \<in> set fl" "nunits \<le> snd y" by blast
  obtain a h' fl' where
    "malloc_loop sbrk nunits (freep h) (hptr h (freep h)) h s = Some (Some (a + 16), h', s)"
    "heap_inv base (brk s) h' fl' (insert (a, nunits) al)" "\<forall>x\<in>al. apart (a, nunits) x"
    by (rule malloc_fits [OF inv y n(1)])
  then show ?thesis
    by (intro exI [of _ "Some (a + 16)"] exI [of _ h'] exI [of _ s] exI [of _ fl']) simp
next
  case False
  then have full: "\<forall>y\<in>set fl. snd y < nunits" by (simp add: not_le)
  define nu where "nu = (if nunits < 4096 then 4096 else nunits)"
  then have nu: "0 < nu" "nu < 2 ^ 32" "nu * 16 < 2 ^ 31" "nunits \<le> nu" using n by auto
  obtain r s1 where r: "sbrk (int (nu * 16)) s = (r, s1)" by fastforce
  have c: "case (r, s1) of (None, s') \<Rightarrow> brk s' = brk s
      | (Some p, s') \<Rightarrow> p = brk s \<and> brk s' = brk s + nat (int (nu * 16)) \<and> brk s' \<le> 2 ^ 36"
    using sb [unfolded sbrk_ok_def, rule_format, of "int (nu * 16)" s] r by simp
  show ?thesis
  proof (cases r)
    case None
    then have "morecore sbrk nunits h s = Some (None, h, s1)"
      using r int32_small [OF nu(3)] by (simp add: morecore_def nu_def [symmetric])
    with malloc_full [OF inv full n(1), of sbrk s] have
      "malloc_loop sbrk nunits (freep h) (hptr h (freep h)) h s = Some (None, h, s1)" by simp
    moreover have "heap_inv base (brk s1) h fl al" using inv c None by simp
    ultimately show ?thesis
      by (intro exI [of _ None] exI [of _ h] exI [of _ s1] exI [of _ fl]) simp
  next
    case (Some p)
    then have b: "p = brk s" "brk s + 16 * nu \<le> brk s1" "brk s1 \<le> 2 ^ 36" using c by auto
    note ext = heap_inv_extend [OF inv nu(1,2) b(2,3)]
    obtain h1 fl1 where f: "um_free (brk s + 16) (set_size (brk s) nu h) = Some h1"
      "heap_inv base (brk s1) h1 fl1 (insert (brk s, nu) al - {(brk s, nu)})" "\<exists>y\<in>set fl1. nu \<le> snd y"
      by (rule um_free_ok [OF ext(1) insertI1])
    have inv1: "heap_inv base (brk s1) h1 fl1 al" using f(2) ext(2) by simp
    obtain y where y: "y \<in> set fl1" "nunits \<le> snd y" using f(3) nu(4) order_trans by blast
    have "morecore sbrk nunits h s = Some (Some (freep h1), h1, s1)"
      using r int32_small [OF nu(3)] Some b(1) f(1) by (simp add: morecore_def nu_def [symmetric])
    then have "malloc_loop sbrk nunits (freep h) (hptr h (freep h)) h s =
        malloc_loop sbrk nunits (freep h1) (hptr h1 (freep h1)) h1 s1"
      using malloc_full [OF inv full n(1), of sbrk s] by simp
    moreover obtain a h' fl' where
      "malloc_loop sbrk nunits (freep h1) (hptr h1 (freep h1)) h1 s1 = Some (Some (a + 16), h', s1)"
      "heap_inv base (brk s1) h' fl' (insert (a, nunits) al)" "\<forall>x\<in>al. apart (a, nunits) x"
      by (rule malloc_fits [OF inv1 y n(1)])
    ultimately show ?thesis
      by (intro exI [of _ "Some (a + 16)"] exI [of _ h'] exI [of _ s1] exI [of _ fl']) simp
  qed
qed

section \<open>The allocator in use\<close>

text \<open>The state before the first \<open>malloc\<close>, or one with a free list.\<close>

definition heap_ok :: "nat \<Rightarrow> nat \<Rightarrow> um \<Rightarrow> (nat \<times> nat) set \<Rightarrow> bool" where
  "heap_ok base b h al \<longleftrightarrow>
     freep h = 0 \<and> al = {} \<and> 0 < base \<and> base + 16 \<le> b \<and> b \<le> 2 ^ 36 \<or> (\<exists>fl. heap_inv base b h fl al)"

lemma units_bounds: "nbytes + 16 \<le> 16 * units nbytes" "16 * units nbytes \<le> nbytes + 31"
  by (simp_all add: units_def)

lemma heap_inv_first:
  assumes "0 < base" "base + 16 \<le> b" "b \<le> 2 ^ 36"
  shows "heap_inv base b (set_size base 0 ((set_ptr base base h)\<lparr>freep := base\<rparr>)) [] {}"
  using assms by (simp add: heap_inv_def set_size_def set_ptr_def)

lemma heap_inv_freep:
  assumes "heap_inv base b h fl al"
  shows "freep h \<noteq> 0"
proof -
  note D = heap_invD [OF assms]
  obtain y where y: "y \<in> set ((base, 0) # fl)" "freep h = fst y" using D(4) by blast
  then show ?thesis using D(1) D(6) [of y] by (cases "y \<in> set fl") (auto simp: block_in_def)
qed

lemma malloc_ok:
  assumes sb: "sbrk_ok sbrk brk" and ok: "heap_ok base (brk s) h al" and n: "nbytes + 31 < 2 ^ 31"
  shows "\<exists>r h' s'. malloc base sbrk nbytes h s = Some (r, h', s') \<and>
    (case r of
       None \<Rightarrow> heap_ok base (brk s') h' al
     | Some q \<Rightarrow> heap_ok base (brk s') h' (insert (q - 16, units nbytes) al) \<and> 16 \<le> q \<and>
         (\<forall>x\<in>al. apart (q - 16, units nbytes) x))"
proof -
  let ?n = "units nbytes"
  have u: "0 < ?n" "?n * 16 < 2 ^ 31" "?n mod 2 ^ 32 = ?n" using units_bounds [of nbytes] n by auto
  define h0 where "h0 = (if freep h = 0 then set_size base 0 ((set_ptr base base h)\<lparr>freep := base\<rparr>) else h)"
  obtain fl where inv: "heap_inv base (brk s) h0 fl al"
  proof (cases "freep h = 0")
    case True
    then have "al = {}" "0 < base" "base + 16 \<le> brk s" "brk s \<le> 2 ^ 36"
      using ok heap_inv_freep [of base "brk s" h _ al] unfolding heap_ok_def by blast+
    then show thesis using heap_inv_first [of base "brk s" h] that [of "[]"] True by (simp add: h0_def)
  next
    case False
    then obtain fl where "heap_inv base (brk s) h fl al" using ok by (auto simp: heap_ok_def)
    then show thesis using that False by (simp add: h0_def)
  qed
  have "malloc base sbrk nbytes h s = malloc_loop sbrk ?n (freep h0) (hptr h0 (freep h0)) h0 s"
    using u(3) by (simp add: malloc_def h0_def Let_def)
  moreover obtain r h' s' fl' where
    m: "malloc_loop sbrk ?n (freep h0) (hptr h0 (freep h0)) h0 s = Some (r, h', s')"
      "case r of
         None \<Rightarrow> heap_inv base (brk s') h' fl' al
       | Some q \<Rightarrow> \<exists>a. q = a + 16 \<and> heap_inv base (brk s') h' fl' (insert (a, ?n) al) \<and>
           (\<forall>x\<in>al. apart (a, ?n) x)"
    using malloc_loop_ok [OF sb inv u(1,2)] by blast
  moreover have "case r of None \<Rightarrow> heap_ok base (brk s') h' al
      | Some q \<Rightarrow> heap_ok base (brk s') h' (insert (q - 16, ?n) al) \<and> 16 \<le> q \<and>
          (\<forall>x\<in>al. apart (q - 16, ?n) x)"
    using m(2) by (cases r) (auto simp: heap_ok_def)
  ultimately show ?thesis by (intro exI [of _ r] exI [of _ h'] exI [of _ s']) simp
qed

text \<open>Runs of a program that allocates blocks and frees blocks it was given.\<close>

inductive um_run :: "nat \<Rightarrow> (int \<Rightarrow> 's \<Rightarrow> nat option \<times> 's) \<Rightarrow> ('s \<Rightarrow> nat) \<Rightarrow> um \<Rightarrow> 's \<Rightarrow> (nat \<times> nat) set \<Rightarrow> bool"
  for base sbrk brk where
  start: "freep h = 0 \<Longrightarrow> 0 < base \<Longrightarrow> base + 16 \<le> brk s \<Longrightarrow> brk s \<le> 2 ^ 36 \<Longrightarrow> um_run base sbrk brk h s {}"
| malloc: "um_run base sbrk brk h s al \<Longrightarrow> nbytes + 31 < 2 ^ 31 \<Longrightarrow>
    malloc base sbrk nbytes h s = Some (r, h', s') \<Longrightarrow>
    um_run base sbrk brk h' s' (case r of None \<Rightarrow> al | Some q \<Rightarrow> insert (q - 16, units nbytes) al)"
| free: "um_run base sbrk brk h s al \<Longrightarrow> (a, n) \<in> al \<Longrightarrow> um_free (a + 16) h = Some h' \<Longrightarrow>
    um_run base sbrk brk h' s (al - {(a, n)})"

lemma um_run_ok:
  assumes "um_run base sbrk brk h s al" "sbrk_ok sbrk brk"
  shows "heap_ok base (brk s) h al"
  using assms
proof (induction rule: um_run.induct)
  case (start h s)
  then show ?case by (simp add: heap_ok_def)
next
  case (malloc h s al nbytes r h' s')
  then show ?case using malloc_ok [OF malloc.prems malloc.IH [OF malloc.prems] malloc.hyps(2)]
    by (auto split: option.splits)
next
  case (free h s al a n h')
  from free.IH [OF free.prems] free.hyps(2) obtain fl where inv: "heap_inv base (brk s) h fl al"
    by (auto simp: heap_ok_def)
  then show ?case using um_free_ok [OF inv free.hyps(2)] free.hyps(3) by (auto simp: heap_ok_def)
qed


text \<open>A heap that can grow up to one megabyte.\<close>

definition small_sbrk :: "int \<Rightarrow> nat \<Rightarrow> nat option \<times> nat" where
  "small_sbrk n s = (if s + nat n \<le> 1048576 then (Some s, s + nat n) else (None, s))"

definition fresh_um :: um where
  "fresh_um = \<lparr>hptr = (\<lambda>_. 0), hsize = (\<lambda>_. 0), freep = 0\<rparr>"

lemma small_sbrk_ok: "sbrk_ok small_sbrk id"
  by (simp add: sbrk_ok_def small_sbrk_def)

lemmas um_step_simps = set_ptr_def set_size_def fresh_um_def small_sbrk_def um_free_def merge_next_def
  merge_prev_def take_units_def units_def

lemma malloc_100:
  "\<exists>h. malloc 4096 small_sbrk 100 fresh_um 8192 = Some (Some 73616, h, 73728)"
proof -
  let ?h = "set_size 4096 0 ((set_ptr 4096 4096 fresh_um)\<lparr>freep := 4096\<rparr>)"
  let ?g = "put 8192 4096 4096 (put 4096 0 8192 ?h)"
  have search: "free_search (set_size 8192 4096 ?h) 8192 4096 = Some 4096"
    by (subst free_search.simps) (simp add: um_step_simps)
  have more: "morecore small_sbrk 8 ?h 8192 = Some (Some 4096, ?g, 73728)"
    using search int32_small [of 65536]
    by (simp add: morecore_def um_free_def) (simp add: um_step_simps put_def fun_eq_iff)
  have "malloc 4096 small_sbrk 100 fresh_um 8192 = malloc_loop small_sbrk 8 4096 4096 ?h 8192"
    by (simp add: malloc_def units_def) (simp add: um_step_simps)
  also have "\<dots> = malloc_loop small_sbrk 8 4096 8192 ?g 73728"
    using more by (subst malloc_loop.simps) (simp add: set_size_def)
  also have "\<dots> = Some (Some 73616, snd (take_units 8 4096 8192 ?g), 73728)"
    by (subst malloc_loop.simps) (simp add: take_units_def set_size_def)
  finally show ?thesis by blast
qed

text \<open>
  A request near \<open>2\<^sup>32\<close> bytes makes the argument of \<open>sbrk\<close> wrap around: the heap grows by 16 bytes and
  \<open>malloc\<close> returns a pointer to its end.
\<close>

theorem malloc_huge_wraps:
  "\<exists>h. malloc 4096 small_sbrk (2 ^ 32 - 1) fresh_um 8192 = Some (Some 8208, h, 8208)"
proof -
  let ?n = "268435457 :: nat"
  let ?h = "set_size 4096 0 ((set_ptr 4096 4096 fresh_um)\<lparr>freep := 4096\<rparr>)"
  let ?g = "put 8192 ?n 4096 (put 4096 0 8192 ?h)"
  have search: "free_search (set_size 8192 ?n ?h) 8192 4096 = Some 4096"
    by (subst free_search.simps) (simp add: um_step_simps)
  have i: "int32 4294967312 = 16" by (simp add: int32_def)
  have more: "morecore small_sbrk ?n ?h 8192 = Some (Some 4096, ?g, 8208)"
    using search i
    by (simp add: morecore_def um_free_def) (simp add: um_step_simps put_def fun_eq_iff)
  have "malloc 4096 small_sbrk (2 ^ 32 - 1) fresh_um 8192 = malloc_loop small_sbrk ?n 4096 4096 ?h 8192"
    by (simp add: malloc_def units_def) (simp add: um_step_simps)
  also have "\<dots> = malloc_loop small_sbrk ?n 4096 8192 ?g 8208"
    using more by (subst malloc_loop.simps) (simp add: set_size_def)
  also have "\<dots> = Some (Some 8208, snd (take_units ?n 4096 8192 ?g), 8208)"
    by (subst malloc_loop.simps) (simp add: take_units_def)
  finally show ?thesis by blast
qed


end
