(* ===== verification/Spec2Isabelle.thy ===== *)
theory Spec2Isabelle
  imports Spinlock Kernel Peterson Crash Block_Alloc Grep Sh_Run Umalloc
begin

text \<open>
  A model of the operating system under \<^verbatim>\<open>src/xv6-riscv\<close>: xv6 for RISC-V with an energy-aware
  scheduler, an adaptive timer, two deadlock detectors with recovery, and pipes that are protected
  by Peterson's algorithm; the user library, the shell and \<open>grep\<close> run on top of it. Paths below are
  relative to \<^verbatim>\<open>src/xv6-riscv\<close>.

  \<^bold>\<open>The program and its parts.\<close> A trap enters at \<^verbatim>\<open>kernel/trap.c\<close>: a system call goes through the table
  of \<^verbatim>\<open>kernel/syscall.c\<close> to \<^verbatim>\<open>kernel/sysproc.c\<close> and \<^verbatim>\<open>kernel/sysfile.c\<close>, a device interrupt to its
  driver, and a timer interrupt to the energy accounting, the periodic deadlock recovery and
  \<open>yield\<close>. Processes live in the table of \<^verbatim>\<open>kernel/proc.c\<close> and are chosen by its scheduler. They block in
  \<open>sleep\<close>, on sleep locks (\<^verbatim>\<open>kernel/sleeplock.c\<close>) and on tracked resources. File system calls go down from
  open files (\<^verbatim>\<open>kernel/file.c\<close>) through inodes (\<^verbatim>\<open>kernel/fs.c\<close>), the log (\<^verbatim>\<open>kernel/log.c\<close>) and the
  buffer cache (\<^verbatim>\<open>kernel/bio.c\<close>) to the disk driver. Memory is pages (\<^verbatim>\<open>kernel/kalloc.c\<close>) and page tables
  (\<^verbatim>\<open>kernel/vm.c\<close>).

  \<^bold>\<open>How the code is modelled.\<close> The state of the kernel is one record that grows with the components,
  in the order \<open>mach\<close>, \<open>kmem\<close>, \<open>ptable\<close>, \<open>sltable\<close>, \<open>bcache\<close>, \<open>logst\<close>, \<open>fsst\<close>, \<open>pipest\<close>,
  \<open>consst\<close>, \<open>ftst\<close>, \<open>vdisk\<close>, \<open>kernel\<close>; an operation works on every extension of the part it needs. It
  returns a result of type \<open>kres\<close>: a value with the new state, or the reason why it does not return.
  These are a panic, a null dereference, undefined behaviour, an endless spin, and \<open>Switch\<close>, the
  switch to the scheduler with the state at that moment. The part of a function after a blocking call is a
  separate operation with the suffix \<open>_resume\<close>, \<open>_return\<close> or \<open>_retry\<close>. Machine integers are words; the
  pages of RAM are bytes, and free lists and page tables are stored in them as the code stores
  them. Loops whose number of rounds the code bounds are recursions over lists or run with fuel.

  \<^bold>\<open>Theories of the kernel.\<close>
  \<^item> \<open>Kernel_Base\<close> is the prelude. \<open>Cstring\<close> is \<^verbatim>\<open>kernel/string.c\<close>, \<open>Printf\<close> is \<^verbatim>\<open>kernel/printf.c\<close>;
    overlapping moves, comparison, and decimal output within its buffer are proved correct.
  \<^item> \<open>Spinlock\<close> interleaves the harts over \<^verbatim>\<open>kernel/spinlock.c\<close>: mutual exclusion, and refinement of the
    ownership view that the rest of the model uses.
  \<^item> \<open>Kalloc\<close> (\<^verbatim>\<open>kernel/kalloc.c\<close>) has the interface \<open>page_allocator\<close> and shows that booting frees
    every page once. \<open>Vm\<close> and \<open>Proc_Mem\<close> are \<^verbatim>\<open>kernel/vm.c\<close> and the memory of a process, with the
    frame lemmas that the clients need.
  \<^item> \<open>Proc_Table\<close>, \<open>Scheduler\<close> and \<open>Proc_Life\<close> are \<^verbatim>\<open>kernel/proc.c\<close>: no lost wake-up, the effect of
    \<open>kill\<close>, the exact scheduling policy with its waiting counters and its timer interval.
  \<^item> \<open>Wait_Graph\<close> is the interface of the two deadlock detectors. \<open>Deadlock\<close> shows that
    \<open>check_deadlock\<close> finds a circular wait exactly if there is one and that \<open>NPROC\<close> recoveries
    remove all; \<open>Sleeplock\<close> shows that \<open>would_create_deadlock\<close> is exact and that
    a deadlock on sleep locks outlives the recovery.
  \<^item> \<open>Trap\<close> and \<open>Kernel\<close> are \<^verbatim>\<open>kernel/trap.c\<close>, \<^verbatim>\<open>kernel/syscall.c\<close>, \<^verbatim>\<open>kernel/plic.c\<close> and \<^verbatim>\<open>kernel/main.c\<close>:
    the energy that a tick costs, and how long \<open>pause\<close> waits.
  \<^item> \<open>Layout\<close> holds the structures on the disk with their round trips. \<open>Bio\<close>, \<open>Buffer_List\<close> and
    \<open>Buffer_Cache\<close> are the buffer cache: its linked list refines a list, and its operations satisfy the
    interface \<open>block_store\<close>. \<open>Log\<close>, \<open>Log_Commit\<close>, \<open>Log_Trans\<close> and \<open>Crash\<close> use it to show that a
    transaction is atomic for a crash after any of its disk writes, that recovery may crash
    and be repeated, and what happens when a transaction fills the log. \<open>Fs\<close> is \<^verbatim>\<open>kernel/fs.c\<close>, and \<open>Block_Alloc\<close>
    shows that its block allocator is exact inside a transaction.
  \<^item> \<open>Ring\<close> is the interface \<open>fifo\<close> of circular buffers with wrapping indices. \<open>Pipe\<close> shows that a
    pipe delivers bytes in order and that waiting on one faults; \<open>Peterson\<close> shows mutual exclusion for
    one writer and one reader and its failure for two writers.
  \<^item> \<open>Console\<close>, \<open>File\<close>, \<open>Sysfile\<close>, \<open>Exec\<close> and \<open>Virtio\<close> are the files of these names, with
    \<^verbatim>\<open>kernel/uart.c\<close> in \<open>Console\<close>.

  \<^bold>\<open>Theories of user space.\<close>
  \<^item> \<open>User_Lib\<close> is \<^verbatim>\<open>user/ulib.c\<close> and \<^verbatim>\<open>user/printf.c\<close>; \<open>atoi\<close> reads back what \<open>printf\<close> prints, up
    to an overflow at the largest numbers.
  \<^item> \<open>Umalloc\<close> is \<^verbatim>\<open>user/umalloc.c\<close>: blocks in use never overlap, and the calls return.
  \<^item> \<open>Grep\<close> is \<^verbatim>\<open>user/grep.c\<close>: the matcher decides the language of its pattern, and the
    matching lines are printed however the input is split into reads.
  \<^item> \<open>Sh_Parse\<close>, \<open>Sh_Print\<close> and \<open>Sh_Run\<close> are \<^verbatim>\<open>user/sh.c\<close>: the parser is total with well-formed results,
    reads back every command, and the programs of a command get the file descriptors that the command
    says.

  \<^bold>\<open>Bounds and fuel.\<close> The walks of the deadlock detectors are bounded by \<open>NPROC\<close> as in the code, and the
  lemmas of \<open>Wait_Graph\<close> show that this many hops see the whole graph. The digit loops have 20 rounds, the
  size of their buffer, and never need more. The loops of \<open>printf\<close> and \<open>grep\<close> get as much fuel as their
  input is long, plus one. The parser of the shell gets four units per character and four more; it
  never runs out. The loops of \<open>malloc\<close> and \<open>free\<close> are partial functions that are shown to return. The loop of
  the shell is modelled for any number of lines.

  \<^bold>\<open>Parameters.\<close> The hardware is not code of the repository: the contents of the disk and of the
  registers of devices, and the bytes that a UART receives, are part of the state or arguments. A user program
  takes the system calls it makes as arguments; the theorems about \<open>grep\<close> and \<open>malloc\<close> state what they
  rely on as the predicates \<open>reader\<close> and \<open>sbrk_ok\<close>, which concrete functions satisfy.

  \<^bold>\<open>Not modelled.\<close>
  \<^item> The assembly files and \<^verbatim>\<open>kernel/start.c\<close>: register saving and machine mode.
  \<^item> A call that blocks deep inside other calls is modelled up to the block; the outer calls are not
    resumed, because their stack frames are not part of the state.
  \<^item> Kernel code outside \<open>Spinlock\<close> and \<open>Peterson\<close> runs without interleaving between its blocking
    points; the locks it holds are recorded.
  \<^item> The simple user programs, which only pass their arguments to system calls, and the test
    and demonstration programs, which have no behaviour of their own to rely on.
  \<^item> \<^verbatim>\<open>mkfs/mkfs.c\<close>, a program of the host system, and the declarations in headers.
\<close>

end
